(* ===== verification/Prelude.thy ===== *)
theory Prelude
  imports Complex_Main "HOL-Library.Word"
begin

text \<open>
  Shared ground of the development: the outcome type of a C function that can stop early, its
  sequencing operator, signed 32-bit and 64-bit wrap-around, and the named collections the
  component theories add to.
\<close>

unbundle bit_operations_syntax

section \<open>Outcomes\<close>

text \<open>
  A run of a C function either returns a value (\<open>Inr\<close>) or stops for one of the reasons below.
  \<open>Exit\<close> is the call of exit(); \<open>Hang\<close> is a loop that never ends, and says which: the bisection of
  sqrt(), the cluster loop, the assertion's, or an idle loop (of a handler, or after the scheduler);
  the others are the accesses and operations for which C gives the run no meaning, and an access
  outside an array says outside which.
\<close>

datatype area =
    Dispatch_Table
  | Assoc_Table
  | Server_IPs
  | Chime_List
  | Survivor_List
  | Digit_Buffer
  | Output_Buffer
  | Stack_Frame

datatype endless =
    Sqrt_Loop
  | Cluster_Loop
  | Assert_Loop
  | Idle_Loop

datatype stop =
    Exit int
  | Hang endless
  | Null_Store
  | Use_After_Free
  | Index_OOB area
  | Signed_Overflow

type_synonym 'a outcome = "stop + 'a"

named_theorems outcome_simps \<open>rules that run a sequence of steps\<close>
named_theorems frame_simps \<open>what an operation leaves unchanged\<close>
named_theorems conv_simps \<open>numeric conversions of the C program\<close>

primrec bind_r :: "'a outcome \<Rightarrow> ('a \<Rightarrow> 'b outcome) \<Rightarrow> 'b outcome" where
  "bind_r (Inl e) f = Inl e"
| "bind_r (Inr x) f = f x"

lemma bind_r_Inr_conv [outcome_simps]:
  "bind_r m f = Inr y \<longleftrightarrow> (\<exists>x. m = Inr x \<and> f x = Inr y)"
  by (cases m) auto

lemma bind_r_Inl_conv:
  "bind_r m f = Inl e \<longleftrightarrow> m = Inl e \<or> (\<exists>x. m = Inr x \<and> f x = Inl e)"
  by (cases m) auto

lemma bind_r_assoc: "bind_r (bind_r m f) g = bind_r m (\<lambda>x. bind_r (f x) g)"
  by (cases m) auto

lemma bind_r_Inr_right [simp]: "bind_r m Inr = m"
  by (cases m) auto

lemma bind_r_cong [fundef_cong]:
  "m = m' \<Longrightarrow> (\<And>x. m' = Inr x \<Longrightarrow> f x = f' x) \<Longrightarrow> bind_r m f = bind_r m' f'"
  by (cases m') auto

lemma bind_r_E:
  assumes "bind_r m f = Inr y"
  obtains x where "m = Inr x" and "f x = Inr y"
  using assms by (auto simp: bind_r_Inr_conv)

text \<open>A for loop over a list of indices whose body threads a state.\<close>

fun foldr_r :: "('a \<Rightarrow> 's \<Rightarrow> 's outcome) \<Rightarrow> 'a list \<Rightarrow> 's \<Rightarrow> 's outcome" where
  "foldr_r f [] w = Inr w"
| "foldr_r f (x # xs) w = bind_r (f x w) (foldr_r f xs)"

lemma foldr_r_append:
  "foldr_r f (xs @ ys) w = bind_r (foldr_r f xs w) (foldr_r f ys)"
proof (induction xs arbitrary: w)
  case Nil
  then show ?case by simp
next
  case (Cons x xs)
  then show ?case by (cases "f x w") simp_all
qed

lemma foldr_r_returns:
  "(\<And>x s. x \<in> set xs \<Longrightarrow> \<exists>s'. f x s = Inr s') \<Longrightarrow> \<exists>s'. foldr_r f xs s = Inr s'"
proof (induction xs arbitrary: s)
  case (Cons x xs)
  obtain u where "f x s = Inr u" using Cons.prems [of x s] by auto
  moreover have "\<exists>s'. foldr_r f xs u = Inr s'" using Cons.prems by (intro Cons.IH) simp
  ultimately show ?case by simp
qed simp

lemma foldr_r_invariant:
  assumes step: "\<And>x w w'. x \<in> set xs \<Longrightarrow> P w \<Longrightarrow> f x w = Inr w' \<Longrightarrow> P w'"
    and start: "P w" and run: "foldr_r f xs w = Inr w'"
  shows "P w'"
  using assms
proof (induction xs arbitrary: w)
  case Nil
  then show ?case by simp
next
  case (Cons x xs)
  from Cons.prems(3) obtain v where v: "f x w = Inr v" "foldr_r f xs v = Inr w'"
    by (auto simp: bind_r_Inr_conv)
  have "P v"
    using Cons.prems(1,2) v(1) by (meson list.set_intros(1))
  with Cons.IH [of v] Cons.prems(1) v(2) show ?case
    by (meson list.set_intros(2))
qed

text \<open>A for loop that returns at the first index that satisfies its test.\<close>

fun find_r :: "('a \<Rightarrow> bool outcome) \<Rightarrow> 'a list \<Rightarrow> 'a option outcome" where
  "find_r f [] = Inr None"
| "find_r f (x # xs) = bind_r (f x) (\<lambda>b. if b then Inr (Some x) else find_r f xs)"

lemma find_r_pure:
  "(\<And>x. x \<in> set xs \<Longrightarrow> f x = Inr (P x)) \<Longrightarrow> find_r f xs = Inr (List.find P xs)"
  by (induction xs) simp_all

text \<open>Reading an array, which ends the run outside its bounds.\<close>

definition idx :: "area \<Rightarrow> 'a list \<Rightarrow> nat \<Rightarrow> 'a outcome" where
  "idx a xs i = (if i < length xs then Inr (xs ! i) else Inl (Index_OOB a))"

lemma idx_ok [simp]: "i < length xs \<Longrightarrow> idx a xs i = Inr (xs ! i)"
  by (simp add: idx_def)

lemma idx_Inr_iff: "idx a xs i = Inr x \<longleftrightarrow> i < length xs \<and> x = xs ! i"
  by (auto simp: idx_def)

text \<open>Searching an array by index finds what searching the list finds.\<close>

lemma find_map: "List.find P (map f ys) = map_option f (List.find (\<lambda>y. P (f y)) ys)"
  by (induction ys) simp_all

lemma find_indices:
  "map_option (\<lambda>i. xs ! i) (List.find (\<lambda>i. P (xs ! i)) [0..<length xs]) = List.find P xs"
  using find_map [of P "(!) xs" "[0..<length xs]"] by (simp add: map_nth)

lemma find_SomeD: "List.find P xs = Some x \<Longrightarrow> x \<in> set xs \<and> P x"
  by (induction xs) (auto split: if_splits)

section \<open>Signed integers\<close>

text \<open>
  A C int is an \<open>int\<close> in the range of 32-bit two's complement; \<open>i32\<close> reduces the result of an
  operation to that range, \<open>i64\<close> does the same for int64_t.
\<close>

definition i32 :: "int \<Rightarrow> int" where
  "i32 x = (x + 2147483648) mod 4294967296 - 2147483648"

definition i64 :: "int \<Rightarrow> int" where
  "i64 x = (x + 9223372036854775808) mod 18446744073709551616 - 9223372036854775808"

lemma i32_id [conv_simps]: "-2147483648 \<le> x \<Longrightarrow> x < 2147483648 \<Longrightarrow> i32 x = x"
  by (simp add: i32_def)

lemma i32_range: "-2147483648 \<le> i32 x" "i32 x < 2147483648"
  by (simp_all add: i32_def)

lemma i32_idem [simp]: "i32 (i32 x) = i32 x"
  by (rule i32_id) (rule i32_range)+

lemma i64_id [conv_simps]:
  "-9223372036854775808 \<le> x \<Longrightarrow> x < 9223372036854775808 \<Longrightarrow> i64 x = x"
  by (simp add: i64_def)

lemma i64_range: "-9223372036854775808 \<le> i64 x" "i64 x < 9223372036854775808"
  by (simp_all add: i64_def)

lemma i32_numerals [simp]: "i32 0 = 0" "i32 1 = 1" "i32 (- 1) = - 1"
  by (simp_all add: i32_def)

text \<open>Reading a 64-bit word as int64_t is the reduction of its unsigned value.\<close>

lemma sint_i64: "sint (x :: 64 word) = i64 (uint x)"
proof -
  have u: "0 \<le> uint x" "uint x < 18446744073709551616"
    using uint_lt2p [of x] by simp_all
  have "sint x = (if uint x < 9223372036854775808 then uint x else uint x - 18446744073709551616)"
    using u by (simp add: sint_uint signed_take_bit_eq_take_bit_shift take_bit_eq_mod)
      (smt (verit) mod_pos_pos_trivial minus_mod_self2)
  with u show ?thesis
    by (simp add: i64_def) (smt (verit) mod_pos_pos_trivial minus_mod_self2)
qed

section \<open>C's minimum and maximum macros\<close>

text \<open>
  min(a, b) is ((a) < (b) ? (a) : (b)) and max(a, b) is ((a) < (b) ? (b) : (a)). They are written
  with the comparison the macros use, because on doubles the result with a NaN depends on it.
\<close>

definition cmin :: "'a::ord \<Rightarrow> 'a \<Rightarrow> 'a" where
  "cmin a b = (if a < b then a else b)"

definition cmax :: "'a::ord \<Rightarrow> 'a \<Rightarrow> 'a" where
  "cmax a b = (if a < b then b else a)"

lemma cmin_int [simp]: "cmin a b = min a (b::int)"
  by (auto simp: cmin_def)

lemma cmax_int [simp]: "cmax a b = max a (b::int)"
  by (auto simp: cmax_def)

end
