(* ===== verification/Binary64.thy ===== *)
theory Binary64
  imports Prelude
begin

text \<open>
  The C type double as the target computes it: IEEE 754 binary64 with round to nearest, ties to
  even. A value is a finite real, an infinity or not-a-number. The two zeros are one value: the
  only operation that tells them apart is a division by zero, and no divisor of the program is
  ever the negative zero, so a division by zero has the sign a positive zero gives.
  \<open>rnd\<close> is the rounding of a real to 53 significant bits with the exponent range of binary64, and
  every operation is the exact real operation followed by \<open>rnd\<close>. The locale \<open>rounding\<close> states what
  the proofs use of a rounding function.
\<close>

section \<open>Rounding to binary64\<close>

lemma pow2_less_iff: "(2::real) powi m < 2 powi n \<longleftrightarrow> m < n"
  by (metis linorder_neqE_linordered_idom less_irrefl less_trans one_less_numeral_iff
      power_int_strict_increasing semiring_norm(76))

lemma pow2_le_iff: "(2::real) powi m \<le> 2 powi n \<longleftrightarrow> m \<le> n"
  using pow2_less_iff [of n m] by linarith

lemma pow2_pos [simp]: "0 < (2::real) powi n"
  by simp

text \<open>The binary exponent of a positive real, found by doubling and halving.\<close>

function binexp :: "real \<Rightarrow> int" where
  "binexp x = (if x \<le> 0 then 0
               else if x < 1 then binexp (2 * x) - 1
               else if 2 \<le> x then binexp (x / 2) + 1
               else 0)"
  by pat_completeness auto
termination
proof (relation "measure (\<lambda>x. nat \<bar>\<lfloor>log 2 x\<rfloor>\<bar>)", goal_cases)
  case 1
  then show ?case by simp
next
  case (2 x)
  then have pos: "0 < x" and lt: "x < 1" by simp_all
  have "log 2 x < 0" using pos lt by simp
  then have "\<lfloor>log 2 x\<rfloor> \<le> - 1" by linarith
  moreover have "log 2 (2 * x) = 1 + log 2 x" using pos by (simp add: log_mult)
  ultimately show ?case by simp
next
  case (3 x)
  then have pos: "2 \<le> x" by simp
  have "1 \<le> log 2 x" using pos by simp
  moreover have "log 2 (x / 2) = log 2 x - 1" using pos by (simp add: log_divide)
  ultimately show ?case by simp
qed

declare binexp.simps [simp del]

lemma binexp_bounds: "0 < x \<Longrightarrow> 2 powi (binexp x) \<le> x \<and> x < 2 powi (binexp x + 1)"
proof (induction x rule: binexp.induct)
  case (1 x)
  consider "x < 1" | "2 \<le> x" | "1 \<le> x" "x < 2" by linarith
  then show ?case
  proof cases
    assume a: "x < 1"
    with 1 have "2 powi (binexp (2 * x)) \<le> 2 * x \<and> 2 * x < 2 powi (binexp (2 * x) + 1)"
      by simp
    moreover have "binexp x = binexp (2 * x) - 1"
      using 1 a by (subst binexp.simps) simp
    ultimately show ?thesis
      by (simp add: power_int_diff power_int_add)
  next
    assume a: "2 \<le> x"
    with 1 have "2 powi (binexp (x / 2)) \<le> x / 2 \<and> x / 2 < 2 powi (binexp (x / 2) + 1)"
      by simp
    moreover have "binexp x = binexp (x / 2) + 1"
      using 1 a by (subst binexp.simps) simp
    ultimately show ?thesis
      by (simp add: power_int_add)
  next
    assume a: "1 \<le> x" "x < 2"
    then have "binexp x = 0"
      by (subst binexp.simps) simp
    with a show ?thesis by simp
  qed
qed

lemma binexp_unique:
  assumes "2 powi e \<le> x" and "x < 2 powi (e + 1)"
  shows "binexp x = e"
proof -
  have pos: "0 < x"
    using assms(1) by (smt (verit) zero_less_power_int)
  have "(2::real) powi (binexp x) < 2 powi (e + 1)" "(2::real) powi e < 2 powi (binexp x + 1)"
    using binexp_bounds [OF pos] assms by linarith+
  then have "binexp x < e + 1" "e < binexp x + 1"
    by (simp_all only: pow2_less_iff)
  then show ?thesis by linarith
qed

lemma binexp_mono:
  assumes "0 < x" and "x \<le> y"
  shows "binexp x \<le> binexp y"
proof -
  have "(2::real) powi (binexp x) < 2 powi (binexp y + 1)"
    using binexp_bounds [OF assms(1)] binexp_bounds [of y] assms by linarith
  then have "binexp x < binexp y + 1"
    by (simp only: pow2_less_iff)
  then show ?thesis by linarith
qed

text \<open>Rounding to the nearest integer, ties to the even one.\<close>

definition rne :: "real \<Rightarrow> int" where
  "rne y = (let f = \<lfloor>y\<rfloor>; d = y - of_int f
            in if d < 1/2 then f else if 1/2 < d then f + 1 else if even f then f else f + 1)"

lemma rne_int [simp]: "rne (of_int k) = k"
  by (simp add: rne_def)

lemma rne_error: "\<bar>of_int (rne y) - y\<bar> \<le> 1 / 2"
  unfolding rne_def Let_def by (smt (verit) of_int_1 of_int_add of_int_floor_le
      real_of_int_floor_add_one_gt field_sum_of_halves)

lemma rne_minus: "rne (- y) = - rne y"
proof (cases "y \<in> \<int>")
  case True
  then show ?thesis
    by (auto elim!: Ints_cases simp flip: of_int_minus)
next
  case False
  then have f: "\<lfloor>- y\<rfloor> = - \<lfloor>y\<rfloor> - 1"
    by (metis ceiling_altdef ceiling_def Ints_of_int minus_add_distrib add_uminus_conv_diff
        minus_minus)
  show ?thesis
    unfolding rne_def Let_def f by (auto simp: field_simps)
qed

lemma rne_mono: "x \<le> y \<Longrightarrow> rne x \<le> rne y"
proof -
  assume le: "x \<le> y"
  then have fl: "\<lfloor>x\<rfloor> \<le> \<lfloor>y\<rfloor>" by (rule floor_mono)
  show ?thesis
  proof (cases "\<lfloor>x\<rfloor> = \<lfloor>y\<rfloor>")
    case True
    then show ?thesis using le unfolding rne_def Let_def by auto
  next
    case False
    with fl have "\<lfloor>x\<rfloor> + 1 \<le> \<lfloor>y\<rfloor>" by simp
    moreover have "rne x \<le> \<lfloor>x\<rfloor> + 1" "\<lfloor>y\<rfloor> \<le> rne y"
      unfolding rne_def Let_def by auto
    ultimately show ?thesis by linarith
  qed
qed

text \<open>The exponent of the last place: 53 significant bits, but never below the subnormal unit.\<close>

definition ulpexp :: "real \<Rightarrow> int" where
  "ulpexp x = max (binexp \<bar>x\<bar> - 52) (- 1074)"

definition rnd :: "real \<Rightarrow> real" where
  "rnd x = (if x = 0 then 0
            else of_int (rne (x / 2 powi (ulpexp x))) * 2 powi (ulpexp x))"


text \<open>The scaled significand of a positive real stays below \<open>2 ^ 53\<close>.\<close>

lemma ulpexp_minus [simp]: "ulpexp (- x) = ulpexp x"
  by (simp add: ulpexp_def)

lemma ulpexp_mono: "0 < x \<Longrightarrow> x \<le> y \<Longrightarrow> ulpexp x \<le> ulpexp y"
  using binexp_mono [of x y] by (simp add: ulpexp_def)

lemma scaled_lt:
  assumes "0 < x"
  shows "x / 2 powi (ulpexp x) < 2 ^ 53"
proof -
  have "x < 2 powi (binexp x + 1)"
    using binexp_bounds [OF assms] by simp
  also have "\<dots> \<le> 2 powi (53 + ulpexp x)"
    unfolding pow2_le_iff using assms by (simp add: ulpexp_def)
  also have "\<dots> = 2 ^ 53 * 2 powi (ulpexp x)"
    by (simp add: power_int_add)
  finally show ?thesis by (simp add: divide_less_eq)
qed

lemma scaled_ge:
  assumes "0 < x" and "- 1074 < ulpexp x"
  shows "2 ^ 52 \<le> x / 2 powi (ulpexp x)"
proof -
  have "(2::real) ^ 52 * 2 powi (ulpexp x) = 2 powi (52 + ulpexp x)"
    by (simp add: power_int_add)
  also have "52 + ulpexp x = binexp x"
    using assms by (auto simp: ulpexp_def)
  finally show ?thesis
    using binexp_bounds [OF assms(1)] by (simp add: le_divide_eq)
qed

lemma rne_le_int: "y \<le> of_int k \<Longrightarrow> rne y \<le> k"
  by (metis rne_int rne_mono)

lemma rne_ge_int: "of_int k \<le> y \<Longrightarrow> k \<le> rne y"
  by (metis rne_int rne_mono)

lemma rnd_zero [simp]: "rnd 0 = 0"
  by (simp add: rnd_def)

lemma rnd_minus: "rnd (- x) = - rnd x"
  by (simp add: rnd_def rne_minus)

lemma rnd_mono_pos:
  assumes "0 < x" and "x \<le> y"
  shows "rnd x \<le> rnd y"
proof -
  let ?p = "ulpexp x" and ?q = "ulpexp y"
  have y: "0 < y" using assms by simp
  have le: "?p \<le> ?q" using assms by (rule ulpexp_mono)
  show ?thesis
  proof (cases "?p = ?q")
    case True
    have "rne (x / 2 powi ?p) \<le> rne (y / 2 powi ?p)"
      using assms by (intro rne_mono divide_right_mono) simp_all
    then show ?thesis
      using assms y True by (simp add: rnd_def mult_right_mono)
  next
    case False
    with le have lt: "?p + 1 \<le> ?q" by simp
    have "rne (x / 2 powi ?p) \<le> 2 ^ 53"
      using scaled_lt [OF assms(1)] by (intro rne_le_int) simp
    then have "rnd x \<le> of_int (2 ^ 53) * 2 powi ?p"
      using assms unfolding rnd_def by (simp del: of_int_power of_int_numeral)
    also have "\<dots> = 2 ^ 52 * 2 powi (?p + 1)"
      by (simp add: power_int_add)
    also have "\<dots> \<le> 2 ^ 52 * 2 powi ?q"
      using lt by (intro mult_left_mono) (simp_all only: pow2_le_iff, simp)
    also have "\<dots> \<le> rnd y"
    proof -
      have "- 1074 < ?q" using lt by (auto simp: ulpexp_def)
      then have "(2 ^ 52 :: int) \<le> rne (y / 2 powi ?q)"
        using scaled_ge [OF y] by (intro rne_ge_int) simp
      then have "of_int (2 ^ 52) * 2 powi ?q \<le> of_int (rne (y / 2 powi ?q)) * (2::real) powi ?q"
        by (intro mult_right_mono) (simp_all del: of_int_power of_int_numeral)
      then show ?thesis using y by (simp add: rnd_def)
    qed
    finally show ?thesis .
  qed
qed

lemma rnd_nonneg: "0 \<le> x \<Longrightarrow> 0 \<le> rnd x"
  using rne_ge_int [of 0 "x / 2 powi (ulpexp x)"] by (auto simp: rnd_def)

lemma rnd_mono: "x \<le> y \<Longrightarrow> rnd x \<le> rnd y"
proof -
  assume le: "x \<le> y"
  consider "0 < x" | "y < 0" | "x \<le> 0" "0 \<le> y" by linarith
  then show ?thesis
  proof cases
    assume "0 < x"
    then show ?thesis using le by (rule rnd_mono_pos)
  next
    assume "y < 0"
    then have "rnd (- y) \<le> rnd (- x)" using le by (intro rnd_mono_pos) simp_all
    then show ?thesis by (simp add: rnd_minus)
  next
    assume "x \<le> 0" "0 \<le> y"
    then have "0 \<le> rnd (- x)" "0 \<le> rnd y" by (simp_all add: rnd_nonneg)
    then show ?thesis by (simp add: rnd_minus)
  qed
qed

text \<open>
  The representable reals: a significand below \<open>2 ^ 53\<close> and an exponent not below the subnormal
  one. Rounding fixes exactly these.
\<close>

lemma rnd_representable_pos:
  assumes "0 < m" and "m < 2 ^ 53" and "- 1074 \<le> e"
  shows "rnd (of_int m * 2 powi e) = of_int m * 2 powi e"
proof -
  let ?x = "of_int m * (2::real) powi e"
  let ?q = "ulpexp ?x"
  have pos: "0 < ?x" using assms(1) by simp
  have "2 powi (binexp ?x) \<le> ?x" using binexp_bounds [OF pos] by simp
  also have "?x < 2 ^ 53 * 2 powi e"
    using assms(2) by simp
  also have "\<dots> = (2::real) powi (53 + e)" by (simp add: power_int_add)
  finally have "binexp ?x < 53 + e" by (simp only: pow2_less_iff)
  then have q: "?q \<le> e" using assms(3) pos by (simp add: ulpexp_def)
  have "?x / 2 powi ?q = of_int m * 2 powi (e - ?q)"
    by (simp add: power_int_diff)
  also have "\<dots> = of_int (m * 2 ^ nat (e - ?q))"
    using q by (simp add: power_int_def)
  finally have "rne (?x / 2 powi ?q) = m * 2 ^ nat (e - ?q)"
    by (simp only: rne_int)
  then have "rnd ?x = of_int (m * 2 ^ nat (e - ?q)) * 2 powi ?q"
    using pos unfolding rnd_def by simp
  also have "\<dots> = of_int m * (2 powi (e - ?q) * 2 powi ?q)"
    using q by (simp add: power_int_def)
  also have "(2::real) powi (e - ?q) * 2 powi ?q = 2 powi e"
    by (simp add: power_int_diff)
  finally show ?thesis .
qed

definition repr :: "real \<Rightarrow> bool" where
  "repr x \<longleftrightarrow> rnd x = x"

lemma repr_scaled:
  assumes "\<bar>m\<bar> < 2 ^ 53" and "- 1074 \<le> e"
  shows "repr (of_int m * 2 powi e)"
proof -
  consider "m = 0" | "0 < m" | "0 < - m" by linarith
  then show ?thesis
  proof cases
    assume "0 < m"
    with assms show ?thesis by (simp add: repr_def rnd_representable_pos)
  next
    assume "0 < - m"
    with assms have "rnd (of_int (- m) * 2 powi e) = of_int (- m) * 2 powi e"
      by (intro rnd_representable_pos) simp_all
    then show ?thesis by (simp add: repr_def rnd_minus)
  qed (simp add: repr_def)
qed

lemma repr_int: "\<bar>k\<bar> < 2 ^ 53 \<Longrightarrow> repr (of_int k)"
  using repr_scaled [of k 0] by simp

lemma repr_rnd [simp]: "repr (rnd x)"
proof -
  have pos: "repr (rnd y)" if y: "0 < y" for y
  proof -
    let ?k = "rne (y / 2 powi (ulpexp y))"
    have le: "0 \<le> ?k" "?k \<le> 2 ^ 53"
      using scaled_lt [OF y] y by (auto intro!: rne_le_int rne_ge_int)
    have e: "- 1074 \<le> ulpexp y" by (simp add: ulpexp_def)
    show ?thesis
    proof (cases "?k = 2 ^ 53")
      case True
      then have "rnd y = of_int 1 * 2 powi (53 + ulpexp y)"
        using y by (simp add: rnd_def power_int_add)
      also have "repr \<dots>" using e by (intro repr_scaled) simp_all
      finally show ?thesis .
    next
      case False
      then have "repr (of_int ?k * 2 powi (ulpexp y))"
        using le e by (intro repr_scaled) simp_all
      then show ?thesis using y by (simp add: rnd_def)
    qed
  qed
  consider "x = 0" | "0 < x" | "0 < - x" by linarith
  then show ?thesis
  proof cases
    assume "0 < - x"
    from pos [OF this] show ?thesis by (simp add: repr_def rnd_minus)
  next
    assume "0 < x"
    then show ?thesis by (rule pos)
  qed (simp add: repr_def)
qed

lemma rnd_rnd [simp]: "rnd (rnd x) = rnd x"
  using repr_rnd by (simp add: repr_def)

section \<open>What the proofs use of a rounding function\<close>

locale rounding =
  fixes R :: "real \<Rightarrow> real"
  assumes R_mono: "x \<le> y \<Longrightarrow> R x \<le> R y"
    and R_zero: "R 0 = 0"
    and R_minus: "R (- x) = - R x"
    and R_idem: "R (R x) = R x"
begin

lemma R_nonneg: "0 \<le> x \<Longrightarrow> 0 \<le> R x"
  using R_mono [of 0 x] by (simp add: R_zero)

lemma R_nonpos: "x \<le> 0 \<Longrightarrow> R x \<le> 0"
  using R_mono [of x 0] by (simp add: R_zero)

lemma R_lower: "R a = a \<Longrightarrow> a \<le> x \<Longrightarrow> a \<le> R x"
  using R_mono [of a x] by simp

lemma R_upper: "R a = a \<Longrightarrow> x \<le> a \<Longrightarrow> R x \<le> a"
  using R_mono [of x a] by simp

lemma R_abs: "R \<bar>x\<bar> = \<bar>R x\<bar>"
  using R_nonneg [of x] R_nonpos [of x] R_minus [of x] by (cases "0 \<le> x") simp_all

lemma R_abs_upper: "R a = a \<Longrightarrow> \<bar>x\<bar> \<le> a \<Longrightarrow> \<bar>R x\<bar> \<le> a"
  using R_upper [of a "\<bar>x\<bar>"] by (simp add: R_abs)

text \<open>A comparison of a rounded value with a fixed point decides the exact comparison.\<close>

lemma R_less_exact: "R a = a \<Longrightarrow> R x < a \<Longrightarrow> x < a"
  using R_mono [of a x] by linarith

lemma R_greater_exact: "R a = a \<Longrightarrow> a < R x \<Longrightarrow> a < x"
  using R_mono [of x a] by linarith

end

interpretation b64: rounding rnd
  by unfold_locales (simp_all add: rnd_mono rnd_minus)

end
