(* ===== verification/Doubles.thy ===== *)
theory Doubles
  imports Binary64
begin

text \<open>
  The values of the C type double and the operations the program applies to them: the arithmetic
  operators, the comparisons (false on not-a-number), fabs(), the conversions from integers, and
  the conversions to integers, which truncate and which C leaves undefined outside the range of
  the target type. The operators are instances of the library's syntactic type classes, so the
  model reads like the source.
\<close>

section \<open>Values and arithmetic\<close>

datatype dbl = Fin real | PInf | NInf | NaN

definition ovf :: real where
  "ovf = 2 ^ 1024"

lemma ovf_gt: "2 ^ 1000 < ovf"
  unfolding ovf_def by (rule power_strict_increasing) simp_all

lemma ovf_pos [simp]: "0 < ovf"
  by (simp add: ovf_def)

lemma repr_ovf: "rnd ovf = ovf"
proof -
  have "repr (of_int 1 * 2 powi 1024)" by (rule repr_scaled) simp_all
  then show ?thesis by (simp add: repr_def ovf_def power_int_def)
qed

text \<open>The double nearest to a real; a literal of the source is \<open>flt\<close> of its value.\<close>

definition flt :: "real \<Rightarrow> dbl" where
  "flt x = (let r = rnd x in
            if ovf \<le> r then PInf else if r \<le> - ovf then NInf else Fin r)"

fun dneg :: "dbl \<Rightarrow> dbl" where
  "dneg (Fin a) = Fin (- a)"
| "dneg PInf = NInf"
| "dneg NInf = PInf"
| "dneg NaN = NaN"

fun dadd :: "dbl \<Rightarrow> dbl \<Rightarrow> dbl" where
  "dadd (Fin a) (Fin b) = flt (a + b)"
| "dadd NaN y = NaN"
| "dadd x NaN = NaN"
| "dadd PInf NInf = NaN"
| "dadd NInf PInf = NaN"
| "dadd PInf y = PInf"
| "dadd NInf y = NInf"
| "dadd x PInf = PInf"
| "dadd x NInf = NInf"

text \<open>The infinity with the sign of a real, not-a-number for zero: zero times infinity.\<close>

definition inf_sgn :: "real \<Rightarrow> dbl" where
  "inf_sgn a = (if a = 0 then NaN else if 0 < a then PInf else NInf)"

fun dmul :: "dbl \<Rightarrow> dbl \<Rightarrow> dbl" where
  "dmul (Fin a) (Fin b) = flt (a * b)"
| "dmul NaN y = NaN"
| "dmul x NaN = NaN"
| "dmul (Fin a) PInf = inf_sgn a"
| "dmul (Fin a) NInf = inf_sgn (- a)"
| "dmul PInf (Fin b) = inf_sgn b"
| "dmul NInf (Fin b) = inf_sgn (- b)"
| "dmul PInf y = y"
| "dmul NInf y = dneg y"

fun ddiv :: "dbl \<Rightarrow> dbl \<Rightarrow> dbl" where
  "ddiv (Fin a) (Fin b) = (if b = 0 then inf_sgn a else flt (a / b))"
| "ddiv NaN y = NaN"
| "ddiv x NaN = NaN"
| "ddiv (Fin a) y = Fin 0"
| "ddiv PInf (Fin b) = (if 0 \<le> b then PInf else NInf)"
| "ddiv NInf (Fin b) = (if 0 \<le> b then NInf else PInf)"
| "ddiv x y = NaN"

fun dless :: "dbl \<Rightarrow> dbl \<Rightarrow> bool" where
  "dless (Fin a) (Fin b) = (a < b)"
| "dless NaN y = False"
| "dless x NaN = False"
| "dless PInf y = False"
| "dless x NInf = False"
| "dless NInf y = True"
| "dless x PInf = True"

fun dle :: "dbl \<Rightarrow> dbl \<Rightarrow> bool" where
  "dle (Fin a) (Fin b) = (a \<le> b)"
| "dle NaN y = False"
| "dle x NaN = False"
| "dle NInf y = True"
| "dle x PInf = True"
| "dle x y = False"

text \<open>C's fabs().\<close>

fun fabs :: "dbl \<Rightarrow> dbl" where
  "fabs (Fin a) = Fin \<bar>a\<bar>"
| "fabs PInf = PInf"
| "fabs NInf = PInf"
| "fabs NaN = NaN"

instantiation dbl :: "{zero, plus, minus, times, uminus, inverse, ord}"
begin

definition zero_dbl :: dbl where "0 = Fin 0"

definition plus_dbl :: "dbl \<Rightarrow> dbl \<Rightarrow> dbl" where "x + y = dadd x y"

definition uminus_dbl :: "dbl \<Rightarrow> dbl" where "- x = dneg x"

definition minus_dbl :: "dbl \<Rightarrow> dbl \<Rightarrow> dbl" where "x - y = dadd x (dneg y)"

definition times_dbl :: "dbl \<Rightarrow> dbl \<Rightarrow> dbl" where "x * y = dmul x y"

definition divide_dbl :: "dbl \<Rightarrow> dbl \<Rightarrow> dbl" where "x div y = ddiv x y"

definition inverse_dbl :: "dbl \<Rightarrow> dbl" where "inverse x = ddiv (flt 1) x"

definition less_dbl :: "dbl \<Rightarrow> dbl \<Rightarrow> bool" where "x < y = dless x y"

definition less_eq_dbl :: "dbl \<Rightarrow> dbl \<Rightarrow> bool" where "x \<le> y = dle x y"

instance ..

end

lemmas dbl_defs = zero_dbl_def plus_dbl_def uminus_dbl_def minus_dbl_def times_dbl_def
  divide_dbl_def less_dbl_def less_eq_dbl_def

lemma dbl_fin_ops [simp]:
  "Fin a + Fin b = flt (a + b)" "Fin a - Fin b = flt (a - b)" "Fin a * Fin b = flt (a * b)"
  "- Fin a = Fin (- a)" "Fin a < Fin b \<longleftrightarrow> a < b" "Fin a \<le> Fin b \<longleftrightarrow> a \<le> b"
  "b \<noteq> 0 \<Longrightarrow> Fin a / Fin b = flt (a / b)"
  by (simp_all add: dbl_defs)

lemma dbl_nan_cmp [simp]: "\<not> NaN < y" "\<not> x < NaN" "\<not> NaN \<le> y" "\<not> x \<le> NaN"
  by (cases x; cases y; simp add: dbl_defs)+

lemma dbl_less_imp_le: "x < y \<Longrightarrow> x \<le> (y :: dbl)"
  by (cases x; cases y; simp add: dbl_defs)

lemma dbl_le_trans: "x \<le> y \<Longrightarrow> y \<le> z \<Longrightarrow> x \<le> (z :: dbl)"
  by (cases x; cases y; cases z; simp add: dbl_defs)

lemma dbl_less_le_trans: "x < y \<Longrightarrow> y \<le> z \<Longrightarrow> x < (z :: dbl)"
  by (cases x; cases y; cases z; simp add: dbl_defs)

lemma dbl_le_less_trans: "x \<le> y \<Longrightarrow> y < z \<Longrightarrow> x < (z :: dbl)"
  by (cases x; cases y; cases z; simp add: dbl_defs)

lemma dbl_not_less: "x \<noteq> NaN \<Longrightarrow> y \<noteq> NaN \<Longrightarrow> \<not> x < y \<longleftrightarrow> y \<le> (x :: dbl)"
  by (cases x; cases y; simp add: dbl_defs not_less)

lemma dbl_le_refl [simp]: "x \<le> x \<longleftrightarrow> x \<noteq> (NaN :: dbl)"
  by (cases x; simp add: dbl_defs)

lemma dbl_less_irrefl [simp]: "\<not> x < (x :: dbl)"
  by (cases x; simp add: dbl_defs)

lemma dbl_less_not_sym: "x < y \<Longrightarrow> \<not> y < (x :: dbl)"
  by (cases x; cases y; simp add: dbl_defs)

section \<open>Literals and representable values\<close>

lemma flt_Fin: "rnd x = x \<Longrightarrow> \<bar>x\<bar> < ovf \<Longrightarrow> flt x = Fin x"
  by (auto simp: flt_def Let_def abs_less_iff not_le)

lemma flt_not_NaN [simp]: "flt x \<noteq> NaN"
  by (simp add: flt_def Let_def)

lemma small_lt_ovf: "\<bar>x\<bar> \<le> 2 ^ 100 \<Longrightarrow> \<bar>x\<bar> < ovf"
proof -
  have "(2::real) ^ 100 < 2 ^ 1000" by (rule power_strict_increasing) simp_all
  then show "\<bar>x\<bar> \<le> 2 ^ 100 \<Longrightarrow> \<bar>x\<bar> < ovf" using ovf_gt by linarith
qed

lemma flt_int: "\<bar>k\<bar> < 2 ^ 53 \<Longrightarrow> flt (of_int k) = Fin (of_int k)"
proof -
  assume k: "\<bar>k\<bar> < 2 ^ 53"
  then have "\<bar>of_int k :: real\<bar> < 2 ^ 53"
    by (metis of_int_abs of_int_less_iff of_int_numeral of_int_power)
  then have "\<bar>of_int k :: real\<bar> < ovf"
    by (intro small_lt_ovf) simp
  then show ?thesis
    using repr_int [OF k] by (simp add: flt_Fin repr_def)
qed

lemma flt_numeral [simp]: "(numeral n :: int) < 2 ^ 53 \<Longrightarrow> flt (numeral n) = Fin (numeral n)"
  using flt_int [of "numeral n"] by simp

lemma flt_0 [simp]: "flt 0 = Fin 0" and flt_1 [simp]: "flt 1 = Fin 1"
  using flt_int [of 0] flt_int [of 1] by simp_all

lemma flt_minus: "flt (- x) = - flt x"
  using ovf_pos by (auto simp: flt_def Let_def rnd_minus uminus_dbl_def simp del: ovf_pos)

lemma flt_mono: "x \<le> y \<Longrightarrow> flt x \<le> flt y"
  using rnd_mono [of x y] by (auto simp: flt_def Let_def less_eq_dbl_def)

lemma flt_nonneg: "0 \<le> x \<Longrightarrow> 0 \<le> flt x"
  using flt_mono [of 0 x] by (simp add: zero_dbl_def)

text \<open>Dyadic literals are exact.\<close>

lemma flt_dyadic:
  assumes "\<bar>m\<bar> < 2 ^ 53" and "- 1074 \<le> e" and "e \<le> 40"
  shows "flt (of_int m * 2 powi e) = Fin (of_int m * 2 powi e)"
proof (rule flt_Fin)
  show "rnd (of_int m * 2 powi e) = of_int m * 2 powi e"
    using repr_scaled [OF assms(1,2)] by (simp add: repr_def)
  have "\<bar>of_int m :: real\<bar> \<le> 2 ^ 53"
    using assms(1) by (metis less_le_not_le of_int_abs of_int_le_numeral_power_cancel_iff)
  moreover have "(2::real) powi e \<le> 2 powi 40"
    using assms(3) by (simp only: pow2_le_iff)
  ultimately have "\<bar>of_int m * (2::real) powi e\<bar> \<le> 2 ^ 53 * 2 powi 40"
    unfolding abs_mult by (intro mult_mono) simp_all
  then show "\<bar>of_int m * (2::real) powi e\<bar> < ovf"
    by (intro small_lt_ovf) simp
qed

text \<open>Every result of an operation is a binary64 value.\<close>

fun wfd :: "dbl \<Rightarrow> bool" where
  "wfd (Fin r) = (repr r \<and> \<bar>r\<bar> < ovf)"
| "wfd x = True"

lemma wfd_flt [simp]: "wfd (flt x)"
  by (auto simp: flt_def Let_def abs_less_iff not_le)

lemma wfd_zero [simp]: "wfd 0"
  by (simp add: zero_dbl_def repr_def)

lemma repr_minus: "repr (- x) \<longleftrightarrow> repr x"
  by (simp add: repr_def rnd_minus)

lemma wfd_uminus [simp]: "wfd x \<Longrightarrow> wfd (- x)"
  by (cases x) (auto simp: uminus_dbl_def repr_minus)

lemma wfd_add [simp]: "wfd (x + y)"
  by (cases x; cases y; simp add: plus_dbl_def)

lemma wfd_diff [simp]: "wfd (x - (y :: dbl))"
  by (cases x; cases y; simp add: minus_dbl_def)

lemma wfd_mult [simp]: "wfd (x * (y :: dbl))"
  by (cases x; cases y; simp add: times_dbl_def inf_sgn_def)

lemma wfd_divide [simp]: "wfd (x / (y :: dbl))"
  by (cases x; cases y; simp add: divide_dbl_def inf_sgn_def repr_def)

lemma wfd_fabs [simp]: "wfd x \<Longrightarrow> wfd (fabs x)"
  by (cases x) (auto simp: repr_minus abs_if)

lemma wfd_cmax: "wfd x \<Longrightarrow> wfd y \<Longrightarrow> wfd (cmax x y)"
  by (simp add: cmax_def)

lemma wfd_cmin: "wfd x \<Longrightarrow> wfd y \<Longrightarrow> wfd (cmin x y)"
  by (simp add: cmin_def)

section \<open>Lower bounds through sums\<close>

lemma dbl_nonneg_cases:
  assumes "(0::dbl) \<le> x"
  obtains r where "x = Fin r" "0 \<le> r" | "x = PInf"
  using assms by (cases x) (auto simp: zero_dbl_def less_eq_dbl_def)

lemma flt_ge: "repr a \<Longrightarrow> \<bar>a\<bar> < ovf \<Longrightarrow> a \<le> x \<Longrightarrow> Fin a \<le> flt x"
  using flt_mono [of a x] flt_Fin [of a] by (simp add: repr_def)

text \<open>Adding a nonnegative value keeps a representable lower bound.\<close>

lemma dadd_ge:
  assumes a: "wfd (Fin a)" and x: "Fin a \<le> x" and y: "0 \<le> y"
  shows "Fin a \<le> x + y"
proof -
  have inf: "Fin a \<le> PInf" by (simp add: less_eq_dbl_def)
  from x consider r where "x = Fin r" "a \<le> r" | "x = PInf"
    by (cases x) (auto simp: less_eq_dbl_def)
  then show ?thesis
    using y a inf
    by cases (auto elim!: dbl_nonneg_cases intro!: flt_ge simp: plus_dbl_def)
qed

lemma dadd_nonneg: "0 \<le> x \<Longrightarrow> 0 \<le> y \<Longrightarrow> 0 \<le> x + (y :: dbl)"
  using dadd_ge [of 0 x y] by (simp add: zero_dbl_def repr_def)

lemma dmul_nonneg_fin:
  "0 \<le> a \<Longrightarrow> 0 \<le> b \<Longrightarrow> 0 \<le> Fin a * Fin b"
  by (simp add: flt_nonneg)

lemma fabs_nonneg: "x \<noteq> NaN \<Longrightarrow> 0 \<le> fabs x"
  by (cases x) (auto simp: zero_dbl_def less_eq_dbl_def)

lemma cmax_ge_left: "a \<noteq> NaN \<Longrightarrow> a \<le> cmax a (b :: dbl)"
  by (auto simp: cmax_def dbl_less_imp_le)

lemma cmax_ge_right: "b \<noteq> NaN \<Longrightarrow> a \<noteq> NaN \<Longrightarrow> b \<le> cmax a (b :: dbl)"
  by (auto simp: cmax_def dbl_not_less)

text \<open>The clamp max(min(hi, x), lo) is between its bounds unless x is not-a-number.\<close>

lemma clamp_bounds:
  assumes "lo \<le> hi" and "x \<noteq> NaN"
  shows "lo \<le> cmax (cmin hi x) (lo :: dbl) \<and> cmax (cmin hi x) lo \<le> hi"
proof -
  have "lo \<noteq> NaN" "hi \<noteq> NaN" using assms(1) by auto
  then show ?thesis
    using assms by (auto simp: cmax_def cmin_def dbl_not_less dbl_less_imp_le)
qed

section \<open>Conversions\<close>

definition dbl_of_int :: "int \<Rightarrow> dbl" where
  "dbl_of_int k = flt (of_int k)"

definition rtrunc :: "real \<Rightarrow> int" where
  "rtrunc x = (if 0 \<le> x then \<lfloor>x\<rfloor> else - \<lfloor>- x\<rfloor>)"

text \<open>
  Conversion of a double to an integer type with values \<open>lo\<close> up to \<open>hi\<close>: the truncated value when
  it is in range, and otherwise what the platform's conversion routine \<open>other\<close> returns, which C
  does not define.
\<close>

definition dbl_to_int :: "int \<Rightarrow> int \<Rightarrow> (dbl \<Rightarrow> int) \<Rightarrow> dbl \<Rightarrow> int" where
  "dbl_to_int lo hi other x =
     (case x of
        Fin r \<Rightarrow> (if lo \<le> rtrunc r \<and> rtrunc r \<le> hi then rtrunc r else other x)
      | _ \<Rightarrow> other x)"

lemma rtrunc_int [simp]: "rtrunc (of_int k) = k"
  by (simp add: rtrunc_def)

lemma dbl_to_int_Fin:
  "lo \<le> rtrunc r \<Longrightarrow> rtrunc r \<le> hi \<Longrightarrow> dbl_to_int lo hi other (Fin r) = rtrunc r"
  by (simp add: dbl_to_int_def)

lemma dbl_of_int_exact: "\<bar>k\<bar> < 2 ^ 53 \<Longrightarrow> dbl_of_int k = Fin (of_int k)"
  by (simp add: dbl_of_int_def flt_int)

lemma dbl_of_int_mono: "j \<le> k \<Longrightarrow> dbl_of_int j \<le> dbl_of_int k"
  by (simp add: dbl_of_int_def flt_mono)

lemma dbl_of_int_not_NaN [simp]: "dbl_of_int k \<noteq> NaN"
  by (simp add: dbl_of_int_def)

lemma wfd_dbl_of_int [simp]: "wfd (dbl_of_int k)"
  by (simp add: dbl_of_int_def)

end
