(* ===== verification/TDMG_Types.thy ===== *)
theory TDMG_Types
  imports Doubles
begin

text \<open>
  The types, structures, macros and constants of src/src/NTP_TDMG.h, the packet layout of
  src/src/NTP_main_utility.h and the parameters of the process headers. Every C integer keeps its
  width: uint64_t, uint32_t and char are words (char is unsigned on the ARM target), int is
  reduced by \<open>i32\<close> where it is computed. A struct is a record whose fields carry the letter of
  the struct (\<open>p_leap\<close> is \<open>p->leap\<close> of struct ntp_p). A pointer to an association is \<open>NULL\<close> or
  an address.
\<close>

type_synonym u8 = "8 word"
type_synonym u32 = "32 word"
type_synonym tstamp = "64 word"
type_synonym tdist = "32 word"
type_synonym digest = "32 word"

datatype ptr = NULL | Addr nat

named_theorems ntp_consts \<open>the floating-point constants of the headers\<close>

section \<open>Constants\<close>

abbreviation (input) PRECISION :: int where "PRECISION \<equiv> - 18"
abbreviation (input) IPADDR :: u32 where "IPADDR \<equiv> 0"
abbreviation (input) MODE :: int where "MODE \<equiv> 3"
abbreviation (input) KEYID :: int where "KEYID \<equiv> 0"
abbreviation (input) VERSION :: int where "VERSION \<equiv> 4"
abbreviation (input) MAXDISP :: int where "MAXDISP \<equiv> 16"
abbreviation (input) MAXDIST :: int where "MAXDIST \<equiv> 5"
abbreviation (input) NOSYNC :: int where "NOSYNC \<equiv> 3"
abbreviation (input) MAXSTRAT :: int where "MAXSTRAT \<equiv> 16"
abbreviation (input) MINPOLL :: int where "MINPOLL \<equiv> 6"
abbreviation (input) MAXPOLL :: int where "MAXPOLL \<equiv> 17"
abbreviation (input) MINCLOCK :: int where "MINCLOCK \<equiv> 3"
abbreviation (input) TTLMAX :: int where "TTLMAX \<equiv> 8"
abbreviation (input) BEACON :: int where "BEACON \<equiv> 15"
abbreviation (input) DSTADDR :: u32 where "DSTADDR \<equiv> 50337196"
abbreviation (input) NSTAGE :: nat where "NSTAGE \<equiv> 8"
abbreviation (input) NMAX :: nat where "NMAX \<equiv> 5"
abbreviation (input) NSANE :: int where "NSANE \<equiv> 1"
abbreviation (input) NMIN :: int where "NMIN \<equiv> 3"

definition MINDISP :: dbl where [ntp_consts]: "MINDISP = flt (1 / 100)"
definition MAXDISPAlg :: dbl where [ntp_consts]: "MAXDISPAlg = flt (1 / 2)"
definition PHI :: dbl where [ntp_consts]: "PHI = flt (15 / 1000000)"

text \<open>Return codes of the local clock process.\<close>

datatype clock_code = IGNORE | SLEW | STEP | PANIC

text \<open>System and peer flags, as bits of an int.\<close>

abbreviation (input) S_BCSTENAB :: int where "S_BCSTENAB \<equiv> 1"
abbreviation (input) P_FLAGS :: int where "P_FLAGS \<equiv> 0"
abbreviation (input) P_EPHEM :: int where "P_EPHEM \<equiv> 1"
abbreviation (input) P_BURST :: int where "P_BURST \<equiv> 2"
abbreviation (input) P_IBURST :: int where "P_IBURST \<equiv> 4"
abbreviation (input) P_NOTRUST :: int where "P_NOTRUST \<equiv> 8"
abbreviation (input) P_NOPEER :: int where "P_NOPEER \<equiv> 16"
abbreviation (input) P_MANY :: int where "P_MANY \<equiv> 32"

text \<open>Authentication codes.\<close>

datatype auth_code = A_NONE | A_OK | A_ERROR | A_CRYPTO

text \<open>Association state codes (kiss codes); they are stored in the 32-bit refid.\<close>

abbreviation (input) X_INIT :: int where "X_INIT \<equiv> 0"
abbreviation (input) X_STEP :: int where "X_STEP \<equiv> 2"
abbreviation (input) X_ERROR :: int where "X_ERROR \<equiv> 3"
abbreviation (input) X_CRYPTO :: int where "X_CRYPTO \<equiv> 4"

text \<open>Protocol modes.\<close>

abbreviation (input) M_SACT :: int where "M_SACT \<equiv> 1"
abbreviation (input) M_PASV :: int where "M_PASV \<equiv> 2"
abbreviation (input) M_CLNT :: int where "M_CLNT \<equiv> 3"
abbreviation (input) M_SERV :: int where "M_SERV \<equiv> 4"
abbreviation (input) M_BCST :: int where "M_BCST \<equiv> 5"
abbreviation (input) M_BCLN :: int where "M_BCLN \<equiv> 6"

text \<open>Clock states.\<close>

abbreviation (input) NSET :: int where "NSET \<equiv> 0"
abbreviation (input) FSET :: int where "FSET \<equiv> 1"
abbreviation (input) SPIK :: int where "SPIK \<equiv> 2"
abbreviation (input) FREQ :: int where "FREQ \<equiv> 3"
abbreviation (input) SYNC :: int where "SYNC \<equiv> 4"

text \<open>The peer process, poll process and clock discipline parameters.\<close>

definition SGATE :: dbl where [ntp_consts]: "SGATE = dbl_of_int 3"
definition BDELAY :: dbl where [ntp_consts]: "BDELAY = flt (4 / 1000)"
abbreviation (input) UNREACH :: int where "UNREACH \<equiv> 12"
abbreviation (input) BCOUNT :: int where "BCOUNT \<equiv> 8"
abbreviation (input) BTIME :: int where "BTIME \<equiv> 2"
definition STEPT :: dbl where [ntp_consts]: "STEPT = flt (128 / 1000)"
abbreviation (input) WATCH :: int where "WATCH \<equiv> 900"
abbreviation (input) PANICT :: int where "PANICT \<equiv> 1000"
abbreviation (input) PLL :: int where "PLL \<equiv> 65536"
abbreviation (input) AVG :: int where "AVG \<equiv> 4"
abbreviation (input) ALLAN :: int where "ALLAN \<equiv> 1500"
abbreviation (input) LIMIT :: int where "LIMIT \<equiv> 30"
definition MAXFREQ :: dbl where [ntp_consts]: "MAXFREQ = flt (500 / 1000000)"
abbreviation (input) PGATE :: int where "PGATE \<equiv> 4"

text \<open>Dispatch codes.\<close>

datatype dispatch = ERR | DSCRD | PROC | FXMIT | MANY | NEWPS | NEWBC

section \<open>Structures\<close>

text \<open>Receive packet.\<close>

record ntp_r =
  r_srcaddr :: u32
  r_dstaddr :: u32
  r_version :: u8
  r_leap :: u8
  r_mode :: u8
  r_stratum :: u8
  r_poll :: u8
  r_precision :: u8
  r_rootdelay :: tdist
  r_rootdisp :: tdist
  r_refid :: tdist
  r_reftime :: tstamp
  r_org :: tstamp
  r_rec :: tstamp
  r_xmt :: tstamp
  r_keyid :: int
  r_mac :: digest
  r_dst :: tstamp

text \<open>Transmit packet.\<close>

record ntp_x =
  x_srcaddr :: u32
  x_dstaddr :: u32
  x_version :: u8
  x_leap :: u8
  x_mode :: u8
  x_stratum :: u8
  x_poll :: u8
  x_precision :: u8
  x_rootdelay :: tdist
  x_rootdisp :: tdist
  x_refid :: tdist
  x_reftime :: tstamp
  x_org :: tstamp
  x_rec :: tstamp
  x_xmt :: tstamp
  x_keyid :: int
  x_dgst :: digest

text \<open>Filter stage.\<close>

record ntp_f =
  f_t :: tstamp
  f_offset :: dbl
  f_delay :: dbl
  f_disp :: dbl

text \<open>Association. The filter is the list of its NSTAGE stages.\<close>

record ntp_p =
  p_srcaddr :: u32
  p_dstaddr :: u32
  p_version :: u8
  p_hmode :: u8
  p_keyid :: int
  p_flags :: int
  p_leap :: u8
  p_pmode :: u8
  p_stratum :: u8
  p_ppoll :: u8
  p_rootdelay :: dbl
  p_rootdisp :: dbl
  p_refid :: tdist
  p_reftime :: tstamp
  p_org :: tstamp
  p_rec :: tstamp
  p_xmt :: tstamp
  p_t :: tstamp
  p_f :: "ntp_f list"
  p_offset :: dbl
  p_delay :: dbl
  p_disp :: dbl
  p_jitter :: dbl
  p_hpoll :: u8
  p_burst :: int
  p_reach :: int
  p_ttl :: int
  p_unreach :: int
  p_outdate :: int
  p_nextdate :: int

text \<open>Chime list entry and survivor list entry.\<close>

record ntp_m =
  m_p :: ptr
  m_type :: int
  m_edge :: dbl

record ntp_v =
  v_p :: ptr
  v_metric :: dbl

text \<open>System structure. The chime and survivor lists have NMAX * 5 entries.\<close>

record ntp_s =
  s_t :: tstamp
  s_leap :: u8
  s_stratum :: u8
  s_poll :: u8
  s_precision :: u8
  s_rootdelay :: dbl
  s_rootdisp :: dbl
  s_refid :: tdist
  s_reftime :: tstamp
  s_m :: "ntp_m list"
  s_v :: "ntp_v list"
  s_p :: ptr
  s_offset :: dbl
  s_jitter :: dbl
  s_flags :: int
  s_n :: int

text \<open>Local clock structure.\<close>

record ntp_c =
  c_localTime :: tstamp
  c_t :: tstamp
  c_state :: int
  c_offset :: dbl
  c_last :: dbl
  c_count :: int
  c_freq :: dbl
  c_jitter :: dbl
  c_wander :: dbl
  c_lastTimeStampTick :: u32

text \<open>The packet on the wire (src/src/NTP_main_utility.h).\<close>

record ntp_packet =
  li_vn_mode :: u8
  k_stratum :: u8
  k_poll :: u8
  k_precision :: u8
  rootDelay :: u32
  rootDispersion :: u32
  refId :: u32
  refTm_s :: u32
  refTm_f :: u32
  origTm_s :: u32
  origTm_f :: u32
  rxTm_s :: u32
  rxTm_f :: u32
  txTm_s :: u32
  txTm_f :: u32

section \<open>Conversion macros\<close>

text \<open>
  Each macro takes, where C leaves a case undefined, the function that says what the target does
  there: the conversion of an out-of-range double, the shift of 1L by more than 31 places (long
  has 32 bits on the target).
\<close>

abbreviation (input) FRIC :: dbl where "FRIC \<equiv> flt 65536"
abbreviation (input) FRAC :: dbl where "FRAC \<equiv> flt 4294967296"

definition dbl_to_u32 :: "(dbl \<Rightarrow> int) \<Rightarrow> dbl \<Rightarrow> u32" where
  "dbl_to_u32 other x = word_of_int (dbl_to_int 0 4294967295 other x)"

definition dbl_to_u64 :: "(dbl \<Rightarrow> int) \<Rightarrow> dbl \<Rightarrow> tstamp" where
  "dbl_to_u64 other x = word_of_int (dbl_to_int 0 18446744073709551615 other x)"

definition dbl_to_i32 :: "(dbl \<Rightarrow> int) \<Rightarrow> dbl \<Rightarrow> int" where
  "dbl_to_i32 other x = i32 (dbl_to_int (- 2147483648) 2147483647 other x)"

definition D2FP :: "(dbl \<Rightarrow> int) \<Rightarrow> dbl \<Rightarrow> tdist" where
  "D2FP other r = dbl_to_u32 other (r * FRIC)"

definition FP2D :: "tdist \<Rightarrow> dbl" where
  "FP2D r = dbl_of_int (uint r) / FRIC"

definition D2LFP :: "(dbl \<Rightarrow> int) \<Rightarrow> dbl \<Rightarrow> tstamp" where
  "D2LFP other a = dbl_to_u64 other (a * FRAC)"

definition LFP2D :: "dbl \<Rightarrow> dbl" where
  "LFP2D a = a / FRAC"

definition shl_1L :: "(int \<Rightarrow> int) \<Rightarrow> int \<Rightarrow> int" where
  "shl_1L other n = (if 0 \<le> n \<and> n < 32 then i32 (2 ^ nat n) else other n)"

definition LOG2D :: "(int \<Rightarrow> int) \<Rightarrow> int \<Rightarrow> dbl" where
  "LOG2D other a =
     (if a < 0 then flt 1 / dbl_of_int (shl_1L other (- a)) else dbl_of_int (shl_1L other a))"

text \<open>
  SQUARE(x) is the unparenthesised (x * x), so only an argument that is a name or a call is
  squared; a call with a difference is written out where it occurs.
\<close>

definition SQUARE :: "dbl \<Rightarrow> dbl" where
  "SQUARE x = x * x"

section \<open>Facts about the macros\<close>

lemma pow2_neg: "0 \<le> n \<Longrightarrow> (2::real) powi (- n) = 1 / 2 ^ nat n"
  by (cases "n = 0") (simp_all add: power_int_def power_one_over inverse_eq_divide)

lemma LOG2D_nonneg_exp:
  assumes "0 \<le> a" and "a < 31"
  shows "LOG2D other a = Fin (2 ^ nat a)"
proof -
  have "(2::int) ^ nat a \<le> 2 ^ 30"
    using assms by (intro power_increasing) simp_all
  then have lt: "(2::int) ^ nat a < 2147483648" by simp
  have ge: "(0::int) \<le> 2 ^ nat a" by simp
  with lt have "i32 (2 ^ nat a) = 2 ^ nat a"
    by (intro i32_id) linarith+
  then have "LOG2D other a = dbl_of_int (2 ^ nat a)"
    using assms by (simp add: LOG2D_def shl_1L_def)
  moreover have "(2147483648::int) < 2 ^ 53" by simp
  with lt ge have "\<bar>(2::int) ^ nat a\<bar> < 2 ^ 53" by linarith
  ultimately show ?thesis by (simp add: dbl_of_int_exact)
qed

lemma LOG2D_neg_exp:
  assumes "0 < a" and "a < 31"
  shows "LOG2D other (- a) = Fin (1 / 2 ^ nat a)"
proof -
  have "dbl_of_int (shl_1L other a) = LOG2D other a"
    using assms by (simp add: LOG2D_def)
  then have "LOG2D other (- a) = Fin 1 / Fin (2 ^ nat a)"
    using assms LOG2D_nonneg_exp [of a other] by (simp add: LOG2D_def)
  also have "\<dots> = flt (of_int 1 * 2 powi (- a))"
    using assms by (simp add: pow2_neg)
  also have "\<dots> = Fin (of_int 1 * 2 powi (- a))"
    using assms by (intro flt_dyadic) simp_all
  finally show ?thesis
    using assms by (simp add: pow2_neg)
qed

lemma LOG2D_poll_range:
  assumes "MINPOLL \<le> a" and "a \<le> MAXPOLL"
  shows "LOG2D other a = Fin (2 ^ nat a)"
  using assms by (intro LOG2D_nonneg_exp) simp_all

lemma LOG2D_m18 [simp]: "LOG2D other (- 18) = Fin (1 / 262144)"
  using LOG2D_neg_exp [of 18 other] by simp

lemma MINDISP_pos: "Fin (1 / 128) \<le> MINDISP"
proof -
  have "flt (of_int 1 * 2 powi (- 7)) = Fin (of_int 1 * 2 powi (- 7))"
    by (rule flt_dyadic) simp_all
  then have "flt (1 / 128) = Fin (1 / 128)"
    using pow2_neg [of 7] by simp
  moreover have "flt (1 / 128) \<le> flt (1 / 100)"
    by (rule flt_mono) simp
  ultimately show ?thesis by (simp add: ntp_consts)
qed

lemma LFP2D_nonneg:
  assumes "0 \<le> x"
  shows "0 \<le> LFP2D x"
  using assms
proof (cases rule: dbl_nonneg_cases)
  case (1 r)
  then show ?thesis by (simp add: LFP2D_def flt_nonneg)
next
  case 2
  then show ?thesis
    by (simp add: LFP2D_def divide_dbl_def zero_dbl_def less_eq_dbl_def)
qed

lemma PHI_nonneg: "0 \<le> PHI"
  by (simp add: ntp_consts flt_nonneg)

lemma PHI_fin: "\<exists>r. PHI = Fin r \<and> 0 \<le> r"
proof -
  have "flt (15 / 1000000) \<le> flt 1" by (rule flt_mono) simp
  then have "PHI \<noteq> PInf" by (auto simp: ntp_consts less_eq_dbl_def)
  then show ?thesis using PHI_nonneg by (auto elim: dbl_nonneg_cases)
qed

end
