(* ===== verification/Timestamps.thy ===== *)
theory Timestamps
  imports TDMG_Types
begin

text \<open>
  64-bit timestamps as a pair of 32-bit halves, seconds and fraction, as the program takes them
  apart and puts them together, and the two 64-bit routines of src/src/NTP_TDMG.c that compute on
  the halves: subtract_uint64_t() and add_int64_t(). The lemmas relate both to plain 64-bit
  arithmetic and say exactly where they differ from it.
\<close>

section \<open>Halves\<close>

definition lo32 :: "tstamp \<Rightarrow> u32" where
  "lo32 x = ucast (x AND 0xFFFFFFFF)"

definition hi32 :: "tstamp \<Rightarrow> u32" where
  "hi32 x = ucast (drop_bit 32 x)"

text \<open>((uint64_t) hi << 32) | lo\<close>

definition join32 :: "u32 \<Rightarrow> u32 \<Rightarrow> tstamp" where
  "join32 h l = push_bit 32 (ucast h) OR ucast l"

lemma uint_lo32: "uint (lo32 x) = uint x mod 4294967296"
proof -
  have "x AND 0xFFFFFFFF = x AND mask 32"
    by (simp add: mask_numeral)
  then have "uint (x AND 0xFFFFFFFF) = take_bit 32 (uint x)"
    by (simp only: take_bit_eq_mask [symmetric] unsigned_take_bit_eq)
  then show ?thesis
    unfolding lo32_def unsigned_ucast_eq by (simp add: take_bit_eq_mod)
qed

lemma uint_hi32: "uint (hi32 x) = uint x div 4294967296"
proof -
  have "uint x < 18446744073709551616" using uint_lt2p [of x] by simp
  then have lt: "uint x div 4294967296 < 4294967296" by simp
  have "uint (drop_bit 32 x) = drop_bit 32 (uint x)"
    by (rule unsigned_drop_bit_eq [THEN trans])
      (simp add: take_bit_eq_mod uint_lt2p [of x, simplified])
  then have "uint (hi32 x) = take_bit 32 (uint x div 2 ^ 32)"
    unfolding hi32_def unsigned_ucast_eq by (simp only: drop_bit_eq_div) simp
  moreover have "0 \<le> uint x div 4294967296"
    by (simp add: pos_imp_zdiv_nonneg_iff)
  ultimately show ?thesis
    using lt by (simp add: take_bit_eq_mod mod_pos_pos_trivial)
qed

lemma uint_join32: "uint (join32 h l) = uint h * 4294967296 + uint l"
proof -
  have h: "0 \<le> uint h" "uint h < 4294967296" and l: "0 \<le> uint l" "uint l < 4294967296"
    using uint_lt2p [of h] uint_lt2p [of l] by simp_all
  have "push_bit 32 (ucast h :: tstamp) AND ucast l = 0"
    by (rule bit_word_eqI) (auto simp: bit_and_iff bit_push_bit_iff bit_ucast_iff dest: bit_imp_le_length)
  then have "join32 h l = push_bit 32 (ucast h) + ucast l"
    by (simp add: join32_def disjunctive_add_eq_or)
  moreover have "uint (push_bit 32 (ucast h :: tstamp)) = uint h * 4294967296"
    using h unfolding unsigned_push_bit_eq unsigned_ucast_eq
    by (simp add: push_bit_eq_mult take_bit_eq_mod)
  moreover have "uint (ucast l :: tstamp) = uint l"
    using l by (simp add: unsigned_ucast_eq take_bit_eq_mod)
  ultimately show ?thesis
    using h l by (simp add: uint_word_ariths)
qed

lemma join32_halves [simp]: "join32 (hi32 x) (lo32 x) = x"
  by (rule word_uint_eqI) (simp add: uint_join32 uint_hi32 uint_lo32)

lemma hi32_join32 [simp]: "hi32 (join32 h l) = h"
  using uint_lt2p [of l] by (intro word_uint_eqI) (simp add: uint_join32 uint_hi32)

lemma lo32_join32 [simp]: "lo32 (join32 h l) = l"
  using uint_lt2p [of l] by (intro word_uint_eqI) (simp add: uint_join32 uint_lo32)

lemma halves_eq_iff: "x = y \<longleftrightarrow> hi32 x = hi32 y \<and> lo32 x = lo32 y"
  by (metis join32_halves)

lemma mod_halves:
  assumes "0 \<le> l" and "l < (4294967296::int)"
  shows "(h * 4294967296 + l) mod 18446744073709551616 = h mod 4294967296 * 4294967296 + l"
proof -
  have "(4294967296 * h + l) mod (4294967296 * 4294967296)
      = 4294967296 * ((4294967296 * h + l) div 4294967296 mod 4294967296)
        + (4294967296 * h + l) mod 4294967296"
    by (rule zmod_zmult2_eq) simp
  then show ?thesis using assms by (simp add: mult.commute)
qed

text \<open>Any pair of half-words computed modulo 2 ^ 32 denotes the 64-bit value of the whole sum.\<close>

lemma join32_of_int:
  assumes "0 \<le> l" and "l < (4294967296::int)"
  shows "join32 (word_of_int h) (word_of_int l) = word_of_int (h * 4294967296 + l)"
proof (rule word_uint_eqI)
  have "uint (word_of_int (h * 4294967296 + l) :: tstamp) = (h * 4294967296 + l) mod 2 ^ 64"
    using uint_word_of_int [where 'a = 64, of "h * 4294967296 + l"] by simp
  then show "uint (join32 (word_of_int h) (word_of_int l))
      = uint (word_of_int (h * 4294967296 + l) :: tstamp)"
    using assms by (simp add: uint_join32 uint_word_of_int mod_halves del: of_int_add of_int_mult)
qed

section \<open>subtract_uint64_t\<close>

text \<open>
  The exchange of x and y in the negative case is kept: the halves were already taken, so the
  exchanged values are not read again.
\<close>

definition subtract_uint64_t :: "tstamp \<Rightarrow> tstamp \<Rightarrow> int" where
  "subtract_uint64_t x y =
     (let xFrac = lo32 x; yFrac = lo32 y; xS = hi32 x; yS = hi32 y;
          neg = (xS < yS \<or> (xS = yS \<and> xFrac < yFrac));
          (x, y) = (if neg then (y, x) else (x, y));
          borrow = (xFrac < yFrac);
          low = xFrac - yFrac;
          low = (if borrow then low + push_bit 31 1 + push_bit 31 1 else low);
          high = xS - yS - (if borrow then 1 else 0);
          result = join32 high low;
          result = (if neg then - result else result)
      in sint result)"

lemma halves_order:
  assumes "0 \<le> r" "r < M" "0 \<le> q" "q < M"
  shows "a * M + r < b * M + q \<longleftrightarrow> a < b \<or> a = b \<and> r < (q :: int)"
proof -
  consider "a + 1 \<le> b" | "b + 1 \<le> a" | "a = b" by linarith
  then show ?thesis
  proof cases
    case 1
    then have "(a + 1) * M \<le> b * M" using assms by (intro mult_right_mono) simp_all
    with 1 assms show ?thesis by (simp add: algebra_simps)
  next
    case 2
    then have "(b + 1) * M \<le> a * M" using assms by (intro mult_right_mono) simp_all
    with 2 assms show ?thesis by (simp add: algebra_simps)
  qed simp
qed

lemma halves_less_iff: "x < y \<longleftrightarrow> hi32 x < hi32 y \<or> hi32 x = hi32 y \<and> lo32 x < lo32 y"
proof -
  have "uint x < uint y \<longleftrightarrow> uint (join32 (hi32 x) (lo32 x)) < uint (join32 (hi32 y) (lo32 y))"
    by simp
  also have "\<dots> \<longleftrightarrow> uint (hi32 x) < uint (hi32 y) \<or>
      uint (hi32 x) = uint (hi32 y) \<and> uint (lo32 x) < uint (lo32 y)"
    unfolding uint_join32
    using uint_lt2p [of "lo32 x"] uint_lt2p [of "lo32 y"] by (intro halves_order) simp_all
  finally show ?thesis
    by (simp add: word_less_def word_uint_eq_iff)
qed

lemma low_borrow_adjust: "(l :: u32) + push_bit 31 1 + push_bit 31 1 = l"
proof -
  have "push_bit 31 (1::u32) + push_bit 31 1 = 0" by simp
  then show ?thesis by (simp only: add.assoc) simp
qed

lemma join32_difference:
  "join32 (hi32 x - hi32 y - (if lo32 x < lo32 y then 1 else 0)) (lo32 x - lo32 y) = x - y"
proof -
  let ?a = "uint (hi32 x)" and ?b = "uint (hi32 y)" and ?f = "uint (lo32 x)" and ?g = "uint (lo32 y)"
  let ?c = "if ?f < ?g then 1 else (0::int)"
  let ?l = "?f - ?g + ?c * 4294967296"
  have r: "0 \<le> ?f" "?f < 4294967296" "0 \<le> ?g" "?g < 4294967296"
    by (simp_all add: uint_lo32)
  have "word_of_int ?l = (word_of_int ?f - word_of_int ?g :: u32)"
    by simp
  then have low: "lo32 x - lo32 y = word_of_int ?l"
    by simp
  have l: "0 \<le> ?l" "?l < 4294967296"
    using r by (cases "?f < ?g"; simp only: if_True if_False; linarith)+
  have "hi32 x - hi32 y - (if lo32 x < lo32 y then 1 else 0) = word_of_int (?a - ?b - ?c)"
    by (simp add: word_less_def)
  with low have "join32 (hi32 x - hi32 y - (if lo32 x < lo32 y then 1 else 0)) (lo32 x - lo32 y)
      = word_of_int ((?a - ?b - ?c) * 4294967296 + ?l)"
    using l by (simp only:) (rule join32_of_int; assumption)
  also have "(?a - ?b - ?c) * 4294967296 + ?l = uint x - uint y"
    by (simp add: uint_hi32 uint_lo32 algebra_simps minus_mod_eq_mult_div [symmetric])
  finally show ?thesis by simp
qed

lemma subtract_uint64_t_eq:
  "subtract_uint64_t x y = sint (if x < y then y - x else x - y)"
  unfolding subtract_uint64_t_def Let_def halves_less_iff [symmetric]
  by (simp only: low_borrow_adjust join32_difference if_cancel split: prod.splits) simp

lemma subtract_nonneg:
  assumes "uint x - uint y < 9223372036854775808" and "uint y - uint x < 9223372036854775808"
  shows "subtract_uint64_t x y = \<bar>uint x - uint y\<bar>"
proof -
  have *: "sint (a - b) = uint a - uint b"
    if "uint b \<le> uint a" "uint a - uint b < 9223372036854775808" for a b :: tstamp
  proof -
    have "uint (a - b) = uint a - uint b"
      using that(1) by (simp add: uint_sub_if')
    then show ?thesis using that by (simp add: sint_i64 i64_id)
  qed
  show ?thesis
    using assms * [of x y] * [of y x]
    by (auto simp: subtract_uint64_t_eq word_less_def abs_if)
qed

section \<open>Carry and borrow between the halves\<close>

text \<open>Adding half-words with the carry taken from the wrap-around of the low sum.\<close>

lemma join32_add:
  "join32 (hi32 x + s + (if lo32 x + f < lo32 x then 1 else 0)) (lo32 x + f) = x + join32 s f"
proof -
  let ?h = "uint (hi32 x)" and ?l = "uint (lo32 x)" and ?s = "uint s" and ?f = "uint f"
  let ?c = "if 4294967296 \<le> ?l + ?f then 1 else (0::int)"
  have r: "0 \<le> ?l" "?l < 4294967296" "0 \<le> ?f" "?f < 4294967296"
    using uint_lt2p [of f] by (simp_all add: uint_lo32)
  have wrap: "lo32 x + f < lo32 x \<longleftrightarrow> 4294967296 \<le> ?l + ?f"
    using r by (auto simp: word_less_def uint_plus_if')
  have low: "lo32 x + f = word_of_int (?l + ?f - ?c * 4294967296)"
    by simp
  have lr: "0 \<le> ?l + ?f - ?c * 4294967296" "?l + ?f - ?c * 4294967296 < 4294967296"
    using r by (cases "4294967296 \<le> ?l + ?f"; simp only: if_True if_False; linarith)+
  have high: "hi32 x + s + (if lo32 x + f < lo32 x then 1 else 0) = word_of_int (?h + ?s + ?c)"
    by (simp add: wrap)
  have "join32 (hi32 x + s + (if lo32 x + f < lo32 x then 1 else 0)) (lo32 x + f)
      = word_of_int ((?h + ?s + ?c) * 4294967296 + (?l + ?f - ?c * 4294967296))"
    unfolding high unfolding low using lr by (rule join32_of_int)
  also have "(?h + ?s + ?c) * 4294967296 + (?l + ?f - ?c * 4294967296) = uint x + uint (join32 s f)"
    by (simp add: uint_join32 uint_hi32 uint_lo32 algebra_simps minus_mod_eq_mult_div [symmetric])
  finally show ?thesis by simp
qed

lemma join32_sub:
  "join32 (hi32 x - (if lo32 x < lo32 x - f then 1 else 0)) (lo32 x - f) = x - join32 0 f"
proof -
  have "uint (lo32 x) < uint (lo32 x - f) \<longleftrightarrow> uint (lo32 x) < uint f"
    using uint_lt2p [of f] uint_lt2p [of "lo32 x"] by (auto simp: uint_sub_if')
  then have "lo32 x < lo32 x - f \<longleftrightarrow> lo32 x < f" by (simp add: word_less_def)
  then show ?thesis using join32_difference [of x "join32 0 f"] by simp
qed

section \<open>add_int64_t\<close>

text \<open>Addition of two int32_t values, whose overflow C leaves undefined.\<close>

definition add32 :: "int \<Rightarrow> int \<Rightarrow> int outcome" where
  "add32 x y = (if - 2147483648 \<le> x + y \<and> x + y < 2147483648 then Inr (x + y)
                else Inl Signed_Overflow)"

definition add_int64_t :: "int \<Rightarrow> int \<Rightarrow> int outcome" where
  "add_int64_t x y =
     (let xFrac = i32 (x AND 0xFFFFFFFF); yFrac = i32 (y AND 0xFFFFFFFF);
          xS = i32 (drop_bit 32 x); yS = i32 (drop_bit 32 y)
      in bind_r (add32 xFrac yFrac) (\<lambda>low.
         bind_r (if low < xFrac \<or> low < yFrac then add32 xS 1 else Inr xS) (\<lambda>xS.
         bind_r (add32 xS yS) (\<lambda>high.
         Inr (push_bit 32 high OR low)))))"

lemma and_mask32: "(x::int) AND 0xFFFFFFFF = x mod 4294967296"
proof -
  have "x AND mask 32 = x mod 2 ^ 32"
    by (simp only: take_bit_eq_mask [symmetric] take_bit_eq_mod)
  then show ?thesis by (simp add: mask_numeral)
qed

lemma or_low_nonneg:
  assumes "0 \<le> l" and "l < 4294967296"
  shows "push_bit 32 h OR l = h * 4294967296 + (l::int)"
proof -
  have l: "l = take_bit 32 l" using assms by (simp add: take_bit_eq_mod)
  have "push_bit 32 h AND l = 0"
    by (subst l, rule bit_eqI) (auto simp: bit_simps)
  then show ?thesis
    by (simp add: disjunctive_add_eq_or [symmetric] push_bit_eq_mult)
qed

lemma or_low_neg:
  assumes "- 4294967296 \<le> l" and "l < 0"
  shows "push_bit 32 h OR l = (l::int)"
proof (rule bit_eqI)
  fix n
  have "bit l n" if n: "32 \<le> n"
  proof -
    have "l div 2 ^ n = - 1"
    proof (rule int_div_pos_eq [where r = "l + 2 ^ n"])
      have "(2::int) ^ 32 \<le> 2 ^ n" using n by (intro power_increasing) simp_all
      then show "0 \<le> l + 2 ^ n" using assms by simp
    qed (use assms in simp_all)
    then show ?thesis by (simp add: bit_iff_odd)
  qed
  then show "bit (push_bit 32 h OR l) n = bit l n"
    by (auto simp: bit_simps)
qed

lemma i32_mod_eq:
  "i32 (x mod 4294967296) = x mod 4294967296 - (if x mod 4294967296 < 2147483648 then 0 else 4294967296)"
proof -
  have "0 \<le> x mod 4294967296" "x mod 4294967296 < 4294967296" by simp_all
  then show ?thesis
    unfolding i32_def by (smt (verit) mod_pos_pos_trivial minus_mod_self2)
qed

lemma signed_fraction:
  "x = x div 4294967296 * 4294967296 + i32 (x mod 4294967296)
       + (if i32 (x mod 4294967296) < 0 then 4294967296 else 0)"
proof -
  define q r where "q = x div 4294967296" and "r = x mod 4294967296"
  have r: "0 \<le> r" "r < 4294967296" and x: "x = q * 4294967296 + r"
    by (simp_all add: q_def r_def)
  have "i32 r = (if r < 2147483648 then r else r - 4294967296)"
    using i32_mod_eq [of x] by (simp add: r_def)
  then have "x = q * 4294967296 + i32 r + (if i32 r < 0 then 4294967296 else 0)"
    using r x by simp
  then show ?thesis by (simp only: q_def r_def)
qed

lemma add_halves:
  assumes "bind_r (add32 f g) (\<lambda>low.
      bind_r (if low < f \<or> low < g then add32 a 1 else Inr a) (\<lambda>a.
      bind_r (add32 a b) (\<lambda>high. Inr (push_bit 32 high OR low)))) = Inr z"
  shows "- 2147483648 \<le> f + g \<and>
    z = push_bit 32 (a + (if f < 0 \<or> g < 0 then 1 else 0) + b) OR (f + g)"
  using assms by (cases "f < 0 \<or> g < 0") (auto simp: bind_r_Inr_conv add32_def split: if_splits)

text \<open>
  The sum is right when the sum of the two signed fractions is not negative; otherwise the
  seconds are overwritten by the sign of the fraction and only that sum comes out.
\<close>

lemma add_int64_t_result:
  assumes x: "- 9223372036854775808 \<le> x" "x < 9223372036854775808"
    and y: "- 9223372036854775808 \<le> y" "y < 9223372036854775808"
    and run: "add_int64_t x y = Inr z"
  shows "z = (let low = i32 (x mod 4294967296) + i32 (y mod 4294967296)
              in if 0 \<le> low then x + y else low)"
proof -
  define f g a b where "f = i32 (x mod 4294967296)" and "g = i32 (y mod 4294967296)"
    and "a = x div 4294967296" and "b = y div 4294967296"
  have hi: "i32 (drop_bit 32 x) = a" "i32 (drop_bit 32 y) = b"
    using x y by (simp_all add: drop_bit_eq_div i32_id a_def b_def)
  have "bind_r (add32 f g) (\<lambda>low.
      bind_r (if low < f \<or> low < g then add32 a 1 else Inr a) (\<lambda>a.
      bind_r (add32 a b) (\<lambda>high. Inr (push_bit 32 high OR low)))) = Inr z"
    using run by (simp only: add_int64_t_def Let_def and_mask32 hi f_def [symmetric] g_def [symmetric])
  then have low: "- 2147483648 \<le> f + g"
    and z: "z = push_bit 32 (a + (if f < 0 \<or> g < 0 then 1 else 0) + b) OR (f + g)"
    by (auto dest: add_halves)
  have parts: "x = a * 4294967296 + f + (if f < 0 then 4294967296 else 0)"
    "y = b * 4294967296 + g + (if g < 0 then 4294967296 else 0)"
    using signed_fraction [of x] signed_fraction [of y] by (simp_all only: f_def g_def a_def b_def)
  have rng: "f < 2147483648" "g < 2147483648"
    by (simp_all add: f_def g_def i32_range)
  have "z = (if 0 \<le> f + g then x + y else f + g)"
  proof (cases "0 \<le> f + g")
    case True
    then have "z = (a + (if f < 0 \<or> g < 0 then 1 else 0) + b) * 4294967296 + (f + g)"
      using z rng by (simp only: or_low_nonneg)
    with True parts show ?thesis
      by (auto simp: algebra_simps)
  next
    case False
    then show ?thesis using z low by (simp add: or_low_neg)
  qed
  then show ?thesis by (simp add: Let_def f_def g_def)
qed

text \<open>Small sums never stop.\<close>

lemma add_int64_t_small:
  assumes "0 \<le> x" and "x < 2147483647"
  shows "add_int64_t x 1 = Inr (x + 1)"
proof -
  have "drop_bit 32 x = 0" using assms by (simp add: drop_bit_eq_div)
  moreover have "x AND 0xFFFFFFFF = x" using assms by (simp add: and_mask32)
  ultimately show ?thesis
    using assms by (simp add: add_int64_t_def Let_def add32_def i32_id or_low_nonneg)
qed

end
