(* ===== verification/Print.thy ===== *)
theory Print
  imports Timestamps
begin

text \<open>
  The number formatting of src/src/NTP_TDMG.c: uint64_to_str() and double_to_str(), and the two
  printf wrappers, whose buffers the functions write to. A C string is the list of its characters
  before the terminating null; a buffer of n characters holds strings of length below n. The
  properties are the round trip of the decimal notation and the buffer bounds.
\<close>

section \<open>Decimal digits\<close>

text \<open>(value % 10) + '0'\<close>

definition digit :: "nat \<Rightarrow> char" where
  "digit d = char_of (48 + d)"

text \<open>The digit loop: temp[i++] = (value % 10) + '0'; value = value / 10.\<close>

function take_digits :: "nat \<Rightarrow> string \<Rightarrow> string" where
  "take_digits value temp =
     (if value = 0 then temp else take_digits (value div 10) (temp @ [digit (value mod 10)]))"
  by pat_completeness auto
termination
  by (relation "measure fst") auto

declare take_digits.simps [simp del]

text \<open>The reversal loop: while (i > 0) str[j++] = temp[--i].\<close>

fun copy_back :: "string \<Rightarrow> nat \<Rightarrow> string \<Rightarrow> string" where
  "copy_back temp 0 str = str"
| "copy_back temp (Suc i) str = copy_back temp i (str @ [temp ! i])"

definition uint64_to_str :: "tstamp \<Rightarrow> string" where
  "uint64_to_str value =
     (if value = 0 then ''0''
      else let temp = take_digits (unat value) [] in copy_back temp (length temp) [])"

section \<open>double_to_str\<close>

text \<open>multiplier *= 10.0, precision times.\<close>

fun multiplier :: "nat \<Rightarrow> dbl" where
  "multiplier 0 = flt 1"
| "multiplier (Suc n) = multiplier n * flt 10"

text \<open>
  The leading zeros: the loop writes '0' and counts the precision down while it exceeds the
  number of digits.
\<close>

fun pad_zeros :: "nat \<Rightarrow> nat \<Rightarrow> string" where
  "pad_zeros count 0 = []"
| "pad_zeros count (Suc precision) =
     (if count < Suc precision then CHR ''0'' # pad_zeros count precision else [])"

definition double_to_str :: "(dbl \<Rightarrow> int) \<Rightarrow> dbl \<Rightarrow> int \<Rightarrow> string" where
  "double_to_str other value precision =
     (let precision = (if 9 < precision then 9 else precision);
          sign = (if value < flt 0 then ''-'' else []);
          value = (if value < flt 0 then - value else value);
          int_part = dbl_to_u64 other value;
          fractional_part = value - dbl_of_int (uint int_part);
          str = sign @ uint64_to_str int_part
      in if 0 < precision
         then let fractional_digits =
                    dbl_to_u64 other (fractional_part * multiplier (nat precision) + flt (1/2));
                  frac_str = uint64_to_str fractional_digits
              in str @ ''.'' @ pad_zeros (length frac_str) (nat precision) @ frac_str
         else str)"

section \<open>The wrappers and their buffers\<close>

text \<open>Writing a string and its terminating null to a buffer of the given size.\<close>

definition write_str :: "nat \<Rightarrow> string \<Rightarrow> string outcome" where
  "write_str n str = (if length str < n then Inr str else Inl (Index_OOB Digit_Buffer))"

definition FreeRTOS_printf_wrapper :: "tstamp \<Rightarrow> string outcome" where
  "FreeRTOS_printf_wrapper value = write_str 20 (uint64_to_str value)"

definition FreeRTOS_printf_wrapper_double :: "(dbl \<Rightarrow> int) \<Rightarrow> dbl \<Rightarrow> string outcome" where
  "FreeRTOS_printf_wrapper_double other value = write_str 80 (double_to_str other value 10)"

text \<open>
  printTimestamp(): the seconds since 1970 as ctime(), a library function, formats them, and the
  fraction of a second. print_uint64_as_32_parts(): %u prints the decimal digits.
\<close>

definition printTimestamp :: "(dbl \<Rightarrow> int) \<Rightarrow> (tstamp \<Rightarrow> string) \<Rightarrow> tstamp \<Rightarrow> string \<Rightarrow> string outcome" where
  "printTimestamp other ctime timestamp comment =
     (let seconds = drop_bit 32 timestamp - 2208988800;
          fractions = lo32 timestamp;
          fractionAsSecond = dbl_of_int (uint fractions) / FRAC
      in bind_r (FreeRTOS_printf_wrapper_double other fractionAsSecond) (\<lambda>str.
           Inr (comment @ '' Timestamp: '' @ ctime seconds @ ''. seconds'' @ str)))"

definition print_uint64_as_32_parts :: "tstamp \<Rightarrow> string" where
  "print_uint64_as_32_parts number =
     (let lower_part = lo32 number; upper_part = hi32 number
      in ''Upper 32 bits: '' @ uint64_to_str (ucast upper_part) @
         ''Lower 32 bits: '' @ uint64_to_str (ucast lower_part))"

section \<open>The digits of a number\<close>

definition dec_value :: "string \<Rightarrow> nat" where
  "dec_value = foldl (\<lambda>v c. 10 * v + (of_char c - 48)) 0"

lemma of_char_digit: "d < 10 \<Longrightarrow> of_char (digit d) = 48 + (d :: nat)"
  by (simp add: digit_def)

lemma dec_value_snoc [simp]: "dec_value (s @ [c]) = 10 * dec_value s + (of_char c - 48)"
  by (simp add: dec_value_def)

lemma dec_value_Nil [simp]: "dec_value [] = 0"
  by (simp add: dec_value_def)

lemma copy_back_rev: "i \<le> length temp \<Longrightarrow> copy_back temp i str = str @ rev (take i temp)"
  by (induction i arbitrary: str) (simp_all add: take_Suc_conv_app_nth)

text \<open>The digits of n, least significant first.\<close>

fun digits_of :: "nat \<Rightarrow> string" where
  "digits_of n = (if n = 0 then [] else digit (n mod 10) # digits_of (n div 10))"

declare digits_of.simps [simp del]

lemma digits_of_0 [simp]: "digits_of 0 = []"
  by (simp add: digits_of.simps)

lemma digits_of_pos: "0 < n \<Longrightarrow> digits_of n = digit (n mod 10) # digits_of (n div 10)"
  by (subst digits_of.simps) simp

lemma take_digits_eq: "take_digits n temp = temp @ digits_of n"
proof (induction n temp rule: take_digits.induct)
  case (1 n temp)
  show ?case
  proof (cases "n = 0")
    case True
    then show ?thesis by (simp add: take_digits.simps)
  next
    case False
    with 1 show ?thesis by (subst take_digits.simps) (simp add: digits_of_pos)
  qed
qed

lemma uint64_to_str_eq: "uint64_to_str v = (if v = 0 then ''0'' else rev (digits_of (unat v)))"
  by (simp add: uint64_to_str_def take_digits_eq copy_back_rev)

lemma dec_value_digits: "dec_value (rev (digits_of n)) = n"
proof (induction n rule: digits_of.induct)
  case (1 n)
  then show ?case
    by (cases "n = 0") (simp_all add: digits_of_pos of_char_digit)
qed

lemma digits_of_digits: "c \<in> set (digits_of n) \<Longrightarrow> 48 \<le> (of_char c :: nat) \<and> (of_char c :: nat) \<le> 57"
proof (induction n rule: digits_of.induct)
  case (1 n)
  show ?case
  proof (cases "n = 0")
    case False
    have "n mod 10 < 10" by simp
    then have "of_char (digit (n mod 10)) = 48 + (n mod 10 :: nat)" by (rule of_char_digit)
    with 1 False show ?thesis by (auto simp: digits_of_pos)
  qed (use 1 in simp)
qed

lemma length_digits_of: "length (digits_of n) \<le> k \<longleftrightarrow> n < 10 ^ k"
proof (induction n arbitrary: k rule: digits_of.induct)
  case (1 n)
  show ?case
  proof (cases "n = 0")
    case False
    show ?thesis
    proof (cases k)
      case 0
      with False show ?thesis by (simp add: digits_of_pos)
    next
      case (Suc j)
      have "n div 10 < 10 ^ j \<longleftrightarrow> n < 10 * 10 ^ j"
        by (simp add: div_less_iff_less_mult mult.commute)
      with 1 [of j] False Suc show ?thesis by (simp add: digits_of_pos)
    qed
  qed simp
qed

lemma digits_of_no_leading_zero: "0 < n \<Longrightarrow> last (digits_of n) \<noteq> CHR ''0''"
proof (induction n rule: digits_of.induct)
  case (1 n)
  show ?case
  proof (cases "n div 10 = 0")
    case True
    then have "n < 10" by (simp add: div_eq_0_iff)
    then have "of_char (digit (n mod 10)) \<noteq> (48::nat)"
      using 1 by (simp add: of_char_digit)
    then have "digit (n mod 10) \<noteq> CHR ''0''" by auto
    with True 1 show ?thesis by (simp add: digits_of_pos)
  next
    case False
    then have "digits_of (n div 10) \<noteq> []" by (simp add: digits_of_pos)
    with False 1 show ?thesis by (simp add: digits_of_pos)
  qed
qed

lemma length_uint64_to_str: "length (uint64_to_str v) \<le> 20"
proof -
  have "unat v < 2 ^ LENGTH(64)" by (rule unsigned_less)
  then have "unat v < 2 ^ 64" by simp
  also have "(2::nat) ^ 64 < 10 ^ 20" by simp
  finally have "unat v < 10 ^ 20" .
  then show ?thesis by (simp add: uint64_to_str_eq length_digits_of)
qed

lemma length_pad_zeros: "length (pad_zeros count precision) = precision - count"
  by (induction precision) auto

section \<open>Properties\<close>

text \<open>C32: uint64_to_str() writes the decimal notation of its argument: reading the string back
  gives the number, every character is a digit, the first is not a zero unless the number is, and
  there are at most 20 characters.\<close>

theorem uint64_to_str_roundtrip:
  "dec_value (uint64_to_str v) = unat v \<and>
   list_all (\<lambda>c. 48 \<le> (of_char c :: nat) \<and> (of_char c :: nat) \<le> 57) (uint64_to_str v) \<and>
   (hd (uint64_to_str v) = CHR ''0'' \<longleftrightarrow> v = 0) \<and>
   length (uint64_to_str v) \<le> 20"
proof (cases "v = 0")
  case True
  then show ?thesis by (simp add: uint64_to_str_eq dec_value_def)
next
  case False
  then have "0 < unat v" by (simp add: unat_gt_0)
  then have "digits_of (unat v) \<noteq> []" "last (digits_of (unat v)) \<noteq> CHR ''0''"
    by (simp add: digits_of_pos, rule digits_of_no_leading_zero)
  then have "hd (uint64_to_str v) \<noteq> CHR ''0''" using False by (simp add: uint64_to_str_eq hd_rev)
  with False length_uint64_to_str [of v] show ?thesis
    by (auto simp: uint64_to_str_eq dec_value_digits hd_rev list_all_iff dest: digits_of_digits)
qed

text \<open>The 20-character buffer of FreeRTOS_printf_wrapper() has no room for the terminating
  null of a 20-digit number: the wrapper writes past its buffer exactly for the values from
  10^19 on, and prints every smaller value.\<close>

theorem printf_wrapper_overflow:
  "FreeRTOS_printf_wrapper v =
     (if unat v < 10 ^ 19 then Inr (uint64_to_str v) else Inl (Index_OOB Digit_Buffer))"
proof -
  have "length (uint64_to_str v) < 20 \<longleftrightarrow> unat v < 10 ^ 19"
    using length_digits_of [of "unat v" 19] by (auto simp: uint64_to_str_eq)
  then show ?thesis by (simp add: FreeRTOS_printf_wrapper_def write_str_def)
qed

text \<open>The 80-character buffer of FreeRTOS_printf_wrapper_double() is large enough for every
  double, whatever the target's conversion does out of range.\<close>

theorem printf_wrapper_double_fits:
  "\<exists>str. FreeRTOS_printf_wrapper_double other x = Inr str \<and> length str \<le> 42"
proof -
  have pad: "length (sgn @ uint64_to_str a @ ''.'' @ pad_zeros (length (uint64_to_str b)) 9 @ uint64_to_str b) \<le> 42"
    if "length sgn \<le> 1" for sgn a b
    using length_uint64_to_str [of a] length_uint64_to_str [of b] that
    by (simp add: length_pad_zeros)
  have "length (double_to_str other x 10) \<le> 42"
    using pad [of "if x < flt 0 then ''-'' else []"]
    by (simp add: double_to_str_def Let_def)
  then show ?thesis
    by (simp add: FreeRTOS_printf_wrapper_double_def write_str_def)
qed

end
