(* ===== verification/Board.thy ===== *)
theory Board
  imports Timestamps
begin

text \<open>
  The program around the client: src/src/main_networking.c (the pseudo random numbers and the
  callbacks the network stack makes), src/src/syscalls.c (the UART and the memory that malloc()
  draws from) and src/src/startup.c (the copy of the data section, the zeroing of bss, the vector
  table). The linker's symbols are arguments. Memory is a function from word addresses.
\<close>

section \<open>Pseudo random numbers\<close>

text \<open>The state is the static variable ulNextRand, of the 32-bit type UBaseType_t.\<close>

definition prvSRand :: "u32 \<Rightarrow> u32 \<Rightarrow> u32" where
  "prvSRand ulSeed ulNextRand = ulSeed"

definition uxRand :: "u32 \<Rightarrow> u32 \<times> u32" where
  "uxRand ulNextRand =
     (let ulMultiplier = 0x015a4e35; ulIncrement = 1;
          ulNextRand = ulMultiplier * ulNextRand + ulIncrement
      in (drop_bit 16 ulNextRand AND 0x7fff, ulNextRand))"

definition ulApplicationGetNextSequenceNumber ::
    "u32 \<Rightarrow> 16 word \<Rightarrow> u32 \<Rightarrow> 16 word \<Rightarrow> u32 \<Rightarrow> u32 \<times> u32" where
  "ulApplicationGetNextSequenceNumber ulSourceAddress usSourcePort ulDestinationAddress
     usDestinationPort ulNextRand = uxRand ulNextRand"

text \<open>The number is stored through the argument; the result is pdTRUE.\<close>

definition xApplicationGetRandomNumber :: "u32 \<Rightarrow> int \<times> u32 \<times> u32" where
  "xApplicationGetRandomNumber ulNextRand =
     (let (n, ulNextRand) = uxRand ulNextRand in (1, n, ulNextRand))"

definition prvMiscInitialisation :: "int \<Rightarrow> u32 \<Rightarrow> u32 list \<times> u32" where
  "prvMiscInitialisation xTimeNow ulNextRand =
     (let r = prvSRand (word_of_int xTimeNow) ulNextRand;
          (_, n0, r) = xApplicationGetRandomNumber r;
          (_, n1, r) = xApplicationGetRandomNumber r;
          (_, n2, r) = xApplicationGetRandomNumber r;
          (_, n3, r) = xApplicationGetRandomNumber r
      in ([n0, n1, n2, n3], r))"

section \<open>Callbacks of the network stack\<close>

definition mainHOST_NAME :: string where
  "mainHOST_NAME = ''RTOSDemo''"

definition mainDEVICE_NICK_NAME :: string where
  "mainDEVICE_NICK_NAME = ''qemu_demo''"

definition pcApplicationHostnameHook :: string where
  "pcApplicationHostnameHook = mainHOST_NAME"

text \<open>strcasecmp() of the C locale returns zero exactly when the lower-case strings agree.\<close>

definition to_lower :: "char \<Rightarrow> nat" where
  "to_lower ch = (let n = of_char ch in if 65 \<le> n \<and> n \<le> 90 then n + 32 else n)"

definition same_name :: "string \<Rightarrow> string \<Rightarrow> bool" where
  "same_name s t \<longleftrightarrow> map to_lower s = map to_lower t"

definition xApplicationDNSQueryHook :: "string \<Rightarrow> int" where
  "xApplicationDNSQueryHook pcName =
     (if same_name pcName pcApplicationHostnameHook then 1
      else if same_name pcName mainDEVICE_NICK_NAME then 1
      else 0)"

text \<open>
  The network event hook: the flag xTasksAlreadyCreated and the number of client tasks created
  with vStartNTPClientTasks_SingleTasks().
\<close>

datatype net_event = eNetworkUp | eNetworkDown

record hook_state =
  xTasksAlreadyCreated :: bool
  client_tasks :: nat

definition vStartNTPClientTasks_SingleTasks :: "hook_state \<Rightarrow> hook_state" where
  "vStartNTPClientTasks_SingleTasks h = h\<lparr>client_tasks := Suc (client_tasks h)\<rparr>"

definition vApplicationIPNetworkEventHook :: "net_event \<Rightarrow> hook_state \<Rightarrow> hook_state" where
  "vApplicationIPNetworkEventHook eNetworkEvent h =
     (if eNetworkEvent = eNetworkUp
      then if \<not> xTasksAlreadyCreated h
           then (vStartNTPClientTasks_SingleTasks h)\<lparr>xTasksAlreadyCreated := True\<rparr>
           else h
      else h)"

section \<open>System calls\<close>

record uart =
  DATA :: "u32 list"
  CTRL :: u32
  BAUDDIV :: u32

definition uart_init :: "uart \<Rightarrow> uart" where
  "uart_init u = u\<lparr>BAUDDIV := 16, CTRL := 1\<rparr>"

definition sys_fstat :: "int \<Rightarrow> int" where
  "sys_fstat file = 0"

definition sys_read :: "int \<Rightarrow> int" where
  "sys_read len = - 1"

text \<open>Each byte of the buffer is written to the data register; \<open>DATA\<close> lists what was written.\<close>

definition sys_write :: "u8 list \<Rightarrow> int \<Rightarrow> uart \<Rightarrow> (int \<times> uart) outcome" where
  "sys_write buf len u =
     bind_r (foldr_r (\<lambda>todo u. bind_r (idx Output_Buffer buf todo) (\<lambda>b. Inr (u\<lparr>DATA := DATA u @ [ucast b]\<rparr>)))
               [0..<nat len] u)
       (\<lambda>u. Inr (len, u))"

text \<open>The static variable heap_end, the linker's _heap_bottom and _heap_top; -1 is failure.\<close>

definition sys_sbrk :: "u32 \<Rightarrow> u32 \<Rightarrow> int \<Rightarrow> u32 \<Rightarrow> u32 \<times> u32" where
  "sys_sbrk heap_bottom heap_top incr heap_end =
     (let heap_end = (if heap_end = 0 then heap_bottom else heap_end);
          prev_heap_end = heap_end
      in if heap_top < heap_end + word_of_int incr then (- 1, heap_end)
         else (prev_heap_end, heap_end + word_of_int incr))"

section \<open>Start-up\<close>

function copy_data :: "nat \<Rightarrow> nat \<Rightarrow> nat \<Rightarrow> (nat \<Rightarrow> u32) \<Rightarrow> nat \<Rightarrow> u32" where
  "copy_data src dest edata mem =
     (if dest < edata then copy_data (src + 4) (dest + 4) edata (mem(dest := mem src)) else mem)"
  by pat_completeness auto
termination by (relation "measure (\<lambda>(src, dest, edata, mem). edata - dest)") auto

function zero_bss :: "nat \<Rightarrow> nat \<Rightarrow> (nat \<Rightarrow> u32) \<Rightarrow> nat \<Rightarrow> u32" where
  "zero_bss dest ebss mem = (if dest < ebss then zero_bss (dest + 4) ebss (mem(dest := 0)) else mem)"
  by pat_completeness auto
termination by (relation "measure (\<lambda>(dest, ebss, mem). ebss - dest)") auto

declare copy_data.simps [simp del] zero_bss.simps [simp del]

definition Reset_Handler :: "nat \<Rightarrow> nat \<Rightarrow> nat \<Rightarrow> nat \<Rightarrow> nat \<Rightarrow> (nat \<Rightarrow> u32) \<Rightarrow> nat \<Rightarrow> u32" where
  "Reset_Handler sidata sdata edata sbss ebss mem =
     zero_bss sbss ebss (copy_data sidata sdata edata mem)"

text \<open>The vector table.\<close>

datatype handler =
    estack | Reset | Default | Default2 | Default3 | Default4 | Default5 | Default6
  | SVC | PendSV | SysTick | EthernetISR

definition isr_vector :: "handler option list" where
  "isr_vector =
     [Some estack, Some Reset, Some Default, Some Default2, Some Default3, Some Default4, Some Default5,
      None, None, None, None, Some SVC, Some Default6, None, Some PendSV, Some SysTick] @
     replicate 13 None @ [Some EthernetISR]"

text \<open>What becomes of the registers the fault handler was entered with: it loops for ever.\<close>

definition prvGetRegistersFromStack :: "u32 list \<Rightarrow> unit outcome" where
  "prvGetRegistersFromStack frame =
     bind_r (foldr_r (\<lambda>i u. bind_r (idx Stack_Frame frame i) (\<lambda>r. Inr ())) [0..<8] ()) (\<lambda>u. Inl (Hang Idle_Loop))"

text \<open>_start() initialises the UART, runs main() and exits with status 0.\<close>

definition start :: "(uart \<Rightarrow> uart outcome) \<Rightarrow> uart \<Rightarrow> uart outcome" where
  "start main_fn u = bind_r (main_fn (uart_init u)) (\<lambda>u. Inl (Exit 0))"

section \<open>Lemmas\<close>

lemma copy_data_outside: "(\<forall>a. dest \<le> a \<longrightarrow> a < edata \<longrightarrow> a \<noteq> b) \<Longrightarrow> copy_data src dest edata mem b = mem b"
proof (induction src dest edata mem rule: copy_data.induct)
  case (1 src dest edata mem)
  show ?case
  proof (cases "dest < edata")
    case True
    have b: "b \<noteq> dest" using "1.prems" True by blast
    have "copy_data (src + 4) (dest + 4) edata (mem(dest := mem src)) b = (mem(dest := mem src)) b"
      using "1.prems" by (intro "1.IH" [OF True]) simp
    also have "\<dots> = mem b" using b by simp
    finally show ?thesis using True by (subst copy_data.simps) simp
  next
    case False
    then show ?thesis by (simp add: copy_data.simps [of src dest])
  qed
qed

lemma copy_data_word:
  assumes "dest + 4 * i < edata"
    and "\<forall>j. dest + 4 * j < edata \<longrightarrow> (\<forall>k. dest + 4 * k < edata \<longrightarrow> src + 4 * j \<noteq> dest + 4 * k)"
  shows "copy_data src dest edata mem (dest + 4 * i) = mem (src + 4 * i)"
  using assms
proof (induction src dest edata mem arbitrary: i rule: copy_data.induct)
  case (1 src dest edata mem)
  let ?m = "mem(dest := mem src)"
  have lt: "dest < edata" using "1.prems"(1) by simp
  have eq: "copy_data src dest edata mem = copy_data (src + 4) (dest + 4) edata ?m"
    using lt by (simp add: copy_data.simps [of src dest])
  show ?case
  proof (cases i)
    case 0
    have "copy_data (src + 4) (dest + 4) edata ?m dest = ?m dest" by (rule copy_data_outside) simp
    then show ?thesis using 0 by (simp add: eq)
  next
    case (Suc j)
    have dis: "src + 4 * j' \<noteq> dest + 4 * k" if "dest + 4 * j' < edata" "dest + 4 * k < edata" for j' k
      using "1.prems"(2) that by blast
    have "copy_data (src + 4) (dest + 4) edata ?m (dest + 4 + 4 * j) = ?m (src + 4 + 4 * j)"
    proof (rule "1.IH" [OF lt])
      show "dest + 4 + 4 * j < edata" using "1.prems"(1) Suc by simp
      show "\<forall>j. dest + 4 + 4 * j < edata \<longrightarrow>
          (\<forall>k. dest + 4 + 4 * k < edata \<longrightarrow> src + 4 + 4 * j \<noteq> dest + 4 + 4 * k)"
      proof (intro allI impI)
        fix j k assume "dest + 4 + 4 * j < edata" "dest + 4 + 4 * k < edata"
        with dis [of "Suc j" "Suc k"] show "src + 4 + 4 * j \<noteq> dest + 4 + 4 * k" by simp
      qed
    qed
    moreover have "src + 4 + 4 * j \<noteq> dest" using dis [of "Suc j" 0] "1.prems"(1) Suc lt by simp
    ultimately show ?thesis using Suc by (simp add: eq add.assoc)
  qed
qed

lemma zero_bss_result:
  "zero_bss dest ebss mem b = (if \<exists>i. b = dest + 4 * i \<and> b < ebss then 0 else mem b)"
proof (induction dest ebss mem rule: zero_bss.induct)
  case (1 dest ebss mem)
  show ?case
  proof (cases "dest < ebss")
    case True
    have iff: "(\<exists>i. b = dest + 4 * i \<and> b < ebss) \<longleftrightarrow> b = dest \<or> (\<exists>i. b = dest + 4 + 4 * i \<and> b < ebss)"
      (is "?l = ?r")
    proof
      assume ?l
      then obtain i where "b = dest + 4 * i" "b < ebss" by blast
      then show ?r by (cases i) auto
    next
      show "?r \<Longrightarrow> ?l" using True by (auto intro: exI [of _ 0] exI [of _ "Suc _"])
    qed
    have "zero_bss dest ebss mem b = zero_bss (dest + 4) ebss (mem(dest := 0)) b"
      using True by (subst zero_bss.simps) simp
    also have "\<dots> = (if \<exists>i. b = dest + 4 + 4 * i \<and> b < ebss then 0 else (mem(dest := 0)) b)"
      by (rule 1 [OF True])
    finally show ?thesis unfolding iff by (cases "b = dest") auto
  next
    case False
    then show ?thesis by (auto simp: zero_bss.simps [of dest ebss])
  qed
qed

text \<open>
  The generator is a linear congruence with multiplier a congruent to 1 modulo 4: its n-th state
  is \<open>a^n * r + (1 + a + ... + a^(n-1))\<close>, and the sum is divisible by exactly the powers of two
  that divide n.
\<close>

definition geom :: "nat \<Rightarrow> nat" where
  "geom n = (\<Sum>i<n. 22695477 ^ i)"

lemma geom_double: "geom (2 * m) = geom m * (1 + 22695477 ^ m)"
proof -
  have "geom (m + k) = geom m + 22695477 ^ m * geom k" for k
    by (induction k) (simp_all add: geom_def power_add algebra_simps)
  from this [of m] show ?thesis unfolding mult_2 by (simp add: algebra_simps)
qed

lemma geom_Suc: "geom (Suc m) = 1 + 22695477 * geom m"
  by (induction m) (simp_all add: geom_def algebra_simps)

lemma mult_mod4: "(22695477 :: nat) ^ m mod 4 = 1"
  by (induction m) (simp_all add: mod_mult_eq [symmetric, of 22695477])

lemma geom_odd: "odd (geom (Suc (2 * m)))"
proof -
  have "even (geom (2 * m))"
    using mult_mod4 [of m] by (simp add: geom_double)
  then show ?thesis by (simp add: geom_Suc)
qed

lemma geom_dvd: "2 ^ k dvd geom n \<longleftrightarrow> 2 ^ k dvd n"
proof (induction k arbitrary: n)
  case (Suc k)
  show ?case
  proof (cases "even n")
    case True
    then obtain m where m: "n = 2 * m" by (elim evenE)
    obtain q where q: "1 + (22695477 :: nat) ^ m = 2 * q" "odd q"
    proof -
      have "\<exists>q. 1 + y = 2 * q \<and> odd q" if "y mod 4 = 1" for y :: nat
        using that by presburger
      from this [OF mult_mod4 [of m]] show ?thesis using that by blast
    qed
    have "2 ^ Suc k dvd geom n \<longleftrightarrow> 2 ^ k dvd geom m * q"
      unfolding m geom_double q(1) by simp
    also have "\<dots> \<longleftrightarrow> 2 ^ k dvd geom m"
      using q(2) by (simp add: coprime_dvd_mult_left_iff)
    finally show ?thesis using Suc by (simp add: m)
  next
    case False
    then obtain m where m: "n = Suc (2 * m)" by (metis oddE Suc_eq_plus1)
    with geom_odd [of m] False show ?thesis by (auto dest: dvd_mult_left)
  qed
qed simp

lemma rand_iterate:
  "((\<lambda>r. snd (uxRand r)) ^^ n) r = of_nat (22695477 ^ n) * r + of_nat (geom n)"
proof (induction n)
  case (Suc n)
  then show ?case by (simp add: uxRand_def Let_def geom_Suc algebra_simps)
qed (simp add: geom_def)

lemma geom_closed: "22695477 ^ n = Suc (22695476 * geom n)"
  by (induction n) (simp_all add: geom_def algebra_simps)

lemma of_nat_eq_0_u32: "(of_nat m :: u32) = 0 \<longleftrightarrow> 2 ^ 32 dvd m"
  using word_of_nat_eq_0_iff [where 'a = 32, of m] by simp

section \<open>Properties\<close>

text \<open>C34: the reset handler initialises memory: every word of the data section has the value its
  image in flash had, every word of bss is zero, and every other word is unchanged, when the flash
  image and bss do not overlap the data section.\<close>

theorem reset_initialises_memory:
  assumes "\<forall>a. sdata \<le> a \<longrightarrow> a < edata \<longrightarrow> \<not> (sidata \<le> a \<and> a < sidata + (edata - sdata)) \<and> \<not> (sbss \<le> a \<and> a < ebss)"
  shows "(\<forall>i. sdata + 4 * i < edata \<longrightarrow>
      Reset_Handler sidata sdata edata sbss ebss mem (sdata + 4 * i) = mem (sidata + 4 * i)) \<and>
    (\<forall>i. sbss + 4 * i < ebss \<longrightarrow> Reset_Handler sidata sdata edata sbss ebss mem (sbss + 4 * i) = 0) \<and>
    (\<forall>a. \<not> (sdata \<le> a \<and> a < edata) \<longrightarrow> \<not> (sbss \<le> a \<and> a < ebss) \<longrightarrow>
      Reset_Handler sidata sdata edata sbss ebss mem a = mem a)"
proof (intro conjI allI impI)
  fix i assume i: "sdata + 4 * i < edata"
  have "copy_data sidata sdata edata mem (sdata + 4 * i) = mem (sidata + 4 * i)"
  proof (rule copy_data_word [OF i], intro allI impI)
    fix j k assume "sdata + 4 * j < edata" "sdata + 4 * k < edata"
    note jk = this
    show "sidata + 4 * j \<noteq> sdata + 4 * k"
    proof
      assume eq: "sidata + 4 * j = sdata + 4 * k"
      then have "sidata \<le> sdata + 4 * k \<and> sdata + 4 * k < sidata + (edata - sdata)"
        using jk by linarith
      with assms jk(2) show False by (metis le_add1)
    qed
  qed
  then show "Reset_Handler sidata sdata edata sbss ebss mem (sdata + 4 * i) = mem (sidata + 4 * i)"
    using i assms by (auto simp: Reset_Handler_def zero_bss_result)
next
  fix i assume "sbss + 4 * i < ebss"
  then show "Reset_Handler sidata sdata edata sbss ebss mem (sbss + 4 * i) = 0"
    by (auto simp: Reset_Handler_def zero_bss_result)
next
  fix a assume "\<not> (sdata \<le> a \<and> a < edata)" "\<not> (sbss \<le> a \<and> a < ebss)"
  then show "Reset_Handler sidata sdata edata sbss ebss mem a = mem a"
    by (auto simp: Reset_Handler_def zero_bss_result copy_data_outside)
qed

theorem reset_initialises_memory_witness:
  "Reset_Handler 0 536870912 536870920 536870920 536870928 (\<lambda>a. of_nat a) 536870916 = 4"
  using reset_initialises_memory [of 536870912 536870920 0 536870920 536870928 "\<lambda>a. of_nat a"]
  by (auto dest!: spec [of _ "1 :: nat"])

text \<open>The pseudo random generator of uxRand() has the full period: from any seed, the state
  returns to the seed after n calls exactly when n is a multiple of 2^32.\<close>

theorem uxRand_full_period:
  "((\<lambda>r. snd (uxRand r)) ^^ n) r = r \<longleftrightarrow> 4294967296 dvd n"
proof -
  let ?v = "22695476 * unat r + 1"
  have "((\<lambda>r. snd (uxRand r)) ^^ n) r - r = of_nat (geom n * ?v)"
    by (simp add: rand_iterate geom_closed algebra_simps)
  then have "((\<lambda>r. snd (uxRand r)) ^^ n) r = r \<longleftrightarrow> (of_nat (geom n * ?v) :: u32) = 0"
    by (metis eq_iff_diff_eq_0)
  also have "\<dots> \<longleftrightarrow> 2 ^ 32 dvd geom n * ?v"
    by (rule of_nat_eq_0_u32)
  also have "\<dots> \<longleftrightarrow> 2 ^ 32 dvd geom n"
    by (rule coprime_dvd_mult_left_iff) (simp only: coprime_power_left_iff coprime_left_2_iff_odd, simp)
  also have "\<dots> \<longleftrightarrow> 2 ^ 32 dvd n"
    by (rule geom_dvd)
  finally show ?thesis by simp
qed

text \<open>_sbrk() hands out memory from the bottom of the heap upwards and never beyond its top: a
  request of incr bytes either succeeds, returning the old end and moving the end up by incr, or
  fails with -1 and leaves the end where it was, in which case incr bytes do not fit.\<close>

theorem sbrk_blocks:
  assumes "0 < heap_bottom" and "heap_bottom \<le> heap_top" and "heap_top \<le> 0x80000000"
    and "heap_end = 0 \<or> heap_bottom \<le> heap_end \<and> heap_end \<le> heap_top"
    and "0 \<le> incr" and "incr < 0x80000000"
    and "sys_sbrk heap_bottom heap_top incr heap_end = (p, heap_end')"
  shows "heap_bottom \<le> heap_end' \<and> heap_end' \<le> heap_top \<and>
    (if p = - 1 then heap_end' = (if heap_end = 0 then heap_bottom else heap_end) \<and> uint heap_top < uint heap_end' + incr
     else p = (if heap_end = 0 then heap_bottom else heap_end) \<and> uint heap_end' = uint p + incr)"
proof -
  let ?h = "if heap_end = 0 then heap_bottom else heap_end"
  have h: "heap_bottom \<le> ?h" "?h \<le> heap_top" "?h \<le> 0x80000000" "?h \<noteq> 0"
    using assms(1-4) by (auto simp: word_neq_0_conv)
  have ih: "uint ?h \<le> 0x80000000" using h(3) by (simp add: word_le_def)
  have sum: "uint (?h + word_of_int incr) = uint ?h + incr"
    using ih assms(5,6) uint_ge_0 [of ?h] by (simp add: uint_word_ariths uint_word_of_int)
  have p: "p = - 1 \<longleftrightarrow> heap_top < ?h + word_of_int incr"
  proof -
    have top: "uint heap_top \<le> 0x80000000" using assms(3) by (simp add: word_le_def)
    have m1: "uint (- 1 :: u32) = 4294967295" by (simp add: unsigned_minus_1_eq_mask mask_eq_exp_minus_1)
    show ?thesis
      using m1 assms(7) top ih uint_lt2p [of "?h + word_of_int incr"]
      by (auto simp: sys_sbrk_def Let_def word_less_def word_le_def split: if_splits)
  qed
  show ?thesis
    using assms(2,7) h(1,2) sum p assms(5)
    by (auto simp: sys_sbrk_def Let_def word_less_def word_le_def split: if_splits)
qed
theorem sbrk_blocks_witness:
  "0x20000000 \<le> snd (sys_sbrk 0x20000000 0x20400000 64 0) \<and>
   snd (sys_sbrk 0x20000000 0x20400000 64 0) \<le> 0x20400000"
  using sbrk_blocks [of "0x20000000" "0x20400000" 0 64 "fst (sys_sbrk 0x20000000 0x20400000 64 0)"
      "snd (sys_sbrk 0x20000000 0x20400000 64 0)"]
  by simp

end
