(* ===== verification/Boot.thy ===== *)
theory Boot
  imports Board
begin

text \<open>
  From main() to the client task: main() and the kernel's hooks of src/src/main.c, and
  main_udp_ntp_tasks() of src/src/main_networking.c with the event hook of Board.thy. The kernel
  and the network stack are not code of the repository; what the program asks of them is the list
  of the calls it makes, with their arguments, and what they do is an argument: the network
  events the stack reports once the scheduler runs, and the values a debugger gives to a volatile
  variable.
\<close>

section \<open>Configuration\<close>

definition ucIPAddress :: "u8 list" where
  "ucIPAddress = [172, 21, 0, 3]"

definition ucNetMask :: "u8 list" where
  "ucNetMask = [255, 255, 0, 0]"

definition ucGatewayAddress :: "u8 list" where
  "ucGatewayAddress = [172, 21, 0, 1]"

definition ucDNSServerAddress :: "u8 list" where
  "ucDNSServerAddress = [1, 1, 1, 1]"

definition ucMACAddress :: "u8 list" where
  "ucMACAddress = [0x52, 0x54, 0x00, 0x12, 0x34, 0xAD]"

definition ETHERNET_IRQn :: nat where
  "ETHERNET_IRQn = 13"

definition configMAC_INTERRUPT_PRIORITY :: nat where
  "configMAC_INTERRUPT_PRIORITY = 5"

section \<open>The main program\<close>

text \<open>
  The calls of the kernel and the stack. An end point gets its address, network mask, gateway,
  name server and hardware address, in this order.
\<close>

datatype kernel_call =
    NVIC_SetPriority nat nat
  | pxMPS2_FillInterfaceDescriptor nat
  | FreeRTOS_FillEndPoint "u8 list" "u8 list" "u8 list" "u8 list" "u8 list"
  | Copy_MAC_address "u8 list"
  | FreeRTOS_IPInit_Multi
  | FreeRTOS_IPInit "u8 list" "u8 list" "u8 list" "u8 list" "u8 list"
  | vTaskStartScheduler

record boot =
  ulNextRand :: u32
  kernel_calls :: "kernel_call list"
  hooks :: hook_state

definition call :: "kernel_call \<Rightarrow> boot \<Rightarrow> boot" where
  "call k b = b\<lparr>kernel_calls := kernel_calls b @ [k]\<rparr>"

text \<open>
  The preprocessor's choice between the two interfaces of the stack is the argument \<open>multi\<close>. DHCP
  is off.
\<close>

definition init_network :: "bool \<Rightarrow> boot \<Rightarrow> boot" where
  "init_network multi b =
     (if multi
      then call FreeRTOS_IPInit_Multi
             (call (Copy_MAC_address ucMACAddress)
               (call (FreeRTOS_FillEndPoint ucIPAddress ucNetMask ucGatewayAddress ucDNSServerAddress
                        ucMACAddress)
                 (call (pxMPS2_FillInterfaceDescriptor 0) b)))
      else call (FreeRTOS_IPInit ucIPAddress ucNetMask ucGatewayAddress ucDNSServerAddress ucMACAddress) b)"

text \<open>
  The scheduler runs the tasks; the task of the stack calls the event hook for each event. Whether
  the scheduler returns or not, main_udp_ntp_tasks() does not: an endless loop follows.
\<close>

definition run_scheduler :: "net_event list \<Rightarrow> boot \<Rightarrow> boot" where
  "run_scheduler events b =
     (call vTaskStartScheduler b)\<lparr>hooks := fold vApplicationIPNetworkEventHook events (hooks b)\<rparr>"

definition main_udp_ntp_tasks ::
    "bool \<Rightarrow> int \<Rightarrow> net_event list \<Rightarrow> boot \<Rightarrow> boot \<times> unit outcome" where
  "main_udp_ntp_tasks multi xTimeNow events b =
     (let b = b\<lparr>ulNextRand := snd (prvMiscInitialisation xTimeNow (ulNextRand b))\<rparr>;
          b = call (NVIC_SetPriority ETHERNET_IRQn configMAC_INTERRUPT_PRIORITY) b;
          b = init_network multi b;
          b = run_scheduler events b
      in (b, Inl (Hang Idle_Loop)))"

definition main :: "bool \<Rightarrow> int \<Rightarrow> net_event list \<Rightarrow> boot \<Rightarrow> boot \<times> int outcome" where
  "main multi xTimeNow events b =
     (let (b, r) = main_udp_ntp_tasks multi xTimeNow events b
      in (b, bind_r r (\<lambda>u. Inr 0)))"

text \<open>The zeroed memory main() starts in.\<close>

definition boot_zero :: boot where
  "boot_zero = \<lparr>ulNextRand = 0, kernel_calls = [],
     hooks = \<lparr>xTasksAlreadyCreated = False, client_tasks = 0\<rparr>\<rparr>"

section \<open>The hooks of the kernel\<close>

text \<open>
  The processor as the hooks see it: whether interrupts are on, and how deep the critical sections
  are nested. The result of a hook is that state and whether it returns.
\<close>

record cpu =
  interrupts_on :: bool
  critical_nesting :: nat

definition vApplicationMallocFailedHook :: "cpu \<Rightarrow> cpu \<times> unit outcome" where
  "vApplicationMallocFailedHook m = (m\<lparr>interrupts_on := False\<rparr>, Inl (Hang Idle_Loop))"

definition vApplicationStackOverflowHook :: "ptr \<Rightarrow> string \<Rightarrow> cpu \<Rightarrow> cpu \<times> unit outcome" where
  "vApplicationStackOverflowHook pxTask pcTaskName m = (m\<lparr>interrupts_on := False\<rparr>, Inl (Hang Idle_Loop))"

definition vApplicationIdleHook :: "cpu \<Rightarrow> cpu \<times> unit outcome" where
  "vApplicationIdleHook m = (m, Inr ())"

definition vApplicationTickHook :: "cpu \<Rightarrow> cpu \<times> unit outcome" where
  "vApplicationTickHook m = (m, Inr ())"

text \<open>
  The assertion's loop: \<open>looping i\<close> is what the i-th read of the volatile variable gives, zero unless
  a debugger has written to it. The result is the number of the read that ended the loop.
\<close>

partial_function (option) assert_loop :: "(nat \<Rightarrow> u32) \<Rightarrow> nat \<Rightarrow> nat option" where
  "assert_loop looping i = (if looping i = 0 then assert_loop looping (Suc i) else Some i)"

definition vAssertCalled :: "(nat \<Rightarrow> u32) \<Rightarrow> cpu \<Rightarrow> cpu \<times> unit outcome" where
  "vAssertCalled looping m =
     (let m = m\<lparr>interrupts_on := False, critical_nesting := Suc (critical_nesting m)\<rparr>
      in case assert_loop looping 0 of
           None \<Rightarrow> (m, Inl (Hang Assert_Loop))
         | Some i \<Rightarrow>
             (m\<lparr>critical_nesting := critical_nesting m - 1,
                interrupts_on := (critical_nesting m - 1 = 0)\<rparr>, Inr ()))"

section \<open>Lemmas\<close>

lemma hook_fold_created:
  "xTasksAlreadyCreated h \<Longrightarrow> fold vApplicationIPNetworkEventHook events h = h"
  by (induction events) (auto simp: vApplicationIPNetworkEventHook_def)

lemma hook_fold_fresh:
  assumes "\<not> xTasksAlreadyCreated h"
  shows "fold vApplicationIPNetworkEventHook events h =
    (if eNetworkUp \<in> set events
     then h\<lparr>client_tasks := Suc (client_tasks h), xTasksAlreadyCreated := True\<rparr> else h)"
  using assms
proof (induction events)
  case (Cons x events)
  have up: "vApplicationIPNetworkEventHook eNetworkUp h =
      h\<lparr>client_tasks := Suc (client_tasks h), xTasksAlreadyCreated := True\<rparr>"
    and down: "vApplicationIPNetworkEventHook eNetworkDown h = h"
    using Cons.prems
    by (simp_all add: vApplicationIPNetworkEventHook_def vStartNTPClientTasks_SingleTasks_def)
  show ?case using Cons by (cases x) (simp_all add: up down hook_fold_created)
qed simp

lemma assert_loop_stops: "i \<le> n \<Longrightarrow> looping n \<noteq> 0 \<Longrightarrow> assert_loop looping i \<noteq> None"
proof (induction "n - i" arbitrary: i)
  case 0
  then show ?case by (subst assert_loop.simps) simp
next
  case (Suc k)
  show ?case
  proof (cases "looping i = 0")
    case True
    then have "Suc i \<le> n" using Suc.hyps(2) by simp
    then have "assert_loop looping (Suc i) \<noteq> None" using Suc by simp
    then show ?thesis using True by (subst assert_loop.simps) simp
  next
    case False
    then show ?thesis by (subst assert_loop.simps) simp
  qed
qed

lemma assert_loop_result:
  assumes "assert_loop looping i = Some j"
  shows "i \<le> j \<and> looping j \<noteq> 0"
proof -
  have "(\<lambda>looping i j. i \<le> j \<and> looping j \<noteq> 0) looping i j"
  proof (rule assert_loop.raw_induct [OF _ assms])
    fix f :: "(nat \<Rightarrow> u32) \<Rightarrow> nat \<Rightarrow> nat option" and looping i j
    assume "\<And>looping i j. f looping i = Some j \<Longrightarrow> i \<le> j \<and> looping j \<noteq> 0"
      and "(if looping i = 0 then f looping (Suc i) else Some i) = Some j"
    then show "i \<le> j \<and> looping j \<noteq> 0" by (cases "looping i = 0") (auto dest: Suc_leD)
  qed
  then show ?thesis by simp
qed

section \<open>Properties\<close>

text \<open>C33: start-up asks the kernel and the network stack for exactly these calls, in this order: the
  priority of interrupt 13 is set to 5, the network is initialised with the address 172.21.0.3, the
  mask 255.255.0.0, the gateway 172.21.0.1, the name server 1.1.1.1 and the hardware address
  52:54:00:12:34:AD (through the interface of several end points or through the one of a single end
  point, as configured), and only then is the scheduler started, once. Whatever sequence of network
  events follows, the client task is created exactly once if the network comes up at least once,
  however often it goes down and comes up again, and not at all otherwise.\<close>

theorem client_created_once:
  "kernel_calls (fst (main multi xTimeNow events boot_zero)) =
     [NVIC_SetPriority 13 5] @
     (if multi
      then [pxMPS2_FillInterfaceDescriptor 0,
            FreeRTOS_FillEndPoint [172, 21, 0, 3] [255, 255, 0, 0] [172, 21, 0, 1] [1, 1, 1, 1]
              [0x52, 0x54, 0x00, 0x12, 0x34, 0xAD],
            Copy_MAC_address [0x52, 0x54, 0x00, 0x12, 0x34, 0xAD], FreeRTOS_IPInit_Multi]
      else [FreeRTOS_IPInit [172, 21, 0, 3] [255, 255, 0, 0] [172, 21, 0, 1] [1, 1, 1, 1]
              [0x52, 0x54, 0x00, 0x12, 0x34, 0xAD]]) @
     [vTaskStartScheduler] \<and>
   client_tasks (hooks (fst (main multi xTimeNow events boot_zero))) =
     (if eNetworkUp \<in> set events then 1 else 0) \<and>
   xTasksAlreadyCreated (hooks (fst (main multi xTimeNow events boot_zero))) = (eNetworkUp \<in> set events)"
  by (simp add: main_def main_udp_ntp_tasks_def run_scheduler_def init_network_def call_def
      boot_zero_def Let_def hook_fold_fresh ETHERNET_IRQn_def configMAC_INTERRUPT_PRIORITY_def
      ucIPAddress_def ucNetMask_def ucGatewayAddress_def ucDNSServerAddress_def ucMACAddress_def)

text \<open>
  The interrupt whose priority is set before the interface is initialised is the one whose entry of
  the vector table, after the sixteen system exceptions, is the handler of the Ethernet interface.
\<close>

theorem ethernet_vector:
  "hd (kernel_calls (fst (main multi xTimeNow events boot_zero))) =
     NVIC_SetPriority ETHERNET_IRQn configMAC_INTERRUPT_PRIORITY \<and>
   isr_vector ! (16 + ETHERNET_IRQn) = Some EthernetISR"
  by (simp add: main_def main_udp_ntp_tasks_def run_scheduler_def init_network_def call_def
      boot_zero_def Let_def isr_vector_def ETHERNET_IRQn_def nth_append)

text \<open>
  A failed assertion stops the program inside a critical section unless a debugger writes to the
  variable: vAssertCalled() returns exactly when some read of it is not zero, and then leaves the
  nesting of critical sections as it was.
\<close>

theorem assert_returns_iff:
  "(snd (vAssertCalled looping m) = Inr () \<longleftrightarrow> (\<exists>n. looping n \<noteq> 0)) \<and>
   critical_nesting (fst (vAssertCalled looping m)) =
     (if \<exists>n. looping n \<noteq> 0 then critical_nesting m else Suc (critical_nesting m))"
proof (cases "assert_loop looping 0")
  case None
  then have "\<not> (\<exists>n. looping n \<noteq> 0)" using assert_loop_stops by blast
  with None show ?thesis by (simp add: vAssertCalled_def)
next
  case (Some i)
  then have "\<exists>n. looping n \<noteq> 0" using assert_loop_result by blast
  with Some show ?thesis by (simp add: vAssertCalled_def Let_def)
qed

end
