(* ===== verification/Sqrt.thy ===== *)
theory Sqrt
  imports TDMG_Types
begin

text \<open>
  The program's own sqrt(): a bisection in double arithmetic that ends when the bracket is not
  wider than 0.00001. The loop may run forever (on an infinite argument it does), so it is a
  partial function. The lemmas show that it returns for every argument between 0 and \<open>2 ^ 68\<close>,
  which covers the squares of 32-bit second counts the program sums, and that the result lies in
  a bracket of the exact root.
\<close>

section \<open>The bisection\<close>

definition sqrt_precision :: dbl where
  "sqrt_precision = flt (1 / 100000)"

partial_function (option) sqrt_loop :: "dbl \<Rightarrow> dbl \<Rightarrow> dbl \<Rightarrow> (dbl \<times> dbl) option" where
  "sqrt_loop number low high =
     (if sqrt_precision < high - low
      then (let mid = low + (high - low) / flt 2
            in if mid * mid < number then sqrt_loop number mid high
               else sqrt_loop number low mid)
      else Some (low, high))"

definition c_sqrt :: "dbl \<Rightarrow> dbl outcome" where
  "c_sqrt number =
     (case sqrt_loop number (Fin 0) (if number < flt 1 then flt 1 else number) of
        None \<Rightarrow> Inl (Hang Sqrt_Loop)
      | Some (low, high) \<Rightarrow> Inr ((low + high) / flt 2))"

lemma le_Fin_less_PInf: "x \<le> Fin a \<Longrightarrow> x < PInf"
  by (cases x) (simp_all add: less_dbl_def less_eq_dbl_def)

text \<open>On an infinite argument every step repeats the same bracket.\<close>

lemma sqrt_loop_PInf: "sqrt_loop PInf (Fin 0) PInf = None"
proof (rule ccontr)
  assume "sqrt_loop PInf (Fin 0) PInf \<noteq> None"
  then obtain r where ret: "sqrt_loop PInf (Fin 0) PInf = Some r" by auto
  have "(PInf, Fin 0, PInf) \<noteq> (PInf, Fin 0, PInf)"
  proof (rule sqrt_loop.raw_induct [where P = "\<lambda>n l h r. (n, l, h) \<noteq> (PInf, Fin 0, PInf)", OF _ ret])
    fix f :: "dbl \<Rightarrow> dbl \<Rightarrow> dbl \<Rightarrow> (dbl \<times> dbl) option" and n l h :: dbl and r
    assume IH: "\<And>n l h r. f n l h = Some r \<Longrightarrow> (n, l, h) \<noteq> (PInf, Fin 0, PInf)"
      and eq: "(if sqrt_precision < h - l
        then let mid = l + (h - l) / flt 2 in if mid * mid < n then f n mid h else f n l mid
        else Some (l, h)) = Some r"
    have p: "sqrt_precision < PInf"
    proof -
      have "sqrt_precision \<le> flt 1" unfolding sqrt_precision_def by (rule flt_mono) simp
      then show ?thesis by (simp add: le_Fin_less_PInf)
    qed
    show "(n, l, h) \<noteq> (PInf, Fin 0, PInf)"
    proof
      assume "(n, l, h) = (PInf, Fin 0, PInf)"
      then have "f PInf (Fin 0) PInf = Some r"
        using eq p by (simp add: minus_dbl_def divide_dbl_def plus_dbl_def times_dbl_def)
      then show False using IH by blast
    qed
  qed
  then show False by simp
qed

section \<open>Representable reals form a grid\<close>

lemma repr_multiple:
  assumes "repr x"
  obtains k q where "x = of_int k * 2 powi q" and "- 1074 \<le> q" and "\<bar>k\<bar> \<le> 2 ^ 53"
proof (cases "x = 0")
  case True
  then show ?thesis using that [of 0 0] by simp
next
  case False
  let ?q = "ulpexp x" and ?k = "rne (x / 2 powi (ulpexp x))"
  have "x = of_int ?k * 2 powi ?q"
    using assms False by (simp add: repr_def rnd_def)
  moreover have "- 1074 \<le> ?q" by (simp add: ulpexp_def)
  moreover have "\<bar>?k\<bar> \<le> 2 ^ 53"
  proof (cases "0 < x")
    case True
    then have "0 \<le> ?k" "?k \<le> 2 ^ 53"
      using scaled_lt [OF True] by (auto intro!: rne_le_int rne_ge_int)
    then show ?thesis by simp
  next
    case neg: False
    with False have pos: "0 < - x" by simp
    have "0 \<le> - x / 2 powi ?q"
      using pos by (intro divide_nonneg_pos) simp_all
    then have "0 \<le> rne (- x / 2 powi ?q)" "rne (- x / 2 powi ?q) \<le> 2 ^ 53"
      using scaled_lt [OF pos] by (auto intro!: rne_le_int rne_ge_int)
    then show ?thesis by (simp add: rne_minus)
  qed
  ultimately show ?thesis by (rule that)
qed

lemma pow2_add: "(2::real) powi a * 2 powi b = 2 powi (a + b)"
  by (rule power_int_add [symmetric]) simp

lemma repr_grid: "repr x \<Longrightarrow> \<exists>k. x = of_int k * 2 powi (- 1074)"
proof (erule repr_multiple)
  fix k q assume x: "x = of_int k * 2 powi q" and q: "- 1074 \<le> q"
  have "(2::real) powi q = 2 powi (q + 1074) * 2 powi (- 1074)"
    by (simp only: pow2_add) simp
  also have "(2::real) powi (q + 1074) = of_int (2 ^ nat (q + 1074))"
    using q by (simp add: power_int_def)
  finally have "x = of_int (k * 2 ^ nat (q + 1074)) * 2 powi (- 1074)"
    using x by simp
  then show ?thesis by blast
qed

lemma repr_scaled_le:
  assumes "\<bar>k\<bar> \<le> 2 ^ 53" and "- 1074 \<le> q"
  shows "repr (of_int k * 2 powi q)"
proof (cases "\<bar>k\<bar> = 2 ^ 53")
  case True
  then have "k = 2 ^ 53 \<or> k = - (2 ^ 53)" by linarith
  then obtain s :: int where s: "k = s * 2 ^ 53" "\<bar>s\<bar> = 1" by fastforce
  then have "of_int k * (2::real) powi q = of_int s * 2 powi (53 + q)"
    by (simp add: power_int_add)
  also have "repr \<dots>" using s assms by (intro repr_scaled) simp_all
  finally show ?thesis .
next
  case False
  with assms show ?thesis by (intro repr_scaled) simp_all
qed

lemma repr_double: "repr x \<Longrightarrow> repr (2 * x)"
proof (erule repr_multiple)
  fix k q assume x: "x = of_int k * 2 powi q" and q: "- 1074 \<le> q" and k: "\<bar>k\<bar> \<le> 2 ^ 53"
  have "2 * x = of_int k * 2 powi (q + 1)" by (simp add: x power_int_add)
  also have "repr \<dots>" using k q by (intro repr_scaled_le) simp_all
  finally show ?thesis .
qed

lemma repr_half:
  assumes "repr x" and "2 powi (- 1000) \<le> \<bar>x\<bar>"
  shows "repr (x / 2)"
  using assms(1)
proof (rule repr_multiple)
  fix k q assume x: "x = of_int k * 2 powi q" and q: "- 1074 \<le> q" and k: "\<bar>k\<bar> \<le> 2 ^ 53"
  show ?thesis
  proof (cases "q = - 1074")
    case True
    have "\<bar>of_int k :: real\<bar> \<le> 2 powi 53"
      using k by (metis of_int_abs of_int_le_numeral_power_cancel_iff power_int_numeral)
    then have "\<bar>of_int k :: real\<bar> * 2 powi (- 1074) \<le> 2 powi 53 * 2 powi (- 1074)"
      by (rule mult_right_mono) (rule less_imp_le [OF pow2_pos])
    then have "\<bar>x\<bar> \<le> 2 powi 53 * 2 powi (- 1074)"
      by (simp only: x True abs_mult abs_of_pos [OF pow2_pos])
    also have "\<dots> = 2 powi (- 1021)" by (simp only: pow2_add) simp
    also have "\<dots> < (2::real) powi (- 1000)" by (simp only: pow2_less_iff)
    finally show ?thesis using assms(2) by simp
  next
    case False
    have "x / 2 = of_int k * 2 powi (q - 1)" by (simp add: x power_int_diff)
    also have "repr \<dots>" using k q False by (intro repr_scaled_le) simp_all
    finally show ?thesis .
  qed
qed

text \<open>The rounding error is at most one part in \<open>2 ^ 53\<close> for values that are not subnormal.\<close>

lemma rnd_error:
  assumes "2 powi (- 1000) \<le> x"
  shows "\<bar>rnd x - x\<bar> \<le> x / 2 ^ 53"
proof -
  have pos: "0 < x" using assms pow2_pos [of "- 1000"] by linarith
  let ?q = "ulpexp x"
  have "(2::real) powi (- 1000) < 2 powi (binexp x + 1)"
    using binexp_bounds [OF pos] assms by linarith
  then have q: "?q = binexp x - 52"
    using pos by (simp only: pow2_less_iff) (simp add: ulpexp_def)
  let ?y = "x / 2 powi ?q"
  have "rnd x - x = (of_int (rne ?y) - ?y) * 2 powi ?q"
    using pos by (simp add: rnd_def left_diff_distrib)
  then have "\<bar>rnd x - x\<bar> = \<bar>of_int (rne ?y) - ?y\<bar> * 2 powi ?q"
    by (simp add: abs_mult)
  also have "\<dots> \<le> 1 / 2 * 2 powi ?q"
    using rne_error by (intro mult_right_mono) simp_all
  also have "\<dots> = 2 powi (binexp x) / 2 ^ 53"
    unfolding q by (simp add: power_int_diff power_int_add)
  also have "\<dots> \<le> x / 2 ^ 53"
    using binexp_bounds [OF pos] by (intro divide_right_mono) simp_all
  finally show ?thesis .
qed

section \<open>One step of the bisection\<close>

lemma precision_lower: "Fin (5 / 524288) \<le> sqrt_precision"
proof -
  have "flt (of_int 5 * 2 powi (- 19)) = Fin (of_int 5 * 2 powi (- 19))"
    by (rule flt_dyadic) simp_all
  then have "flt (5 / 524288) = Fin (5 / 524288)"
    using pow2_neg [of 19] by simp
  moreover have "flt (5 / 524288) \<le> sqrt_precision"
    unfolding sqrt_precision_def by (rule flt_mono) simp
  ultimately show ?thesis by simp
qed

lemma repr_guard: "repr (5 / 524288)"
  using repr_scaled [of 5 "- 19"] pow2_neg [of 19] by simp

lemma pow2_m1000_small: "(2::real) powi (- 1000) \<le> 5 / 524288"
proof -
  have "(2::real) powi (- 1000) \<le> 2 powi (- 18)" by (simp only: pow2_le_iff)
  also have "\<dots> \<le> 5 / 524288" using pow2_neg [of 18] by simp
  finally show ?thesis .
qed

lemma flt_bounded: "\<bar>x\<bar> \<le> 2 ^ 200 \<Longrightarrow> flt x = Fin (rnd x)"
proof -
  assume x: "\<bar>x\<bar> \<le> 2 ^ 200"
  have "rnd (2 ^ 200) = 2 ^ 200"
    using repr_scaled [of 1 200] by (simp add: repr_def)
  then have "\<bar>rnd x\<bar> \<le> 2 ^ 200"
    using x by (rule b64.R_abs_upper)
  moreover have "(2::real) ^ 200 < 2 ^ 1000" by (rule power_strict_increasing) simp_all
  ultimately have "\<bar>rnd x\<bar> < ovf" using ovf_gt by linarith
  then show ?thesis by (auto simp: flt_def Let_def)
qed

text \<open>Between two values at least \<open>2 ^ -18\<close> apart lies a representable multiple of \<open>2 ^ -18\<close>.\<close>

lemma grid_point:
  fixes x :: real
  assumes "0 \<le> x" and "x \<le> 2 ^ 35"
  shows "repr (of_int \<lfloor>x * 262144\<rfloor> / 262144)" and "repr (of_int \<lceil>x * 262144\<rceil> / 262144)"
proof -
  have *: "repr (of_int k / 262144)" if "\<bar>k\<bar> \<le> 2 ^ 53" for k
    using repr_scaled_le [OF that, of "- 18"] pow2_neg [of 18] by simp
  have "0 \<le> x * 262144" "x * 262144 \<le> 2 ^ 53" using assms by simp_all
  then have "0 \<le> \<lfloor>x * 262144\<rfloor> \<and> \<lfloor>x * 262144\<rfloor> \<le> 2 ^ 53 \<and> 0 \<le> \<lceil>x * 262144\<rceil> \<and> \<lceil>x * 262144\<rceil> \<le> 2 ^ 53"
    by (simp add: floor_le_iff ceiling_le_iff le_ceiling_iff)
  then show "repr (of_int \<lfloor>x * 262144\<rfloor> / 262144)" "repr (of_int \<lceil>x * 262144\<rceil> / 262144)"
    by (intro *; simp)+
qed

lemma rnd_strictly_between:
  assumes "0 \<le> l" and "h \<le> 2 ^ 35" and "l + 1 / 262144 \<le> x" and "x + 1 / 262144 \<le> h"
  shows "l < rnd x" and "rnd x < h"
proof -
  have x: "0 \<le> x" "x \<le> 2 ^ 35" using assms by linarith+
  let ?g = "of_int \<lfloor>x * 262144\<rfloor> / 262144 :: real"
  and ?k = "of_int \<lceil>x * 262144\<rceil> / 262144 :: real"
  have "of_int \<lfloor>x * 262144\<rfloor> \<le> x * 262144" "x * 262144 < of_int \<lfloor>x * 262144\<rfloor> + 1"
    "x * 262144 \<le> of_int \<lceil>x * 262144\<rceil>" "of_int \<lceil>x * 262144\<rceil> < x * 262144 + 1"
    by linarith+
  then have g: "?g \<le> x" "x - 1 / 262144 < ?g" and k: "x \<le> ?k" "?k < x + 1 / 262144"
    by (simp_all add: field_simps)
  have "?g \<le> rnd x" "rnd x \<le> ?k"
    using grid_point [OF x] g(1) k(1) unfolding repr_def
    by (blast intro: b64.R_lower b64.R_upper)+
  then show "l < rnd x" "rnd x < h" using g k assms by linarith+
qed

lemma sqrt_step:
  assumes l: "repr l" "0 \<le> l" "l \<le> h" and h: "repr h" "h \<le> 2 ^ 69" and small: "l = 0 \<or> h \<le> 2 ^ 35"
    and guard: "sqrt_precision < Fin h - Fin l"
  obtains m where "Fin l + (Fin h - Fin l) / flt 2 = Fin m" and "repr m" and "l < m" and "m < h"
    and "l = 0 \<Longrightarrow> h = 2 * m"
proof -
  let ?d = "rnd (h - l)"
  have big: "\<bar>h - l\<bar> \<le> 2 ^ 200" "\<bar>h\<bar> \<le> 2 ^ 200" using l h by simp_all
  have diff: "Fin h - Fin l = Fin ?d" using big by (simp add: flt_bounded)
  have "Fin (5 / 524288) < Fin ?d"
    using precision_lower guard unfolding diff by (rule dbl_le_less_trans)
  then have d: "5 / 524288 < ?d" by simp
  have hl: "5 / 524288 < h - l"
    by (rule b64.R_greater_exact [OF repr_guard [unfolded repr_def] d])
  have "?d \<le> h"
    using h l by (intro b64.R_upper) (simp_all add: repr_def)
  have half: "repr (?d / 2)"
    using d pow2_m1000_small by (intro repr_half) simp_all
  moreover have "\<bar>?d / 2\<bar> \<le> 2 ^ 200" using \<open>?d \<le> h\<close> d h by simp
  ultimately have "flt (?d / 2) = Fin (?d / 2)"
    by (simp only: flt_bounded repr_def)
  then have "Fin ?d / flt 2 = Fin (?d / 2)" by simp
  then have mid: "Fin l + (Fin h - Fin l) / flt 2 = Fin (rnd (l + ?d / 2))"
    using \<open>?d \<le> h\<close> d l h by (simp add: diff flt_bounded)
  show ?thesis
  proof (cases "l = 0")
    case True
    then have "?d = h" using h by (simp add: repr_def)
    then have "rnd (l + ?d / 2) = h / 2" using half True by (simp add: repr_def)
    then show ?thesis
      using that [of "rnd (l + ?d / 2)"] mid d True \<open>?d = h\<close> half by simp
  next
    case False
    with small have h35: "h \<le> 2 ^ 35" by simp
    have "\<bar>?d - (h - l)\<bar> \<le> (h - l) / 2 ^ 53"
      using hl pow2_m1000_small by (intro rnd_error) linarith
    moreover have "(h - l) / 2 ^ 53 \<le> (h - l) / 100"
      using hl by (intro divide_left_mono) simp_all
    ultimately have "\<bar>?d - (h - l)\<bar> \<le> (h - l) / 100" by (rule order_trans)
    then have e: "?d - (h - l) \<le> (h - l) / 100" "(h - l) - ?d \<le> (h - l) / 100"
      by (simp_all only: abs_le_iff minus_diff_eq)
    have "1 / 262144 \<le> ?d / 2" "?d / 2 + 1 / 262144 \<le> h - l"
      using e hl by (simp_all add: field_simps)
    then have "l + 1 / 262144 \<le> l + ?d / 2" "l + ?d / 2 + 1 / 262144 \<le> h"
      by simp_all
    then have "l < rnd (l + ?d / 2)" "rnd (l + ?d / 2) < h"
      using rnd_strictly_between l(2) h35 by blast+
    then show ?thesis using that [of "rnd (l + ?d / 2)"] mid False by simp
  qed
qed

section \<open>The loop ends\<close>

definition grid_steps :: "real \<Rightarrow> real \<Rightarrow> nat" where
  "grid_steps a b = nat \<lfloor>(b - a) / 2 powi (- 1074)\<rfloor>"

lemma grid_steps_decrease:
  assumes "repr a" "repr b" "repr a'" "repr b'" and "a' \<le> b'" and lt: "b' - a' < b - a"
  shows "grid_steps a' b' < grid_steps a b"
proof -
  obtain j k j' k' where eqs: "a = of_int j * 2 powi (- 1074)" "b = of_int k * 2 powi (- 1074)"
    "a' = of_int j' * 2 powi (- 1074)" "b' = of_int k' * 2 powi (- 1074)"
    using assms(1-4) repr_grid by meson
  define u where "u = (2::real) powi (- 1074)"
  have u: "0 < u" by (simp add: u_def)
  have e: "a = of_int j * u" "b = of_int k * u" "a' = of_int j' * u" "b' = of_int k' * u"
    by (simp_all only: eqs u_def)
  have "of_int (k' - j') * u < of_int (k - j) * u"
    using lt by (simp add: e left_diff_distrib)
  then have 1: "k' - j' < k - j"
    using u by (simp only: mult_less_cancel_right_pos of_int_less_iff)
  have "of_int j' * u \<le> of_int k' * u" using assms(5) by (simp add: e)
  then have 2: "j' \<le> k'" using u by simp
  have "(b - a) / u = of_int (k - j)" "(b' - a') / u = of_int (k' - j')"
    using u by (simp_all add: e field_simps)
  then show ?thesis
    unfolding grid_steps_def u_def [symmetric] using 1 2 by (simp only: floor_of_int nat_less_eq_zless)
qed

lemma sqrt_loop_returns:
  assumes "repr n" "n \<le> 2 ^ 68"
    and "repr l" "0 \<le> l" "l \<le> h" "repr h" "h \<le> 2 ^ 69" "l = 0 \<or> h \<le> 2 ^ 35"
    and "l * l \<le> n" "n \<le> rnd (h * h)"
  shows "\<exists>l' h'. sqrt_loop (Fin n) (Fin l) (Fin h) = Some (Fin l', Fin h') \<and>
    repr l' \<and> repr h' \<and> 0 \<le> l' \<and> l' \<le> h' \<and> h' \<le> 2 ^ 69 \<and> l' * l' \<le> n \<and> n \<le> rnd (h' * h') \<and>
    \<not> sqrt_precision < Fin h' - Fin l'"
  using assms
proof (induction "grid_steps l h" arbitrary: l h rule: less_induct)
  case less
  show ?case
  proof (cases "sqrt_precision < Fin h - Fin l")
    case False
    then show ?thesis
      using less.prems by (subst sqrt_loop.simps) auto
  next
    case True
    obtain m where m: "Fin l + (Fin h - Fin l) / flt 2 = Fin m" "repr m" "l < m" "m < h"
      and half: "l = 0 \<Longrightarrow> h = 2 * m"
      using sqrt_step [OF less.prems(3-8) True] by metis
    have "\<bar>m\<bar> \<le> 2 ^ 69" using m less.prems by simp
    then have "\<bar>m * m\<bar> \<le> 2 ^ 69 * 2 ^ 69" unfolding abs_mult by (intro mult_mono) simp_all
    then have mm: "Fin m * Fin m = Fin (rnd (m * m))"
      by (simp add: flt_bounded)
    have unfold: "sqrt_loop (Fin n) (Fin l) (Fin h) =
      (if rnd (m * m) < n then sqrt_loop (Fin n) (Fin m) (Fin h)
       else sqrt_loop (Fin n) (Fin l) (Fin m))"
      by (subst sqrt_loop.simps) (simp only: if_P [OF True] Let_def m(1) mm dbl_fin_ops(5))
    show ?thesis
    proof (cases "rnd (m * m) < n")
      case low: True
      have lt: "m * m < n"
        using low less.prems(1) by (auto intro: b64.R_less_exact simp: repr_def)
      have "m \<le> 2 ^ 34"
      proof (rule ccontr)
        assume "\<not> m \<le> 2 ^ 34"
        then have "(2 ^ 34) * (2 ^ 34) \<le> m * m" by (intro mult_mono) simp_all
        with lt less.prems(2) show False by simp
      qed
      then have "h \<le> 2 ^ 35" using half less.prems(8) by auto
      moreover have "grid_steps m h < grid_steps l h"
        using m less.prems by (intro grid_steps_decrease) simp_all
      ultimately show ?thesis
        using less.hyps [of m h] less.prems m lt low by (simp add: unfold)
    next
      case False
      have "grid_steps l m < grid_steps l h"
        using m less.prems by (intro grid_steps_decrease) simp_all
      then show ?thesis
        using less.hyps [of l m] less.prems m False by (auto simp: unfold)
    qed
  qed
qed

lemma c_sqrt_brackets:
  assumes n: "repr n" "0 \<le> n" "n \<le> 2 ^ 68"
  shows "\<exists>r l h. c_sqrt (Fin n) = Inr (Fin r) \<and> 0 \<le> l \<and> l \<le> r \<and> r \<le> h \<and>
    l * l \<le> n \<and> n \<le> rnd (h * h) \<and> h \<le> 2 ^ 69 \<and> \<not> sqrt_precision < Fin h - Fin l"
proof -
  let ?h = "if n < 1 then 1 else n"
  have h: "(if Fin n < flt 1 then flt 1 else Fin n) = Fin ?h" by simp
  have "repr ?h" using n repr_int [of 1] by simp
  moreover have "n \<le> ?h * ?h"
    using n by (auto simp: not_less mult_le_cancel_left1)
  then have "n \<le> rnd (?h * ?h)"
    using n by (auto intro: b64.R_lower simp: repr_def)
  moreover have "repr 0" by (simp add: repr_def)
  moreover have "0 \<le> ?h" "?h \<le> 2 ^ 69" using n by simp_all
  moreover have "0 * 0 \<le> n" using n by simp
  ultimately obtain l' h' where ret: "sqrt_loop (Fin n) (Fin 0) (Fin ?h) = Some (Fin l', Fin h')"
    and res: "repr l'" "repr h'" "0 \<le> l'" "l' \<le> h'" "h' \<le> 2 ^ 69" "l' * l' \<le> n" "n \<le> rnd (h' * h')"
      "\<not> sqrt_precision < Fin h' - Fin l'"
    using sqrt_loop_returns [of n 0 ?h, OF n(1,3)] by blast
  let ?s = "rnd (l' + h')"
  have s: "2 * l' \<le> ?s" "?s \<le> 2 * h'"
    using res repr_double [of l'] repr_double [of h']
    by (auto intro!: b64.R_lower b64.R_upper simp: repr_def)
  have "\<bar>l' + h'\<bar> \<le> 2 ^ 200" "\<bar>?s / 2\<bar> \<le> 2 ^ 200" using res s by simp_all
  then have "flt (l' + h') = Fin ?s" "flt (?s / 2) = Fin (rnd (?s / 2))"
    by (simp_all only: flt_bounded)
  then have sum: "(Fin l' + Fin h') / flt 2 = Fin (rnd (?s / 2))"
    by simp
  have "l' \<le> rnd (?s / 2)" "rnd (?s / 2) \<le> h'"
    using res s by (auto intro!: b64.R_lower b64.R_upper simp: repr_def)
  moreover have "c_sqrt (Fin n) = Inr (Fin (rnd (?s / 2)))"
    unfolding c_sqrt_def h ret using sum by simp
  ultimately show ?thesis using res by blast
qed

lemma c_sqrt_returns:
  assumes "repr n" "0 \<le> n" "n \<le> 2 ^ 68"
  obtains r where "c_sqrt (Fin n) = Inr (Fin r)" and "0 \<le> r"
  using c_sqrt_brackets [OF assms] by (meson order_trans)

text \<open>
  On an argument that is not above zero every comparison sends the bisection to the lower half,
  so the bracket is halved from 1 until it is below the precision.
\<close>

lemma flt_inv_pow2: "k \<le> 100 \<Longrightarrow> flt (1 / 2 ^ k) = Fin (1 / 2 ^ k)"
  using flt_dyadic [of 1 "- int k"] pow2_neg [of "int k"] by simp

lemma sqrt_loop_low:
  assumes x: "\<And>a. 0 \<le> a \<Longrightarrow> \<not> Fin a < x" and k: "k \<le> 17"
  shows "\<exists>h. 0 \<le> h \<and> h \<le> 1 \<and> repr h \<and> sqrt_loop x (Fin 0) (Fin (1 / 2 ^ k)) = Some (Fin 0, Fin h)"
  using k
proof (induction "17 - k" arbitrary: k)
  case 0
  then have "k = 17" by simp
  have "Fin (1 / 131072) < Fin (5 / 524288)" by simp
  then have "\<not> sqrt_precision < Fin (1 / 131072)"
    using precision_lower dbl_less_le_trans dbl_less_not_sym by blast
  moreover have "Fin (1 / 131072) - Fin 0 = Fin (1 / 131072)"
    using flt_inv_pow2 [of 17] by simp
  moreover have "repr (1 / 131072)"
    using repr_scaled [of 1 "- 17"] pow2_neg [of 17] by simp
  ultimately show ?case
    using \<open>k = 17\<close> by (subst sqrt_loop.simps) (auto intro!: exI [of _ "1 / 131072"])
next
  case (Suc j)
  let ?h = "1 / 2 ^ k :: real"
  have d: "Fin ?h - Fin 0 = Fin ?h"
    using flt_inv_pow2 [of k] Suc.prems by simp
  have m: "Fin 0 + Fin ?h / flt 2 = Fin (1 / 2 ^ Suc k)"
    using flt_inv_pow2 [of "Suc k"] Suc.prems by (simp add: field_simps)
  have "\<exists>h. 0 \<le> h \<and> h \<le> 1 \<and> repr h \<and> sqrt_loop x (Fin 0) (Fin (1 / 2 ^ Suc k)) = Some (Fin 0, Fin h)"
    using Suc by (intro Suc.hyps(1)) simp_all
  moreover have "repr ?h"
    using repr_scaled [of 1 "- int k"] pow2_neg [of "int k"] Suc.prems by simp
  moreover have "Fin (1 / 2 ^ Suc k) * Fin (1 / 2 ^ Suc k) < x \<longleftrightarrow> False"
  proof -
    have "(1::real) \<le> 2 ^ Suc k" by (rule one_le_power) simp
    then have q: "\<bar>1 / 2 ^ Suc k :: real\<bar> \<le> 1" by (simp del: power_Suc)
    then have "\<bar>(1 / 2 ^ Suc k) * (1 / 2 ^ Suc k) :: real\<bar> \<le> 1 * 1"
      unfolding abs_mult by (intro mult_mono) simp_all
    also have "(1 * 1 :: real) \<le> 2 ^ 200" by simp
    finally have "Fin (1 / 2 ^ Suc k) * Fin (1 / 2 ^ Suc k) = Fin (rnd ((1 / 2 ^ Suc k) * (1 / 2 ^ Suc k)))"
      by (simp only: dbl_fin_ops flt_bounded)
    then show ?thesis using x [of "rnd ((1 / 2 ^ Suc k) * (1 / 2 ^ Suc k))"] by (simp add: rnd_nonneg)
  qed
  moreover have "0 \<le> ?h" "?h \<le> 1" by (simp_all add: divide_le_eq_1)
  ultimately show ?case
    by (subst sqrt_loop.simps) (simp only: d m Let_def if_False if_True split: if_split, blast)
qed

lemma c_sqrt_low:
  assumes "\<And>a. 0 \<le> a \<Longrightarrow> \<not> Fin a < x" and "x < flt 1"
  shows "\<exists>r. c_sqrt x = Inr (Fin r) \<and> 0 \<le> r \<and> r \<le> 1"
proof -
  obtain h where h: "0 \<le> h" "h \<le> 1" "repr h"
    and ret: "sqrt_loop x (Fin 0) (Fin (1 / 2 ^ 0)) = Some (Fin 0, Fin h)"
    using sqrt_loop_low [OF assms(1), of 0] by auto
  have "flt h = Fin h" and b: "\<bar>h / 2\<bar> \<le> 2 ^ 200"
    using h by (simp_all add: flt_bounded repr_def)
  then have "(Fin 0 + Fin h) / flt 2 = Fin (rnd (h / 2))"
    by (simp add: flt_bounded [OF b])
  moreover have "0 \<le> rnd (h / 2)" "rnd (h / 2) \<le> 1"
    using h repr_int [of 1] by (auto intro!: rnd_nonneg b64.R_upper simp: repr_def)
  ultimately show ?thesis
    using ret assms(2) by (simp add: c_sqrt_def)
qed

lemma c_sqrt_NaN: "c_sqrt NaN = Inr NaN"
proof -
  have "\<not> sqrt_precision < NaN - Fin 0" by (simp add: minus_dbl_def)
  then have "sqrt_loop NaN (Fin 0) NaN = Some (Fin 0, NaN)"
    by (subst sqrt_loop.simps) (simp del: dbl_nan_cmp)
  then show ?thesis by (simp add: c_sqrt_def plus_dbl_def divide_dbl_def)
qed

text \<open>The routine returns unless its argument is above \<open>2 ^ 68\<close>, and hangs on infinity.\<close>

lemma c_sqrt_total:
  assumes "wfd x" and "x = NaN \<or> x \<le> Fin (2 ^ 68)"
  obtains r where "c_sqrt x = Inr r" and "r = NaN \<or> 0 \<le> r"
proof (cases x)
  case (Fin n)
  then have n: "repr n" "n \<le> 2 ^ 68" using assms by auto
  show thesis
  proof (cases "0 \<le> n")
    case True
    from c_sqrt_returns [OF n(1) True n(2)] Fin that show thesis
      by (metis dbl_fin_ops(6) zero_dbl_def)
  next
    case False
    then have "\<exists>r. c_sqrt x = Inr (Fin r) \<and> 0 \<le> r \<and> r \<le> 1"
      using Fin by (intro c_sqrt_low) simp_all
    then show thesis using that by (metis dbl_fin_ops(6) zero_dbl_def)
  qed
next
  case NInf
  have "\<exists>r. c_sqrt x = Inr (Fin r) \<and> 0 \<le> r \<and> r \<le> 1"
    unfolding NInf by (intro c_sqrt_low) (simp_all add: less_dbl_def)
  then show thesis using that by (metis dbl_fin_ops(6) zero_dbl_def)
next
  case PInf
  then show thesis using assms by (simp add: less_eq_dbl_def)
next
  case NaN
  then show thesis using that c_sqrt_NaN by blast
qed

lemma c_sqrt_PInf: "c_sqrt PInf = Inl (Hang Sqrt_Loop)"
proof -
  have "\<not> PInf < Fin 1" by (simp add: less_dbl_def)
  then show ?thesis by (simp add: c_sqrt_def sqrt_loop_PInf)
qed

section \<open>Accuracy\<close>

lemma exit_width:
  assumes "\<not> sqrt_precision < Fin h - Fin l" and "\<bar>h - l\<bar> \<le> 2 ^ 100"
  shows "h - l \<le> 1 / 99999"
proof (rule ccontr)
  assume "\<not> h - l \<le> 1 / 99999"
  then have gt: "1 / 99999 \<le> h - l" by simp
  have t: "(2::real) powi (- 1000) \<le> 1 / 100000" "(2::real) powi (- 1000) \<le> 1 / 99999"
    using pow2_m1000_small pow2_le_iff [of "- 1000" "- 20"] pow2_neg [of 20] by simp_all
  have "rnd (1 / 100000) \<le> 1 / 100000 + 1 / 100000 / 2 ^ 53"
    using rnd_error [OF t(1)] by linarith
  also have "\<dots> < 1 / 99999 - 1 / 99999 / 2 ^ 53" by simp
  also have "\<dots> \<le> rnd (1 / 99999)"
    using rnd_error [OF t(2)] by linarith
  also have "\<dots> \<le> rnd (h - l)" using gt by (rule rnd_mono)
  finally have lt: "rnd (1 / 100000) < rnd (h - l)" .
  have "(2::real) ^ 100 \<le> 2 ^ 200" by (rule power_increasing) simp_all
  then have "\<bar>h - l\<bar> \<le> 2 ^ 200" using assms(2) by linarith
  then have "Fin h - Fin l = Fin (rnd (h - l))" by (simp only: dbl_fin_ops flt_bounded)
  moreover have "sqrt_precision = Fin (rnd (1 / 100000))"
    unfolding sqrt_precision_def by (rule flt_bounded) simp
  ultimately have "\<not> Fin (rnd (1 / 100000)) < Fin (rnd (h - l))" using assms(1) by metis
  with lt show False by simp
qed

lemma sqrt_upper:
  assumes "0 \<le> n" and "0 \<le> h" and "n \<le> rnd (h * h)"
  shows "sqrt n \<le> h + h / 2 ^ 50 \<or> sqrt n \<le> 1 / 1000000"
proof (cases "2 powi (- 1000) \<le> h * h")
  case True
  then have "n \<le> h * h + h * h / 2 ^ 53"
    using rnd_error [OF True] assms by linarith
  also have "\<dots> \<le> (h + h / 2 ^ 50) * (h + h / 2 ^ 50)"
  proof -
    have "h * h * (1 + 1 / 2 ^ 53) \<le> h * h * ((1 + 1 / 2 ^ 50) * (1 + 1 / 2 ^ 50))"
      using assms(2) by (intro mult_left_mono) simp_all
    then show ?thesis by (simp add: algebra_simps)
  qed
  finally have "n \<le> (h + h / 2 ^ 50)\<^sup>2" by (simp only: power2_eq_square)
  moreover have "0 \<le> h + h / 2 ^ 50" using assms(2) by simp
  ultimately have "sqrt n \<le> h + h / 2 ^ 50" by (rule real_le_lsqrt [rotated])
  then show ?thesis ..
next
  case False
  have "repr (2 powi (- 1000))" using repr_scaled [of 1 "- 1000"] by simp
  then have "rnd (2 powi (- 1000)) = 2 powi (- 1000)" by (simp only: repr_def)
  moreover have "h * h \<le> 2 powi (- 1000)" using False by (meson linear)
  ultimately have "rnd (h * h) \<le> 2 powi (- 1000)" by (rule b64.R_upper)
  also have "(2::real) powi (- 1000) \<le> 2 powi (- 40)" by (simp only: pow2_le_iff)
  also have "(2::real) powi (- 40) \<le> (1 / 1000000)\<^sup>2"
    using pow2_neg [of 40] by (simp add: power2_eq_square)
  finally have "n \<le> (1 / 1000000)\<^sup>2" using assms(3) by linarith
  then have "sqrt n \<le> 1 / 1000000" by (rule real_le_lsqrt [rotated]) simp
  then show ?thesis ..
qed

text \<open>C12: sqrt() returns for every double from 0 up to 2 ^ 68, and its result is within
  1 / 99999 (the bracket's width of a hundred-thousandth, with its roundings) and a relative
  2 ^ -50 (for large arguments) of the exact root.\<close>

theorem sqrt_accurate:
  assumes "repr n" and "0 \<le> n" and "n \<le> 2 ^ 68"
  shows "\<exists>r. c_sqrt (Fin n) = Inr (Fin r) \<and> \<bar>r - sqrt n\<bar> \<le> 1 / 99999 + sqrt n / 2 ^ 50"
proof -
  obtain r l h where ret: "c_sqrt (Fin n) = Inr (Fin r)"
    and b: "0 \<le> l" "l \<le> r" "r \<le> h" "l * l \<le> n" "n \<le> rnd (h * h)" "h \<le> 2 ^ 69"
      "\<not> sqrt_precision < Fin h - Fin l"
    using c_sqrt_brackets [OF assms] by blast
  have "h \<le> 2 ^ 100" using b(6) by (rule order_trans) (rule power_increasing, simp_all)
  then have w: "h - l \<le> 1 / 99999" using exit_width [OF b(7)] b by simp
  have lo: "l \<le> sqrt n" using b by (intro real_le_rsqrt) (simp add: power2_eq_square)
  have s0: "0 \<le> sqrt n" "0 \<le> sqrt n / 2 ^ 50" using assms by simp_all
  from sqrt_upper [OF assms(2) _ b(5)] b
  consider "sqrt n \<le> h + h / 2 ^ 50" | "sqrt n \<le> 1 / 1000000" by auto
  then have "sqrt n - r \<le> 1 / 99999 + sqrt n / 2 ^ 50"
  proof cases
    case 1
    show ?thesis
    proof (cases "sqrt n \<le> h")
      case True
      then show ?thesis using w b s0 by linarith
    next
      case False
      then have "h / 2 ^ 50 \<le> sqrt n / 2 ^ 50" by (intro divide_right_mono) simp_all
      then show ?thesis using 1 w b by linarith
    qed
  next
    case 2
    then show ?thesis using b s0 by linarith
  qed
  moreover have "r - sqrt n \<le> 1 / 99999 + sqrt n / 2 ^ 50" using lo w b s0 by linarith
  ultimately have "\<bar>r - sqrt n\<bar> \<le> 1 / 99999 + sqrt n / 2 ^ 50" by linarith
  with ret show ?thesis by blast
qed

theorem sqrt_accurate_witness:
  "\<exists>r. c_sqrt (Fin 9) = Inr (Fin r) \<and> \<bar>r - 3\<bar> \<le> 1 / 99999 + 3 / 2 ^ 50"
proof -
  have "sqrt 9 = (3 :: real)" using real_sqrt_abs [of 3] by simp
  moreover have "repr 9" using repr_int [of 9] by simp
  ultimately show ?thesis using sqrt_accurate [of 9] by simp
qed

text \<open>The call sqrt() has no result for infinity: every step of the bisection repeats the bracket from
  0 to infinity. For not-a-number, and for every finite double up to 2 ^ 68 (negative ones
  included) it returns.\<close>

theorem sqrt_termination:
  "c_sqrt PInf = Inl (Hang Sqrt_Loop) \<and> c_sqrt NaN = Inr NaN \<and>
   (\<forall>x. wfd x \<and> x \<le> Fin (2 ^ 68) \<longrightarrow> (\<exists>r. c_sqrt x = Inr r))"
  using c_sqrt_PInf c_sqrt_NaN by (metis c_sqrt_total)

theorem sqrt_termination_witness: "\<exists>r. c_sqrt (Fin 4) = Inr r"
proof -
  have "wfd (Fin 4) \<and> Fin 4 \<le> Fin (2 ^ 68)"
    using repr_int [of 4] small_lt_ovf [of 4] by simp
  then show ?thesis using sqrt_termination by blast
qed

end
