(* ===== verification/Platform.thy ===== *)
theory Platform
  imports Timestamps Sqrt
begin

text \<open>
  The state the client keeps and the platform it runs on. The record \<open>world\<close> holds the globals of
  src/src/NTPTask.c (the system structure s, the clock structure c, the association table, the
  server address, the destination address), the static variable of poll_update(), the heap of
  associations, how often each device was read, and the packets sent. The record \<open>env\<close> holds what
  is not code of the repository: the tick counter, the socket, random(), calloc(), the mutex, the
  byte-order macro, qsort(), and the values C leaves open (an uninitialised variable, a load
  through the null pointer, an out-of-range conversion or shift). Every operation takes the
  environment as an argument, so a theorem holds for whatever the platform supplies.

  The heap is a map from addresses to associations, with the operations \<open>load\<close> and \<open>store\<close>. A
  load through the null pointer reads the memory at address 0, which the target has; a store
  through it ends the run. The association table is itself reached through a null pointer in the
  source (\<open>assoc_table\<close> is never allocated); its two fields are kept as \<open>w_peers\<close> and \<open>w_size\<close>.
\<close>

section \<open>World and environment\<close>

record world =
  w_s :: ntp_s
  w_c :: ntp_c
  w_heap :: "nat \<Rightarrow> ntp_p option"
  w_brk :: nat
  w_peers :: "ptr list"
  w_size :: int
  w_ip :: u32
  w_dest :: u32
  w_last_nextdate :: dbl
  w_ticks :: nat
  w_recvs :: nat
  w_rands :: nat
  w_sems :: nat
  w_sent :: "(u32 \<times> ntp_packet) list"

record env =
  e_tick :: "nat \<Rightarrow> u32"
  e_recvfrom :: "nat \<Rightarrow> int \<times> ntp_packet"
  e_random :: "nat \<Rightarrow> int"
  e_calloc :: "nat \<Rightarrow> bool"
  e_sem :: "nat \<Rightarrow> bool"
  e_htonl :: "u32 \<Rightarrow> u32"
  e_qsort :: "(ntp_m \<Rightarrow> ntp_m \<Rightarrow> int) \<Rightarrow> ntp_m list \<Rightarrow> ntp_m list"
  e_null :: ntp_p
  e_found :: "world \<Rightarrow> int"
  e_state :: "world \<Rightarrow> int"
  e_x :: "world \<Rightarrow> ntp_x"
  e_shl :: "int \<Rightarrow> int"
  e_d2u32 :: "dbl \<Rightarrow> int"
  e_d2u64 :: "dbl \<Rightarrow> int"
  e_d2i32 :: "dbl \<Rightarrow> int"

abbreviation upd_s :: "(ntp_s \<Rightarrow> ntp_s) \<Rightarrow> world \<Rightarrow> world" where
  "upd_s f w \<equiv> w\<lparr>w_s := f (w_s w)\<rparr>"

abbreviation upd_c :: "(ntp_c \<Rightarrow> ntp_c) \<Rightarrow> world \<Rightarrow> world" where
  "upd_c f w \<equiv> w\<lparr>w_c := f (w_c w)\<rparr>"

section \<open>The initial state\<close>

text \<open>Static objects start with every byte zero, and so does what calloc() returns.\<close>

definition zero_f :: ntp_f where
  "zero_f = \<lparr>f_t = 0, f_offset = flt 0, f_delay = flt 0, f_disp = flt 0\<rparr>"

definition zero_p :: ntp_p where
  "zero_p = \<lparr>p_srcaddr = 0, p_dstaddr = 0, p_version = 0, p_hmode = 0, p_keyid = 0, p_flags = 0,
     p_leap = 0, p_pmode = 0, p_stratum = 0, p_ppoll = 0, p_rootdelay = flt 0, p_rootdisp = flt 0,
     p_refid = 0, p_reftime = 0, p_org = 0, p_rec = 0, p_xmt = 0, p_t = 0,
     p_f = replicate NSTAGE zero_f, p_offset = flt 0, p_delay = flt 0, p_disp = flt 0,
     p_jitter = flt 0, p_hpoll = 0, p_burst = 0, p_reach = 0, p_ttl = 0, p_unreach = 0,
     p_outdate = 0, p_nextdate = 0\<rparr>"

definition zero_m :: ntp_m where
  "zero_m = \<lparr>m_p = NULL, m_type = 0, m_edge = flt 0\<rparr>"

definition zero_v :: ntp_v where
  "zero_v = \<lparr>v_p = NULL, v_metric = flt 0\<rparr>"

definition zero_s :: ntp_s where
  "zero_s = \<lparr>s_t = 0, s_leap = 0, s_stratum = 0, s_poll = 0, s_precision = 0,
     s_rootdelay = flt 0, s_rootdisp = flt 0, s_refid = 0, s_reftime = 0,
     s_m = replicate (NMAX * 5) zero_m, s_v = replicate (NMAX * 5) zero_v, s_p = NULL,
     s_offset = flt 0, s_jitter = flt 0, s_flags = 0, s_n = 0\<rparr>"

definition zero_c :: ntp_c where
  "zero_c = \<lparr>c_localTime = 0, c_t = 0, c_state = 0, c_offset = flt 0, c_last = flt 0, c_count = 0,
     c_freq = flt 0, c_jitter = flt 0, c_wander = flt 0, c_lastTimeStampTick = 0\<rparr>"

definition boot_world :: world where
  "boot_world = \<lparr>w_s = zero_s, w_c = zero_c, w_heap = (\<lambda>a. None), w_brk = 0, w_peers = [],
     w_size = 0, w_ip = 0, w_dest = 0, w_last_nextdate = flt 0, w_ticks = 0, w_recvs = 0,
     w_rands = 0, w_sems = 0, w_sent = []\<rparr>"

section \<open>One platform\<close>

text \<open>
  A concrete platform, on which the properties with hypotheses are shown to apply: the byte-order
  macro of a little-endian target, a sort that calls the comparison function, a clock that
  advances 20 ticks at a reading, allocations that succeed, a socket that times out.
\<close>

definition byte_swap :: "u32 \<Rightarrow> u32" where
  "byte_swap x = push_bit 24 x OR push_bit 8 (x AND 65280) OR drop_bit 8 (x AND 16711680) OR drop_bit 24 x"

fun insert_by :: "('a \<Rightarrow> 'a \<Rightarrow> int) \<Rightarrow> 'a \<Rightarrow> 'a list \<Rightarrow> 'a list" where
  "insert_by cmp x [] = [x]"
| "insert_by cmp x (y # ys) = (if cmp x y \<le> 0 then x # y # ys else y # insert_by cmp x ys)"

definition sort_by :: "('a \<Rightarrow> 'a \<Rightarrow> int) \<Rightarrow> 'a list \<Rightarrow> 'a list" where
  "sort_by cmp xs = foldr (insert_by cmp) xs []"

definition zero_x :: ntp_x where
  "zero_x = \<lparr>x_srcaddr = 0, x_dstaddr = 0, x_version = 0, x_leap = 0, x_mode = 0, x_stratum = 0,
     x_poll = 0, x_precision = 0, x_rootdelay = 0, x_rootdisp = 0, x_refid = 0, x_reftime = 0,
     x_org = 0, x_rec = 0, x_xmt = 0, x_keyid = 0, x_dgst = 0\<rparr>"

definition zero_packet :: ntp_packet where
  "zero_packet = \<lparr>li_vn_mode = 0, k_stratum = 0, k_poll = 0, k_precision = 0, rootDelay = 0,
     rootDispersion = 0, refId = 0, refTm_s = 0, refTm_f = 0, origTm_s = 0, origTm_f = 0,
     rxTm_s = 0, rxTm_f = 0, txTm_s = 0, txTm_f = 0\<rparr>"

definition demo_env :: env where
  "demo_env = \<lparr>e_tick = (\<lambda>n. of_nat (20 * n)), e_recvfrom = (\<lambda>n. (0, zero_packet)),
     e_random = (\<lambda>n. int n), e_calloc = (\<lambda>n. True), e_sem = (\<lambda>n. True), e_htonl = byte_swap,
     e_qsort = sort_by, e_null = zero_p, e_found = (\<lambda>w. 0), e_state = (\<lambda>w. 0), e_x = (\<lambda>w. zero_x),
     e_shl = (\<lambda>n. 0), e_d2u32 = (\<lambda>x. 0), e_d2u64 = (\<lambda>x. 0), e_d2i32 = (\<lambda>x. 0)\<rparr>"

section \<open>The heap of associations\<close>

fun load :: "env \<Rightarrow> world \<Rightarrow> ptr \<Rightarrow> ntp_p outcome" where
  "load e w NULL = Inr (e_null e)"
| "load e w (Addr a) = (case w_heap w a of None \<Rightarrow> Inl Use_After_Free | Some p \<Rightarrow> Inr p)"

fun store :: "ptr \<Rightarrow> ntp_p \<Rightarrow> world \<Rightarrow> world outcome" where
  "store NULL p w = Inl Null_Store"
| "store (Addr a) p w =
     (case w_heap w a of None \<Rightarrow> Inl Use_After_Free
      | Some q \<Rightarrow> Inr (w\<lparr>w_heap := (w_heap w)(a \<mapsto> p)\<rparr>))"

definition modify :: "env \<Rightarrow> ptr \<Rightarrow> (ntp_p \<Rightarrow> ntp_p) \<Rightarrow> world \<Rightarrow> world outcome" where
  "modify e p f w = bind_r (load e w p) (\<lambda>q. store p (f q) w)"

fun free :: "ptr \<Rightarrow> world \<Rightarrow> world outcome" where
  "free NULL w = Inr w"
| "free (Addr a) w =
     (case w_heap w a of None \<Rightarrow> Inl Use_After_Free
      | Some q \<Rightarrow> Inr (w\<lparr>w_heap := (w_heap w)(a := None)\<rparr>))"

text \<open>A pointer is valid when it addresses a live association.\<close>

fun valid :: "world \<Rightarrow> ptr \<Rightarrow> bool" where
  "valid w NULL = False"
| "valid w (Addr a) = (w_heap w a \<noteq> None)"

definition peer :: "world \<Rightarrow> ptr \<Rightarrow> ntp_p" where
  "peer w p = (case p of Addr a \<Rightarrow> the (w_heap w a) | NULL \<Rightarrow> undefined)"

definition set_peer :: "ptr \<Rightarrow> ntp_p \<Rightarrow> world \<Rightarrow> world" where
  "set_peer p q w = (case p of Addr a \<Rightarrow> w\<lparr>w_heap := (w_heap w)(a \<mapsto> q)\<rparr> | NULL \<Rightarrow> w)"

lemma load_valid [simp]: "valid w p \<Longrightarrow> load e w p = Inr (peer w p)"
  by (cases p) (auto simp: peer_def)

lemma store_valid [simp]: "valid w p \<Longrightarrow> store p q w = Inr (set_peer p q w)"
  by (cases p) (auto simp: set_peer_def)

lemma modify_valid [simp]: "valid w p \<Longrightarrow> modify e p f w = Inr (set_peer p (f (peer w p)) w)"
  by (simp add: modify_def)

lemma store_Inr_iff: "store p q w = Inr w' \<longleftrightarrow> valid w p \<and> w' = set_peer p q w"
  by (cases p) (auto simp: set_peer_def split: option.splits)

lemma modify_Inr_iff:
  "modify e p f w = Inr w' \<longleftrightarrow> valid w p \<and> w' = set_peer p (f (peer w p)) w"
proof (cases "valid w p")
  case False
  then show ?thesis
    by (cases p) (auto simp: modify_def bind_r_Inr_conv store_Inr_iff split: option.splits)
qed auto

text \<open>
  The interface the operations rely on: cells that can be read and written, where a write changes
  the written cell and nothing else. The provider's laws are the locale's assumptions; the frame
  rules of the heap follow from them.
\<close>

locale cells =
  fixes ok :: "'w \<Rightarrow> 'p \<Rightarrow> bool" and get :: "'w \<Rightarrow> 'p \<Rightarrow> 'v" and put :: "'p \<Rightarrow> 'v \<Rightarrow> 'w \<Rightarrow> 'w"
  assumes get_put_same: "ok w p \<Longrightarrow> get (put p v w) p = v"
    and get_put_other: "q \<noteq> p \<Longrightarrow> get (put p v w) q = get w q"
    and ok_put: "ok w p \<Longrightarrow> ok (put p v w) q = ok w q"
begin

lemma get_put: "ok w p \<Longrightarrow> get (put p v w) q = (if q = p then v else get w q)"
  by (simp add: get_put_same get_put_other)

lemma put_all_invariant:
  assumes "ok w p" and "\<And>q. ok w q \<Longrightarrow> P (get w q)" and "P v" and "ok (put p v w) q"
  shows "P (get (put p v w) q)"
  using assms by (simp add: get_put ok_put)

lemma get_put_twice: "ok w p \<Longrightarrow> get (put p v (put p u w)) q = get (put p v w) q"
  by (simp add: get_put ok_put)

end

interpretation heap: cells valid peer set_peer
proof unfold_locales
  show "valid w p \<Longrightarrow> peer (set_peer p v w) p = v" for w p v
    by (cases p) (auto simp: peer_def set_peer_def)
  show "q \<noteq> p \<Longrightarrow> peer (set_peer p v w) q = peer w q" for w p q v
    by (cases p; cases q) (auto simp: peer_def set_peer_def)
  show "valid w p \<Longrightarrow> valid (set_peer p v w) q = valid w q" for w p q v
    by (cases p; cases q) (auto simp: set_peer_def)
qed

lemmas heap_simps [simp] = heap.get_put_same heap.get_put_other heap.ok_put

lemma set_peer_frame [simp]:
  "w_s (set_peer p q w) = w_s w" "w_c (set_peer p q w) = w_c w" "w_peers (set_peer p q w) = w_peers w"
  "w_size (set_peer p q w) = w_size w" "w_ip (set_peer p q w) = w_ip w"
  "w_dest (set_peer p q w) = w_dest w" "w_last_nextdate (set_peer p q w) = w_last_nextdate w"
  "w_ticks (set_peer p q w) = w_ticks w" "w_recvs (set_peer p q w) = w_recvs w"
  "w_rands (set_peer p q w) = w_rands w" "w_sems (set_peer p q w) = w_sems w"
  "w_sent (set_peer p q w) = w_sent w" "w_brk (set_peer p q w) = w_brk w"
  by (cases p; simp add: set_peer_def)+

text \<open>Validity and contents depend on the heap alone.\<close>

lemma valid_frame: "w_heap w = w_heap w' \<Longrightarrow> valid w p = valid w' p"
  by (cases p) simp_all

lemma peer_frame: "w_heap w = w_heap w' \<Longrightarrow> peer w p = peer w' p"
  by (cases p) (simp_all add: peer_def)

lemma heap_frame_upd [simp]:
  "valid (w\<lparr>w_s := a\<rparr>) p = valid w p" "peer (w\<lparr>w_s := a\<rparr>) p = peer w p"
  "valid (w\<lparr>w_c := b\<rparr>) p = valid w p" "peer (w\<lparr>w_c := b\<rparr>) p = peer w p"
  "valid (w\<lparr>w_last_nextdate := d\<rparr>) p = valid w p" "peer (w\<lparr>w_last_nextdate := d\<rparr>) p = peer w p"
  "valid (w\<lparr>w_ip := i\<rparr>) p = valid w p" "peer (w\<lparr>w_ip := i\<rparr>) p = peer w p"
  "valid (w\<lparr>w_dest := j\<rparr>) p = valid w p" "peer (w\<lparr>w_dest := j\<rparr>) p = peer w p"
  "valid (w\<lparr>w_ticks := n\<rparr>) p = valid w p" "peer (w\<lparr>w_ticks := n\<rparr>) p = peer w p"
  "valid (w\<lparr>w_sems := n\<rparr>) p = valid w p" "peer (w\<lparr>w_sems := n\<rparr>) p = peer w p"
  "valid (w\<lparr>w_recvs := n\<rparr>) p = valid w p" "peer (w\<lparr>w_recvs := n\<rparr>) p = peer w p"
  "valid (w\<lparr>w_sent := l\<rparr>) p = valid w p" "peer (w\<lparr>w_sent := l\<rparr>) p = peer w p"
  "valid (w\<lparr>w_peers := ps\<rparr>) p = valid w p" "peer (w\<lparr>w_peers := ps\<rparr>) p = peer w p"
  "valid (w\<lparr>w_size := i'\<rparr>) p = valid w p" "peer (w\<lparr>w_size := i'\<rparr>) p = peer w p"
  "valid (w\<lparr>w_rands := n\<rparr>) p = valid w p" "peer (w\<lparr>w_rands := n\<rparr>) p = peer w p"
  "valid (w\<lparr>w_brk := n\<rparr>) p = valid w p" "peer (w\<lparr>w_brk := n\<rparr>) p = peer w p"
  by (cases p; simp add: peer_def)+

end
