(* ===== verification/Clock.thy ===== *)
theory Clock
  imports Platform
begin

text \<open>
  The local time of the client: settime() and gettime() of src/src/NTP_TDMG.c, and the clock
  adjustment of src/src/NTP_main_utility.c (prv_update_localTime(), step_time(), adjust_time()).
  The local time is a 64-bit timestamp that gettime() carries forward by the ticks elapsed since
  it was last set. The properties relate the half-word arithmetic to 64-bit addition.
\<close>

section \<open>The operations\<close>

text \<open>xTaskGetTickCount(): one reading of the tick counter.\<close>

definition read_tick :: "env \<Rightarrow> world \<Rightarrow> u32 \<times> world" where
  "read_tick e w = (e_tick e (w_ticks w), w\<lparr>w_ticks := Suc (w_ticks w)\<rparr>)"

definition settime :: "env \<Rightarrow> tstamp \<Rightarrow> world \<Rightarrow> world" where
  "settime e newTime w =
     (let w = upd_c (\<lambda>c. c\<lparr>c_t := c_t c + 1, c_localTime := newTime\<rparr>) w;
          (tick, w) = read_tick e w
      in upd_c (\<lambda>c. c\<lparr>c_lastTimeStampTick := tick\<rparr>) w)"

text \<open>The milliseconds of a tick difference as a fraction: numMilliseconds * (FRAC / 1000).\<close>

definition ms_fraction :: "env \<Rightarrow> u32 \<Rightarrow> u32" where
  "ms_fraction e numMilliseconds =
     dbl_to_u32 (e_d2u32 e) (dbl_of_int (uint numMilliseconds) * (FRAC / dbl_of_int 1000))"

definition gettime :: "env \<Rightarrow> int \<Rightarrow> world \<Rightarrow> world" where
  "gettime e override w =
     (let (currentTick, w) = read_tick e w;
          c = w_c w;
          tickDifference = currentTick - c_lastTimeStampTick c
      in if tickDifference < 10 \<and> override = 0 then w
         else let numSecondsInTicks = tickDifference div 1000;
                  numMilliseconds = tickDifference mod 1000;
                  newFractions = ms_fraction e numMilliseconds;
                  currentFractions = lo32 (c_localTime c);
                  currentSeconds = hi32 (c_localTime c);
                  tempFractions = currentFractions + newFractions;
                  numSecondsInTicks =
                    (if tempFractions < currentFractions then numSecondsInTicks + 1
                     else numSecondsInTicks);
                  newSeconds = currentSeconds + numSecondsInTicks;
                  newTimeStamp = join32 newSeconds tempFractions
              in upd_c (\<lambda>c. c\<lparr>c_lastTimeStampTick := currentTick, c_localTime := newTimeStamp\<rparr>) w)"

text \<open>
  prv_update_localTime(): isAdjustment is 0 for a step and 1 for an adjustment. When the mutex is
  not obtained nothing changes.
\<close>

definition prv_update_localTime :: "env \<Rightarrow> dbl \<Rightarrow> int \<Rightarrow> world \<Rightarrow> world" where
  "prv_update_localTime e offset_seconds isAdjustment w =
     (let taken = e_sem e (w_sems w);
          w = w\<lparr>w_sems := Suc (w_sems w)\<rparr>
      in if \<not> taken then w
         else let currentFractions = lo32 (c_localTime (w_c w));
                  newFractions = lo32 (D2LFP (e_d2u64 e) offset_seconds);
                  currentSeconds = hi32 (c_localTime (w_c w));
                  (tempFractions, currentSeconds) =
                    (if isAdjustment \<noteq> 0
                     then let t = currentFractions + newFractions
                          in (t, if t < currentFractions then currentSeconds + 1 else currentSeconds)
                     else let t = currentFractions - newFractions
                          in (t, if currentFractions < t then currentSeconds - 1 else currentSeconds));
                  newTimeStamp = join32 currentSeconds tempFractions
              in upd_c (\<lambda>c. c\<lparr>c_localTime := newTimeStamp\<rparr>) w)"

definition step_time :: "env \<Rightarrow> dbl \<Rightarrow> world \<Rightarrow> world" where
  "step_time e offset w = prv_update_localTime e offset 0 w"

definition adjust_time :: "env \<Rightarrow> dbl \<Rightarrow> world \<Rightarrow> world" where
  "adjust_time e offset w = prv_update_localTime e offset 1 w"

section \<open>What they leave unchanged\<close>

lemma gettime_frame [simp]:
  "w_s (gettime e b w) = w_s w" "w_heap (gettime e b w) = w_heap w"
  "w_peers (gettime e b w) = w_peers w" "w_size (gettime e b w) = w_size w"
  "w_ip (gettime e b w) = w_ip w" "w_dest (gettime e b w) = w_dest w"
  "w_last_nextdate (gettime e b w) = w_last_nextdate w" "w_sent (gettime e b w) = w_sent w"
  "w_brk (gettime e b w) = w_brk w" "w_recvs (gettime e b w) = w_recvs w"
  by (simp_all add: gettime_def read_tick_def Let_def)

lemma gettime_c [simp]:
  "c_t (w_c (gettime e b w)) = c_t (w_c w)" "c_state (w_c (gettime e b w)) = c_state (w_c w)"
  "c_offset (w_c (gettime e b w)) = c_offset (w_c w)" "c_count (w_c (gettime e b w)) = c_count (w_c w)"
  "c_freq (w_c (gettime e b w)) = c_freq (w_c w)" "c_jitter (w_c (gettime e b w)) = c_jitter (w_c w)"
  "c_last (w_c (gettime e b w)) = c_last (w_c w)" "c_wander (w_c (gettime e b w)) = c_wander (w_c w)"
  by (simp_all add: gettime_def read_tick_def Let_def)

lemma update_localTime_frame [simp]:
  "w_s (prv_update_localTime e x b w) = w_s w" "w_heap (prv_update_localTime e x b w) = w_heap w"
  "w_peers (prv_update_localTime e x b w) = w_peers w"
  "w_size (prv_update_localTime e x b w) = w_size w"
  "w_ip (prv_update_localTime e x b w) = w_ip w"
  "w_dest (prv_update_localTime e x b w) = w_dest w"
  "w_last_nextdate (prv_update_localTime e x b w) = w_last_nextdate w"
  "w_sent (prv_update_localTime e x b w) = w_sent w"
  "w_brk (prv_update_localTime e x b w) = w_brk w"
  by (simp_all add: prv_update_localTime_def Let_def split: prod.splits)

lemma update_localTime_c [simp]:
  "c_t (w_c (prv_update_localTime e x b w)) = c_t (w_c w)"
  "c_state (w_c (prv_update_localTime e x b w)) = c_state (w_c w)"
  "c_offset (w_c (prv_update_localTime e x b w)) = c_offset (w_c w)"
  "c_count (w_c (prv_update_localTime e x b w)) = c_count (w_c w)"
  "c_freq (w_c (prv_update_localTime e x b w)) = c_freq (w_c w)"
  "c_jitter (w_c (prv_update_localTime e x b w)) = c_jitter (w_c w)"
  "c_last (w_c (prv_update_localTime e x b w)) = c_last (w_c w)"
  "c_wander (w_c (prv_update_localTime e x b w)) = c_wander (w_c w)"
  by (simp_all add: prv_update_localTime_def Let_def split: prod.splits)

lemmas clock_frames [frame_simps] = step_time_def adjust_time_def

section \<open>The millisecond fraction\<close>

lemma rnd_error_abs:
  assumes "2 powi (- 1000) \<le> x"
  shows "rnd x \<le> x + x / 2 ^ 53" and "x - x / 2 ^ 53 \<le> rnd x"
  using rnd_error [OF assms] by linarith+

lemma pow2_m1000_le_1: "(2::real) powi (- 1000) \<le> 1"
  using pow2_m1000_small by linarith

text \<open>
  The rounded product differs from \<open>ms * 2 ^ 32 / 1000\<close> by less than a thousandth, so the
  conversion is always in range and truncates to within one unit of the exact fraction.
\<close>

lemma ms_product:
  assumes "0 \<le> m" and "m < 1000"
  obtains r where "dbl_of_int m * (FRAC / dbl_of_int 1000) = Fin r"
    and "\<bar>r - of_int m * 4294967296 / 1000\<bar> \<le> 1 / 1000"
proof -
  let ?x = "4294967296 / 1000 :: real"
  let ?c = "rnd ?x"
  have x: "2 powi (- 1000) \<le> ?x" using pow2_m1000_le_1 by simp
  have c: "?c \<le> ?x + ?x / 2 ^ 53" "?x - ?x / 2 ^ 53 \<le> ?c"
    using rnd_error_abs [OF x] by simp_all
  then have cb: "4294967 \<le> ?c" "?c \<le> 4294968" by (simp_all add: field_simps)
  have "flt ?x = Fin ?c" by (rule flt_bounded) simp
  moreover have "FRAC / dbl_of_int 1000 = flt ?x"
    by (simp add: dbl_of_int_exact)
  ultimately have frac: "FRAC / dbl_of_int 1000 = Fin ?c" by simp
  have mi: "dbl_of_int m = Fin (of_int m)"
    using assms by (intro dbl_of_int_exact) simp
  have mr: "(0::real) \<le> of_int m" "(of_int m :: real) \<le> 999" using assms by simp_all
  let ?y = "of_int m * ?c"
  have y: "0 \<le> ?y" "?y \<le> 999 * 4294968" using mr cb by (simp, intro mult_mono, simp_all)
  have prod: "dbl_of_int m * (FRAC / dbl_of_int 1000) = Fin (rnd ?y)"
    unfolding frac mi using y by (simp add: flt_bounded)
  have e1: "\<bar>rnd ?y - ?y\<bar> \<le> ?y / 2 ^ 53"
  proof (cases "m = 0")
    case False
    then have "1 \<le> (of_int m :: real)" using assms by simp
    then have "1 * 1 \<le> ?y" using cb by (intro mult_mono) linarith+
    then show ?thesis using pow2_m1000_le_1 by (intro rnd_error) linarith
  qed simp
  have e2: "\<bar>?y - of_int m * ?x\<bar> \<le> of_int m * (?x / 2 ^ 53)"
    using mult_left_mono [OF c(1) mr(1)] mult_left_mono [OF c(2) mr(1)]
    unfolding distrib_left right_diff_distrib by linarith
  have "of_int m * (?x / 2 ^ 53) \<le> 999 * (?x / 2 ^ 53)" using mr by (intro mult_right_mono) simp_all
  also have "\<dots> \<le> 1 / 2000" by simp
  finally have e3: "of_int m * (?x / 2 ^ 53) \<le> 1 / 2000" .
  have "?y / 2 ^ 53 \<le> 1 / 2000" using y by simp
  then have "\<bar>rnd ?y - of_int m * ?x\<bar> \<le> 1 / 1000"
    using e1 e2 e3 by linarith
  then have "\<bar>rnd ?y - of_int m * 4294967296 / 1000\<bar> \<le> 1 / 1000"
    by (simp only: times_divide_eq_right)
  with prod show ?thesis by (rule that)
qed

lemma ms_fraction_close:
  assumes "numMilliseconds < 1000"
  shows "\<bar>real_of_int (uint (ms_fraction e numMilliseconds))
           - real_of_int (uint numMilliseconds) * 4294967296 / 1000\<bar> \<le> 1 + 1 / 1000"
proof -
  define m where "m = uint numMilliseconds"
  have m: "0 \<le> m" "m < 1000" using assms by (simp_all add: word_less_def m_def)
  obtain r where r: "dbl_of_int m * (FRAC / dbl_of_int 1000) = Fin r"
    and close: "\<bar>r - of_int m * 4294967296 / 1000\<bar> \<le> 1 / 1000"
    by (rule ms_product [OF m])
  have mr: "(0::real) \<le> of_int m" "(of_int m :: real) \<le> 999" using m by simp_all
  have lo: "- 1 / 1000 \<le> r" and hi: "r \<le> 4294967295"
    using close mr by linarith+
  have t: "0 \<le> rtrunc r" "rtrunc r \<le> 4294967295" "\<bar>of_int (rtrunc r) - r\<bar> \<le> 1"
  proof -
    have "\<lfloor>- r\<rfloor> \<le> 0" using lo by linarith
    then show "0 \<le> rtrunc r" by (simp add: rtrunc_def)
    have "\<lfloor>r\<rfloor> \<le> 4294967295" "- \<lfloor>- r\<rfloor> \<le> 4294967295" using hi by linarith+
    then show "rtrunc r \<le> 4294967295" by (simp add: rtrunc_def)
    have "\<bar>of_int \<lfloor>r\<rfloor> - r\<bar> \<le> 1" "\<bar>- of_int \<lfloor>- r\<rfloor> - r\<bar> \<le> 1" by linarith+
    then show "\<bar>of_int (rtrunc r) - r\<bar> \<le> 1" by (simp add: rtrunc_def)
  qed
  have "ms_fraction e numMilliseconds = word_of_int (rtrunc r)"
    using t using r by (simp add: ms_fraction_def dbl_to_u32_def dbl_to_int_Fin m_def)
  then have "uint (ms_fraction e numMilliseconds) = rtrunc r"
    using t by (simp add: uint_word_of_int)
  then show ?thesis using close t(3) unfolding m_def by linarith
qed

section \<open>Properties\<close>

lemma gettime_localTime:
  assumes "d = e_tick e (w_ticks w) - c_lastTimeStampTick (w_c w)"
    and "10 \<le> d \<or> override \<noteq> 0"
  shows "c_localTime (w_c (gettime e override w))
      = c_localTime (w_c w) + join32 (d div 1000) (ms_fraction e (d mod 1000))"
proof -
  have go: "\<not> (d < 10 \<and> override = 0)" using assms(2) by auto
  let ?t = "c_localTime (w_c w)" and ?f = "ms_fraction e (d mod 1000)"
  have "c_localTime (w_c (gettime e override w)) = join32 (hi32 ?t +
      (if lo32 ?t + ?f < lo32 ?t then d div 1000 + 1 else d div 1000)) (lo32 ?t + ?f)"
    by (simp add: gettime_def read_tick_def Let_def if_not_P [OF go [unfolded assms(1)]]
        assms(1) del: de_Morgan_conj)
  also have "hi32 ?t + (if lo32 ?t + ?f < lo32 ?t then d div 1000 + 1 else d div 1000)
      = hi32 ?t + d div 1000 + (if lo32 ?t + ?f < lo32 ?t then 1 else 0)"
    by simp
  finally show ?thesis by (simp only: join32_add)
qed

lemma word_mod_1000_less: "(d :: u32) mod 1000 < 1000"
  by (rule word_mod_less_divisor) simp

text \<open>C30: gettime() carries the local time forward by the elapsed ticks: unless fewer than ten
  ticks have passed and no override was asked for, the new local time is the old one plus the
  elapsed whole seconds plus a fraction that is within one unit (of 2^-32 s) and a thousandth of
  the elapsed milliseconds, in 64-bit arithmetic, and the tick of the reading is remembered.\<close>

theorem gettime_advances:
  "let tick = e_tick e (w_ticks w); d = tick - c_lastTimeStampTick (w_c w); c' = w_c (gettime e override w)
   in if d < 10 \<and> override = 0 then c' = w_c w
      else c_lastTimeStampTick c' = tick \<and>
        (\<exists>F. \<bar>real_of_int (uint F) - real_of_int (uint (d mod 1000)) * 4294967296 / 1000\<bar> \<le> 1 + 1 / 1000 \<and>
             c_localTime c' = c_localTime (w_c w) + join32 (d div 1000) F)"
proof -
  let ?d = "e_tick e (w_ticks w) - c_lastTimeStampTick (w_c w)"
  show ?thesis
  proof (cases "?d < 10 \<and> override = 0")
    case True
    then show ?thesis by (simp add: gettime_def read_tick_def Let_def)
  next
    case False
    then have "10 \<le> ?d \<or> override \<noteq> 0" by auto
    from gettime_localTime [OF refl this]
      ms_fraction_close [OF word_mod_1000_less, of e ?d]
    have "\<exists>F. \<bar>real_of_int (uint F) - real_of_int (uint (?d mod 1000)) * 4294967296 / 1000\<bar> \<le> 1 + 1 / 1000 \<and>
      c_localTime (w_c (gettime e override w)) = c_localTime (w_c w) + join32 (?d div 1000) F"
      by blast
    moreover have "c_lastTimeStampTick (w_c (gettime e override w)) = e_tick e (w_ticks w)"
      by (simp add: gettime_def read_tick_def Let_def if_not_P [OF False] del: de_Morgan_conj)
    ultimately show ?thesis using False by (simp only: Let_def if_False)
  qed
qed

lemma carry_as_sum:
  "(if P then h + 1 else (h :: u32)) = h + 0 + (if P then 1 else 0)"
  "(if P then h - 1 else (h :: u32)) = h - (if P then 1 else 0)"
  by simp_all

lemma update_localTime_value:
  "c_localTime (w_c (prv_update_localTime e x b w)) =
     (let t = c_localTime (w_c w); f = join32 0 (lo32 (D2LFP (e_d2u64 e) x))
      in if \<not> e_sem e (w_sems w) then t else if b \<noteq> 0 then t + f else t - f)"
proof (cases "e_sem e (w_sems w)")
  case True
  let ?t = "c_localTime (w_c w)" and ?f = "lo32 (D2LFP (e_d2u64 e) x)"
  have "c_localTime (w_c (prv_update_localTime e x b w)) =
     (if b \<noteq> 0 then join32 (if lo32 ?t + ?f < lo32 ?t then hi32 ?t + 1 else hi32 ?t) (lo32 ?t + ?f)
      else join32 (if lo32 ?t < lo32 ?t - ?f then hi32 ?t - 1 else hi32 ?t) (lo32 ?t - ?f))"
    using True by (cases "b = 0") (simp_all add: prv_update_localTime_def Let_def)
  also have "\<dots> = (if b \<noteq> 0 then ?t + join32 0 ?f else ?t - join32 0 ?f)"
    by (simp only: carry_as_sum join32_add join32_sub)
  finally show ?thesis using True by simp
next
  case False
  then show ?thesis by (simp add: prv_update_localTime_def Let_def)
qed

text \<open>The half-word carry and borrow of prv_update_localTime() compute 64-bit addition and
  subtraction, but only the low 32 bits of the converted offset take part: an adjustment adds and
  a step subtracts the fraction of a second, and the mutex guards the update.\<close>

theorem update_localTime_adds_fraction:
  "c_localTime (w_c (adjust_time e x w)) =
     (if e_sem e (w_sems w) then c_localTime (w_c w) + join32 0 (lo32 (D2LFP (e_d2u64 e) x))
      else c_localTime (w_c w)) \<and>
   c_localTime (w_c (step_time e x w)) =
     (if e_sem e (w_sems w) then c_localTime (w_c w) - join32 0 (lo32 (D2LFP (e_d2u64 e) x))
      else c_localTime (w_c w))"
  by (simp add: adjust_time_def step_time_def update_localTime_value Let_def)

lemma D2LFP_int:
  assumes "0 \<le> k" and "k < 4294967296"
  shows "D2LFP other (Fin (of_int k)) = word_of_int (k * 4294967296)"
proof -
  have "rnd (of_int k * 2 powi 32) = of_int k * 2 powi 32"
    using repr_scaled [of k 32] assms by (simp add: repr_def)
  moreover have "\<bar>of_int k * 4294967296 :: real\<bar> \<le> 2 ^ 200"
  proof -
    have "of_int k * 4294967296 \<le> 4294967296 * (4294967296 :: real)"
      using assms by (intro mult_right_mono) simp_all
    then show ?thesis using assms by simp
  qed
  ultimately have "flt (of_int k * 4294967296) = Fin (of_int k * 4294967296)"
    by (simp add: flt_bounded)
  then have "Fin (of_int k) * FRAC = Fin (of_int (k * 4294967296))"
    by simp
  moreover have "rtrunc (of_int (k * 4294967296)) = k * 4294967296"
    by (rule rtrunc_int)
  moreover have "k * 4294967296 \<le> 4294967295 * 4294967296"
    using assms by (intro mult_right_mono) simp_all
  ultimately show ?thesis
    using assms by (simp only: D2LFP_def dbl_to_u64_def) (subst dbl_to_int_Fin; simp)
qed

lemma lo32_whole: "lo32 (word_of_int (k * 4294967296)) = 0"
proof (rule word_uint_eqI)
  have "uint (word_of_int (k * 4294967296) :: tstamp) = (k * 4294967296) mod 18446744073709551616"
    using uint_word_of_int [where 'a = 64, of "k * 4294967296"] by simp
  also have "\<dots> mod 4294967296 = 0"
    using mod_halves [of 0 k] by simp
  finally show "uint (lo32 (word_of_int (k * 4294967296))) = uint (0 :: u32)"
    by (simp add: uint_lo32)
qed

text \<open>C31: a step by a whole number of seconds does not change the local time at all: the seconds
  of the offset are discarded by the conversion to 32 bits.\<close>

theorem step_time_whole_seconds:
  assumes "0 \<le> k" and "k < 4294967296"
  shows "c_localTime (w_c (step_time e (Fin (of_int k)) w)) = c_localTime (w_c w)"
  using join32_of_int [of 0 0]
  by (simp add: step_time_def update_localTime_value D2LFP_int [OF assms] lo32_whole Let_def
      del: of_int_mult)

theorem step_time_whole_seconds_witness:
  "(0::int) \<le> 5 \<and> (5::int) < 4294967296 \<and>
   (\<forall>e w. c_localTime (w_c (step_time e (Fin (of_int 5)) w)) = c_localTime (w_c w))"
  using step_time_whole_seconds [of 5] by simp

end
