(* ===== verification/Assoc.thy ===== *)
theory Assoc
  imports Clock
begin

text \<open>
  The association table and the life of an association: assoc_table_init(), assoc_table_deinit(),
  assoc_table_add() and assoc_table_update() of src/src/NTP_TDMG.c, mobilize() and find_assoc() of
  src/src/NTP_main_utility.c, and clear() of src/src/NTP_peer.c.

  The table is an array of pointers with a count. The loops walk the indices below the count and
  return at the first match, so they are \<open>find_r\<close> over the indices; the properties relate them to
  \<open>List.find\<close> over the table's associations.
\<close>

section \<open>Allocation\<close>

text \<open>calloc() of one association: the allocator's answer decides; addresses are not reused.\<close>

definition calloc :: "env \<Rightarrow> world \<Rightarrow> ptr \<times> world" where
  "calloc e w =
     (if e_calloc e (w_brk w)
      then (Addr (w_brk w), w\<lparr>w_heap := (w_heap w)(w_brk w \<mapsto> zero_p), w_brk := Suc (w_brk w)\<rparr>)
      else (NULL, w\<lparr>w_brk := Suc (w_brk w)\<rparr>))"

section \<open>clear() and mobilize()\<close>

text \<open>random(): one reading of the generator.\<close>

definition read_random :: "env \<Rightarrow> world \<Rightarrow> int \<times> world" where
  "read_random e w = (e_random e (w_rands w), w\<lparr>w_rands := Suc (w_rands w)\<rparr>)"

text \<open>
  The fields clear() assigns. The call memset(BEGIN_CLEAR(p), LEN_CLEAR, 0) has its last two
  arguments swapped: it writes zero bytes, so every other field keeps its value.
\<close>

definition cleared :: "env \<Rightarrow> world \<Rightarrow> int \<Rightarrow> int \<Rightarrow> ntp_p \<Rightarrow> ntp_p" where
  "cleared e w kiss rand p =
     (let outdate = i32 (uint (c_t (w_c w))) in
      p\<lparr>p_leap := word_of_int NOSYNC,
        p_stratum := word_of_int MAXSTRAT,
        p_ppoll := word_of_int MAXPOLL,
        p_hpoll := word_of_int MINPOLL,
        p_disp := MAXDISPAlg,
        p_jitter := LOG2D (e_shl e) (sint (s_precision (w_s w))),
        p_refid := word_of_int kiss,
        p_f := map (\<lambda>f. f\<lparr>f_disp := MAXDISPAlg\<rparr>) (p_f p),
        p_t := c_t (w_c w),
        p_outdate := outdate,
        p_nextdate := i32 (outdate + (rand AND (2 ^ nat MINPOLL - 1)))\<rparr>)"

definition clear :: "env \<Rightarrow> ptr \<Rightarrow> int \<Rightarrow> world \<Rightarrow> world outcome" where
  "clear e p kiss w =
     (let w = (if s_p (w_s w) = p then upd_s (\<lambda>s. s\<lparr>s_p := NULL\<rparr>) w else w)
      in bind_r (load e w p) (\<lambda>q.
           if kiss \<noteq> X_INIT \<and> p_flags q AND P_EPHEM \<noteq> 0 then free p w
           else let (rand, w) = read_random e w
                in modify e p (cleared e w kiss rand) w))"

definition mobilize ::
    "env \<Rightarrow> u32 \<Rightarrow> u32 \<Rightarrow> int \<Rightarrow> int \<Rightarrow> int \<Rightarrow> int \<Rightarrow> world \<Rightarrow> (ptr \<times> world) outcome" where
  "mobilize e srcaddr dstaddr version mode keyid flags w =
     (let (p, w) = calloc e w
      in if p = NULL then Inr (NULL, w)
         else bind_r (modify e p (\<lambda>q. q\<lparr>p_srcaddr := srcaddr, p_dstaddr := dstaddr,
                 p_version := word_of_int version, p_hmode := word_of_int mode, p_keyid := keyid,
                 p_hpoll := word_of_int MINPOLL\<rparr>) w) (\<lambda>w.
              bind_r (clear e p X_INIT w) (\<lambda>w.
              bind_r (modify e p (\<lambda>q. q\<lparr>p_flags := flags\<rparr>) w) (\<lambda>w.
              Inr (p, w)))))"

section \<open>The association table\<close>

text \<open>assoc_table->peers[i]\<close>

definition table_at :: "world \<Rightarrow> nat \<Rightarrow> ptr outcome" where
  "table_at w i = idx Assoc_Table (w_peers w) i"

text \<open>
  The peers array is one malloc(); the count is set only when it succeeds. A failed malloc leaves
  the null pointer, an array without entries.
\<close>

definition assoc_table_init :: "env \<Rightarrow> u32 list \<Rightarrow> world \<Rightarrow> world outcome" where
  "assoc_table_init e NTP_server_IPs w =
     (let ok = e_calloc e (w_brk w); w = w\<lparr>w_brk := Suc (w_brk w)\<rparr>
      in if \<not> ok then Inr (w\<lparr>w_peers := []\<rparr>)
         else foldr_r (\<lambda>i w.
                bind_r (idx Server_IPs NTP_server_IPs i) (\<lambda>ip.
                bind_r (mobilize e ip IPADDR VERSION MODE KEYID P_FLAGS w) (\<lambda>(p, w).
                Inr (w\<lparr>w_peers := (w_peers w)[i := p]\<rparr>))))
              [0..<NMAX] (w\<lparr>w_peers := replicate NMAX NULL, w_size := int NMAX\<rparr>))"

definition assoc_table_deinit :: "world \<Rightarrow> world outcome" where
  "assoc_table_deinit w =
     bind_r (foldr_r (\<lambda>i w. bind_r (table_at w i) (\<lambda>p. free p w)) [0..<nat (w_size w)] w)
       (\<lambda>w. Inr (w\<lparr>w_peers := [], w_size := 0\<rparr>))"

text \<open>The test of the two search loops: the entry has this address and host mode.\<close>

definition assoc_matches :: "env \<Rightarrow> world \<Rightarrow> u32 \<Rightarrow> u8 \<Rightarrow> nat \<Rightarrow> bool outcome" where
  "assoc_matches e w srcaddr hmode i =
     bind_r (table_at w i) (\<lambda>assoc. bind_r (load e w assoc) (\<lambda>q.
       Inr (p_srcaddr q = srcaddr \<and> p_hmode q = hmode)))"

definition assoc_table_add :: "env \<Rightarrow> u32 \<Rightarrow> u8 \<Rightarrow> tstamp \<Rightarrow> world \<Rightarrow> (int \<times> world) outcome" where
  "assoc_table_add e srcaddr hmode xmt w =
     bind_r (find_r (assoc_matches e w srcaddr hmode) [0..<nat (w_size w)]) (\<lambda>hit.
       case hit of
         None \<Rightarrow> Inr (0, w)
       | Some i \<Rightarrow>
           bind_r (table_at w i) (\<lambda>assoc.
           bind_r (modify e assoc (\<lambda>q. q\<lparr>p_xmt := xmt\<rparr>) w) (\<lambda>w. Inr (1, w))))"

definition assoc_table_update :: "env \<Rightarrow> ptr \<Rightarrow> world \<Rightarrow> world outcome" where
  "assoc_table_update e p w =
     bind_r (find_r (\<lambda>i. bind_r (table_at w i) (\<lambda>assoc. bind_r (load e w assoc) (\<lambda>q.
                bind_r (load e w p) (\<lambda>r.
                Inr (p_srcaddr q = p_srcaddr r \<and> p_hmode q = p_hmode r)))))
              [0..<nat (w_size w)]) (\<lambda>hit.
       case hit of
         None \<Rightarrow> Inr w
       | Some i \<Rightarrow> Inr (w\<lparr>w_peers := (w_peers w)[i := p]\<rparr>))"

definition find_assoc :: "env \<Rightarrow> ntp_r \<Rightarrow> world \<Rightarrow> ptr outcome" where
  "find_assoc e r w =
     bind_r (find_r (\<lambda>i. bind_r (table_at w i) (\<lambda>assoc. bind_r (load e w assoc) (\<lambda>q.
                Inr (r_srcaddr r = p_srcaddr q)))) [0..<nat (w_size w)]) (\<lambda>hit.
       case hit of None \<Rightarrow> Inr NULL | Some i \<Rightarrow> table_at w i)"

section \<open>Facts about clear() and mobilize()\<close>

text \<open>No live association lies at or above the allocation mark, and s.p is not above it.\<close>

definition heap_ok :: "world \<Rightarrow> bool" where
  "heap_ok w \<longleftrightarrow> (\<forall>a \<ge> w_brk w. w_heap w a = None) \<and>
     (case s_p (w_s w) of NULL \<Rightarrow> True | Addr a \<Rightarrow> a < w_brk w)"

text \<open>The table's count is its length and its entries are live associations.\<close>

definition table_ok :: "world \<Rightarrow> bool" where
  "table_ok w \<longleftrightarrow> w_size w = int (length (w_peers w)) \<and> list_all (valid w) (w_peers w)"

lemma table_okD:
  assumes "table_ok w"
  shows "nat (w_size w) = length (w_peers w)" and "i < length (w_peers w) \<Longrightarrow> valid w (w_peers w ! i)"
  using assms by (simp_all add: table_ok_def list_all_length)

text \<open>Taking the association off the system peer, the first step of clear().\<close>

definition detach :: "ptr \<Rightarrow> world \<Rightarrow> world" where
  "detach p w = (if s_p (w_s w) = p then upd_s (\<lambda>s. s\<lparr>s_p := NULL\<rparr>) w else w)"

lemma detach_frame [simp]:
  "valid (detach p w) q = valid w q" "peer (detach p w) q = peer w q" "w_c (detach p w) = w_c w"
  "w_rands (detach p w) = w_rands w" "w_heap (detach p w) = w_heap w"
  "w_brk (detach p w) = w_brk w" "w_peers (detach p w) = w_peers w" "w_size (detach p w) = w_size w"
  "s_precision (w_s (detach p w)) = s_precision (w_s w)"
  by (simp_all add: detach_def)

lemma cleared_frame [simp]:
  "cleared e (w\<lparr>w_rands := n\<rparr>) k r q = cleared e w k r q"
  "cleared e (detach p w) k r q = cleared e w k r q"
  by (simp_all add: cleared_def)

lemma clear_persistent:
  assumes "valid w p" and "kiss = X_INIT \<or> p_flags (peer w p) AND P_EPHEM = 0"
  shows "clear e p kiss w =
    Inr (set_peer p (cleared e w kiss (e_random e (w_rands w)) (peer w p))
      ((detach p w)\<lparr>w_rands := Suc (w_rands w)\<rparr>))"
  using assms
  by (auto simp: clear_def read_random_def Let_def detach_def [symmetric])

lemma clear_ephemeral:
  assumes "valid w p" and "kiss \<noteq> X_INIT" and "p_flags (peer w p) AND P_EPHEM \<noteq> 0"
  shows "clear e p kiss w = free p (detach p w)"
  using assms by (simp add: clear_def Let_def detach_def [symmetric])

text \<open>The association mobilize() makes.\<close>

definition fresh_p :: "env \<Rightarrow> world \<Rightarrow> u32 \<Rightarrow> u32 \<Rightarrow> int \<Rightarrow> int \<Rightarrow> int \<Rightarrow> int \<Rightarrow> int \<Rightarrow> ntp_p" where
  "fresh_p e w srcaddr dstaddr version mode keyid flags rand =
     (cleared e w X_INIT rand
       (zero_p\<lparr>p_srcaddr := srcaddr, p_dstaddr := dstaddr, p_version := word_of_int version,
          p_hmode := word_of_int mode, p_keyid := keyid, p_hpoll := word_of_int MINPOLL\<rparr>))
     \<lparr>p_flags := flags\<rparr>"

lemma mobilize_ok:
  assumes "e_calloc e (w_brk w)" and "heap_ok w"
  shows "mobilize e a d v m k fl w =
    Inr (Addr (w_brk w),
      w\<lparr>w_heap := (w_heap w)(w_brk w \<mapsto> fresh_p e w a d v m k fl (e_random e (w_rands w))),
        w_brk := Suc (w_brk w), w_rands := Suc (w_rands w)\<rparr>)"
proof -
  have np: "s_p (w_s w) \<noteq> Addr (w_brk w)"
    using assms(2) by (auto simp: heap_ok_def)
  then show ?thesis
    using assms(1)
    by (simp add: mobilize_def calloc_def modify_def clear_def read_random_def Let_def fresh_p_def
        cleared_def)
qed

lemma mobilize_fails:
  "\<not> e_calloc e (w_brk w) \<Longrightarrow> mobilize e a d v m k fl w = Inr (NULL, w\<lparr>w_brk := Suc (w_brk w)\<rparr>)"
  by (simp add: mobilize_def calloc_def)

lemma fresh_p_fields:
  fixes e w a d v m k fl r
  defines "q \<equiv> fresh_p e w a d v m k fl r"
  shows "p_srcaddr q = a" "p_dstaddr q = d" "p_version q = word_of_int v" "p_hmode q = word_of_int m"
    "p_keyid q = k" "p_flags q = fl" "p_hpoll q = 6" "p_leap q = 3" "p_stratum q = 16"
    "p_reach q = 0" "p_burst q = 0" "p_t q = c_t (w_c w)" "length (p_f q) = NSTAGE"
    "p_disp q = MAXDISPAlg" "p_refid q = 0"
  by (simp_all add: q_def fresh_p_def cleared_def zero_p_def Let_def)

section \<open>The loops as list operations\<close>

lemma table_search:
  assumes "table_ok w"
  shows "find_r (\<lambda>i. bind_r (table_at w i) (\<lambda>a. bind_r (load e w a) (\<lambda>q. Inr (P q))))
      [0..<nat (w_size w)] =
    Inr (List.find (\<lambda>i. P (peer w (w_peers w ! i))) [0..<length (w_peers w)])"
  using assms
  by (auto simp: table_okD table_at_def intro!: find_r_pure)

lemma table_hit:
  assumes "List.find (\<lambda>i. P (w_peers w ! i)) [0..<length (w_peers w)] = Some i"
  shows "i < length (w_peers w)" and "List.find P (w_peers w) = Some (w_peers w ! i)"
  using find_SomeD [OF assms] find_indices [of "w_peers w" P] assms by auto

lemma table_miss:
  assumes "List.find (\<lambda>i. P (w_peers w ! i)) [0..<length (w_peers w)] = None"
  shows "List.find P (w_peers w) = None"
  using find_indices [of "w_peers w" P] assms by auto

lemma set_peer_same_cell:
  "valid w p \<Longrightarrow> table_ok (set_peer p q w) = table_ok w"
  by (simp add: table_ok_def list_all_iff)

text \<open>The sender's association, by address: what find_assoc() computes on a sound table.\<close>

lemma find_assoc_list:
  assumes "table_ok w"
  shows "find_assoc e r w =
    Inr (case List.find (\<lambda>p. p_srcaddr (peer w p) = r_srcaddr r) (w_peers w) of
           None \<Rightarrow> NULL | Some p \<Rightarrow> p)"
proof -
  let ?Q = "\<lambda>p. r_srcaddr r = p_srcaddr (peer w p)"
  have eq: "(\<lambda>p. p_srcaddr (peer w p) = r_srcaddr r) = ?Q" by auto
  have s: "find_assoc e r w =
      (case List.find (\<lambda>i. ?Q (w_peers w ! i)) [0..<length (w_peers w)] of
        None \<Rightarrow> Inr NULL | Some i \<Rightarrow> table_at w i)"
    using table_search [OF assms, of e "\<lambda>q. r_srcaddr r = p_srcaddr q"]
    by (simp add: find_assoc_def)
  show ?thesis
  proof (cases "List.find (\<lambda>i. ?Q (w_peers w ! i)) [0..<length (w_peers w)]")
    case None
    from table_miss [of ?Q, OF None] None s show ?thesis by (simp add: eq)
  next
    case (Some i)
    from table_hit [of ?Q, OF Some] Some s show ?thesis by (simp add: eq table_at_def)
  qed
qed

lemma find_assoc_valid:
  assumes "table_ok w" and "find_assoc e r w = Inr p"
  shows "p = NULL \<or> p \<in> set (w_peers w) \<and> valid w p \<and> p_srcaddr (peer w p) = r_srcaddr r"
  using assms
  by (auto simp: find_assoc_list table_ok_def list_all_iff split: option.splits dest!: find_SomeD)

lemma assoc_table_add_list:
  assumes "table_ok w"
  shows "assoc_table_add e a m t w =
    Inr (case List.find (\<lambda>p. p_srcaddr (peer w p) = a \<and> p_hmode (peer w p) = m) (w_peers w) of
           None \<Rightarrow> (0, w)
         | Some p \<Rightarrow> (1, set_peer p ((peer w p)\<lparr>p_xmt := t\<rparr>) w))"
proof -
  let ?Q = "\<lambda>p. p_srcaddr (peer w p) = a \<and> p_hmode (peer w p) = m"
  note s = table_search [OF assms, of e "\<lambda>q. p_srcaddr q = a \<and> p_hmode q = m"]
  show ?thesis
  proof (cases "List.find (\<lambda>i. ?Q (w_peers w ! i)) [0..<length (w_peers w)]")
    case None
    from table_miss [of ?Q, OF None] None s show ?thesis
      by (simp add: assoc_table_add_def assoc_matches_def [abs_def])
  next
    case (Some i)
    from table_hit [of ?Q, OF Some] Some s table_okD(2) [OF assms] show ?thesis
      by (simp add: assoc_table_add_def assoc_matches_def [abs_def], simp add: table_at_def)
  qed
qed

section \<open>The table after assoc_table_init()\<close>

text \<open>The state after the first k associations were made, from the state w after malloc().\<close>

definition init_upto :: "env \<Rightarrow> u32 list \<Rightarrow> world \<Rightarrow> nat \<Rightarrow> world \<Rightarrow> bool" where
  "init_upto e ips w k w' \<longleftrightarrow>
     w_s w' = w_s w \<and> w_c w' = w_c w \<and> w_size w' = int NMAX \<and> w_brk w' = w_brk w + k \<and>
     w_rands w' = w_rands w + k \<and>
     w_peers w' = map Addr [w_brk w..<w_brk w + k] @ replicate (NMAX - k) NULL \<and>
     (\<forall>i < k. w_heap w' (w_brk w + i) =
        Some (fresh_p e w (ips ! i) IPADDR VERSION MODE KEYID P_FLAGS (e_random e (w_rands w + i)))) \<and>
     (\<forall>a. a < w_brk w \<or> w_brk w + k \<le> a \<longrightarrow> w_heap w' a = w_heap w a)"

lemma fresh_p_cong:
  "w_s w' = w_s w \<Longrightarrow> w_c w' = w_c w \<Longrightarrow> fresh_p e w' a d v m k fl r = fresh_p e w a d v m k fl r"
  by (simp add: fresh_p_def cleared_def)

lemma init_step:
  assumes inv: "init_upto e ips w k w'" and ok: "heap_ok w" and k: "k < NMAX" "k < length ips"
    and mem: "e_calloc e (w_brk w + k)"
  shows "\<exists>w''. bind_r (idx Server_IPs ips k) (\<lambda>ip.
      bind_r (mobilize e ip IPADDR VERSION MODE KEYID P_FLAGS w') (\<lambda>(p, w).
      Inr (w\<lparr>w_peers := (w_peers w)[k := p]\<rparr>))) = Inr w'' \<and> init_upto e ips w (Suc k) w''"
proof -
  have ok': "heap_ok w'"
    using inv ok by (auto simp: init_upto_def heap_ok_def split: ptr.splits)
  have brk: "w_brk w' = w_brk w + k" and mem': "e_calloc e (w_brk w')"
    using inv mem by (auto simp: init_upto_def)
  have "replicate (NMAX - k) NULL = NULL # replicate (NMAX - Suc k) NULL"
    using k by (simp add: Suc_diff_Suc flip: replicate_Suc)
  then have peers: "(w_peers w')[k := Addr (w_brk w + k)] =
      map Addr [w_brk w..<w_brk w + Suc k] @ replicate (NMAX - Suc k) NULL"
    using inv by (simp add: init_upto_def list_update_append)
  show ?thesis
    using inv k peers brk
    by (simp add: mobilize_ok [OF mem' ok'] init_upto_def less_Suc_eq all_conj_distrib
        fresh_p_cong [of w' w])
qed

lemma init_loop:
  assumes ok: "heap_ok w" and mem: "\<And>i. i < NMAX \<Longrightarrow> e_calloc e (w_brk w + i)"
    and ips: "length ips = NMAX" and k: "k \<le> NMAX"
  shows "\<exists>w'. foldr_r (\<lambda>i w. bind_r (idx Server_IPs ips i) (\<lambda>ip.
      bind_r (mobilize e ip IPADDR VERSION MODE KEYID P_FLAGS w) (\<lambda>(p, w).
      Inr (w\<lparr>w_peers := (w_peers w)[i := p]\<rparr>)))) [0..<k]
      (w\<lparr>w_peers := replicate NMAX NULL, w_size := int NMAX\<rparr>) = Inr w' \<and> init_upto e ips w k w'"
  using k
proof (induction k)
  case 0
  then show ?case by (simp add: init_upto_def)
next
  case (Suc k)
  then obtain w' where "foldr_r (\<lambda>i w. bind_r (idx Server_IPs ips i) (\<lambda>ip.
      bind_r (mobilize e ip IPADDR VERSION MODE KEYID P_FLAGS w) (\<lambda>(p, w).
      Inr (w\<lparr>w_peers := (w_peers w)[i := p]\<rparr>)))) [0..<k]
      (w\<lparr>w_peers := replicate NMAX NULL, w_size := int NMAX\<rparr>) = Inr w'" and "init_upto e ips w k w'"
    by auto
  with Suc.prems init_step [OF this(2) ok _ _ mem] ips show ?case
    by (auto simp: foldr_r_append)
qed

lemma assoc_table_init_ok:
  assumes "heap_ok w" and "\<And>n. e_calloc e n" and "length ips = NMAX"
  shows "\<exists>w'. assoc_table_init e ips w = Inr w' \<and>
    init_upto e ips (w\<lparr>w_brk := Suc (w_brk w)\<rparr>) NMAX w'"
proof -
  have "heap_ok (w\<lparr>w_brk := Suc (w_brk w)\<rparr>)"
    using assms(1) by (auto simp: heap_ok_def split: ptr.splits)
  from init_loop [OF this _ assms(3), of e NMAX] assms(2) show ?thesis
    by (simp add: assoc_table_init_def Let_def)
qed

lemma init_upto_table:
  assumes "init_upto e ips w NMAX w'"
  shows "table_ok w'" and "distinct (w_peers w')" and "length (w_peers w') = NMAX"
    and "i < NMAX \<Longrightarrow> peer w' (w_peers w' ! i) =
      fresh_p e w (ips ! i) IPADDR VERSION MODE KEYID P_FLAGS (e_random e (w_rands w + i))"
proof -
  have p: "w_peers w' = map Addr [w_brk w..<w_brk w + NMAX]" and n: "w_size w' = int NMAX"
    using assms by (simp_all add: init_upto_def)
  have at: "w_peers w' ! i = Addr (w_brk w + i)" if "i < NMAX" for i
    using that by (simp add: p)
  have heap: "w_heap w' (w_brk w + i) =
      Some (fresh_p e w (ips ! i) IPADDR VERSION MODE KEYID P_FLAGS (e_random e (w_rands w + i)))"
    if "i < NMAX" for i
    using assms that by (simp add: init_upto_def)
  show len: "length (w_peers w') = NMAX" by (simp add: p)
  show "distinct (w_peers w')" by (simp add: p distinct_map inj_on_def del: upt_Suc)
  show "table_ok w'"
    unfolding table_ok_def list_all_length using at heap len n by auto
  show "i < NMAX \<Longrightarrow> peer w' (w_peers w' ! i) =
      fresh_p e w (ips ! i) IPADDR VERSION MODE KEYID P_FLAGS (e_random e (w_rands w + i))"
    using at heap by (simp add: peer_def)
qed

section \<open>Properties\<close>

lemma find_distinct:
  "distinct (map f xs) \<Longrightarrow> x \<in> set xs \<Longrightarrow> Q x \<Longrightarrow> List.find (\<lambda>y. f y = f x \<and> Q y) xs = Some x"
  by (induction xs) auto

lemma find_nth_distinct:
  assumes "i < length xs" and "distinct (map f xs)" and "f (xs ! i) = v"
  shows "List.find (\<lambda>x. f x = v) xs = Some (xs ! i)"
proof -
  have "\<forall>j < i. f (xs ! j) \<noteq> v"
    using assms by (auto simp: distinct_conv_nth)
  with assms show ?thesis by (auto simp: find_Some_iff)
qed

text \<open>C15: insert and lookup. When the allocations of assoc_table_init() succeed and the server
  addresses are distinct, the table holds NMAX live associations in client mode with poll
  exponent MINPOLL, unsynchronised and never reached; find_assoc() on a packet from the i-th
  server returns exactly the i-th of them, assoc_table_add() for that server in client mode
  stores the transmit timestamp in it and changes nothing else, and a packet from any other
  address finds no association.\<close>

theorem assoc_table_init_lookup:
  assumes "heap_ok w" and "\<And>n. e_calloc e n" and "length ips = NMAX" and "distinct ips"
  shows "\<exists>w'. assoc_table_init e ips w = Inr w' \<and> table_ok w' \<and> length (w_peers w') = NMAX \<and>
    (\<forall>i < NMAX. let p = w_peers w' ! i; q = peer w' p in
       p_srcaddr q = ips ! i \<and> p_hmode q = 3 \<and> p_hpoll q = 6 \<and> p_leap q = 3 \<and> p_reach q = 0 \<and>
       length (p_f q) = NSTAGE \<and>
       (\<forall>r. r_srcaddr r = ips ! i \<longrightarrow> find_assoc e r w' = Inr p) \<and>
       (\<forall>t. assoc_table_add e (ips ! i) 3 t w' = Inr (1, set_peer p (q\<lparr>p_xmt := t\<rparr>) w'))) \<and>
    (\<forall>r. r_srcaddr r \<notin> set ips \<longrightarrow> find_assoc e r w' = Inr NULL)"
proof -
  let ?v = "w\<lparr>w_brk := Suc (w_brk w)\<rparr>"
  obtain w' where w': "assoc_table_init e ips w = Inr w'" "init_upto e ips ?v NMAX w'"
    using assoc_table_init_ok [OF assms(1-3)] by blast
  note tab = init_upto_table [OF w'(2)]
  note fields = tab(4) fresh_p_fields
  have map_src: "map (\<lambda>p. p_srcaddr (peer w' p)) (w_peers w') = ips"
    by (rule nth_equalityI) (use tab(3) assms(3) in \<open>simp_all add: fields\<close>)
  have find: "List.find (\<lambda>p. p_srcaddr (peer w' p) = ips ! i) (w_peers w') = Some (w_peers w' ! i)"
    if "i < NMAX" for i
    using that tab(3) assms(4) map_src by (intro find_nth_distinct) (simp_all add: fields)
  have "\<forall>p \<in> set (w_peers w'). p_hmode (peer w' p) = 3"
    using tab(3) by (auto simp: in_set_conv_nth fields)
  then have find': "List.find (\<lambda>p. p_srcaddr (peer w' p) = a \<and> p_hmode (peer w' p) = 3) (w_peers w') =
      List.find (\<lambda>p. p_srcaddr (peer w' p) = a) (w_peers w')" for a
    by (intro find_cong) auto
  have miss: "List.find (\<lambda>p. p_srcaddr (peer w' p) = a) (w_peers w') = None" if "a \<notin> set ips" for a
    using that map_src by (auto simp: find_None_iff)
  show ?thesis
    using w'(1) tab(1,3)
    by (simp add: find_assoc_list assoc_table_add_list find find' miss fields Let_def)
qed

text \<open>Clear() on a persistent association resets the leap, stratum, poll exponents, the
  dispersion and jitter and restarts the poll timer within 64 seconds, and takes the association
  off the system peer; but, its memset() having the length and the value swapped, it keeps the
  timestamps org, rec and xmt, the samples of the clock filter, the offset, the delay and the
  reachability register of the association. An ephemeral association is freed.\<close>

theorem clear_effect:
  assumes "valid w p"
  shows "\<exists>w'. clear e p kiss w = Inr w' \<and> s_p (w_s w') \<noteq> p \<and>
    (if kiss \<noteq> X_INIT \<and> p_flags (peer w p) AND P_EPHEM \<noteq> 0
     then \<not> valid w' p \<and> (\<forall>q. q \<noteq> p \<longrightarrow> valid w' q = valid w q \<and> peer w' q = peer w q)
     else let a = peer w p; b = peer w' p in
       p_leap b = 3 \<and> p_stratum b = 16 \<and> p_ppoll b = 17 \<and> p_hpoll b = 6 \<and> p_disp b = MAXDISPAlg \<and>
       p_jitter b = LOG2D (e_shl e) (sint (s_precision (w_s w))) \<and> p_t b = c_t (w_c w) \<and>
       0 \<le> (e_random e (w_rands w) AND 63) \<and> (e_random e (w_rands w) AND 63) < 64 \<and>
       p_nextdate b = i32 (p_outdate b + (e_random e (w_rands w) AND 63)) \<and>
       p_org b = p_org a \<and> p_rec b = p_rec a \<and> p_xmt b = p_xmt a \<and> p_offset b = p_offset a \<and>
       p_delay b = p_delay a \<and> p_reach b = p_reach a \<and>
       map f_offset (p_f b) = map f_offset (p_f a) \<and> map f_delay (p_f b) = map f_delay (p_f a))"
proof (cases "kiss \<noteq> X_INIT \<and> p_flags (peer w p) AND P_EPHEM \<noteq> 0")
  case True
  from assms obtain a q where a: "p = Addr a" "w_heap w a = Some q"
    by (cases p) auto
  have "valid ((detach p w)\<lparr>w_heap := (w_heap w)(a := None)\<rparr>) r = valid w r \<and>
      peer ((detach p w)\<lparr>w_heap := (w_heap w)(a := None)\<rparr>) r = peer w r" if "r \<noteq> p" for r
    using that a by (cases r) (auto simp: peer_def)
  with True a assms show ?thesis
    by (simp add: clear_ephemeral) (simp add: detach_def)
next
  case False
  have "\<And>r. r AND 63 = r mod (64 :: int)"
    using take_bit_eq_mask [of 6, where 'a = int]
    by (simp add: take_bit_eq_mod mask_eq_exp_minus_1)
  moreover have "p \<noteq> NULL" using assms by auto
  ultimately show ?thesis using False assms
    by (auto simp: clear_persistent cleared_def Let_def comp_def detach_def)
qed

lemma free_all_distinct:
  assumes "distinct is" and "inj_on (\<lambda>i. w_peers w ! i) (set is)"
    and "\<forall>i \<in> set is. i < length (w_peers w) \<and> valid w (w_peers w ! i)"
  shows "\<exists>w'. foldr_r (\<lambda>i w. bind_r (table_at w i) (\<lambda>p. free p w)) is w = Inr w' \<and>
    w_peers w' = w_peers w \<and> w_size w' = w_size w \<and> w_s w' = w_s w \<and>
    (\<forall>q. valid w' q \<longleftrightarrow> valid w q \<and> q \<notin> (\<lambda>i. w_peers w ! i) ` set is)"
  using assms
proof (induction "is" arbitrary: w)
  case Nil
  then show ?case by simp
next
  case (Cons i "is")
  then obtain a where a: "w_peers w ! i = Addr a" "w_heap w a \<noteq> None" and i: "i < length (w_peers w)"
    by (cases "w_peers w ! i") auto
  let ?v = "w\<lparr>w_heap := (w_heap w)(a := None)\<rparr>"
  have step: "bind_r (table_at w i) (\<lambda>p. free p w) = Inr ?v"
    using a i by (auto simp: table_at_def)
  have v: "valid ?v q \<longleftrightarrow> valid w q \<and> q \<noteq> Addr a" for q
    by (cases q) auto
  have "\<forall>j \<in> set is. w_peers w ! j \<noteq> Addr a"
    using Cons.prems(1,2) a(1) by (auto simp: inj_on_def)
  with Cons.prems v have "\<forall>j \<in> set is. j < length (w_peers ?v) \<and> valid ?v (w_peers ?v ! j)"
    by simp
  with Cons.IH [of ?v] Cons.prems(1,2)
  obtain w' where "foldr_r (\<lambda>i w. bind_r (table_at w i) (\<lambda>p. free p w)) is ?v = Inr w'"
    "w_peers w' = w_peers w" "w_size w' = w_size w" "w_s w' = w_s w"
    "\<forall>q. valid w' q \<longleftrightarrow> valid ?v q \<and> q \<notin> (\<lambda>i. w_peers w ! i) ` set is"
    by auto
  with step v a show ?case by auto
qed

text \<open>assoc_table_deinit() on a sound table of distinct associations runs without a double
  free, leaves none of the table's associations live and no other association freed, and empties
  the table.\<close>

theorem assoc_table_deinit_frees:
  assumes "table_ok w" and "distinct (w_peers w)"
  shows "\<exists>w'. assoc_table_deinit w = Inr w' \<and> w_peers w' = [] \<and> w_size w' = 0 \<and>
    (\<forall>q. valid w' q \<longleftrightarrow> valid w q \<and> q \<notin> set (w_peers w))"
proof -
  have inj: "inj_on (\<lambda>i. w_peers w ! i) (set [0..<length (w_peers w)])"
    using assms(2) by (simp add: inj_on_def nth_eq_iff_index_eq)
  have img: "(\<lambda>i. w_peers w ! i) ` set [0..<length (w_peers w)] = set (w_peers w)"
    by (metis list.set_map map_nth)
  have "\<forall>i \<in> set [0..<length (w_peers w)]. i < length (w_peers w) \<and> valid w (w_peers w ! i)"
    using table_okD(2) [OF assms(1)] by simp
  from free_all_distinct [OF distinct_upt inj this] table_okD(1) [OF assms(1)]
  show ?thesis
    unfolding img by (auto simp: assoc_table_deinit_def)
qed

section \<open>Witnesses\<close>

text \<open>A world with one association, in the table.\<close>

definition one_peer :: "ntp_p \<Rightarrow> world" where
  "one_peer q = boot_world\<lparr>w_heap := [0 \<mapsto> q], w_brk := 1, w_peers := [Addr 0], w_size := 1\<rparr>"

lemma one_peer_ok [simp]:
  "heap_ok (one_peer q)" "table_ok (one_peer q)" "valid (one_peer q) (Addr 0)"
  "peer (one_peer q) (Addr 0) = q" "w_peers (one_peer q) = [Addr 0]" "w_size (one_peer q) = 1"
  "w_heap (one_peer q) 0 = Some q" "w_ip (one_peer q) = 0" "w_s (one_peer q) = zero_s" "w_c (one_peer q) = zero_c"
  by (simp_all add: one_peer_def heap_ok_def table_ok_def boot_world_def zero_s_def peer_def)

lemma boot_heap_ok [simp]: "heap_ok boot_world"
  by (simp add: heap_ok_def boot_world_def zero_s_def)

lemma demo_calloc [simp]: "e_calloc demo_env n"
  by (simp add: demo_env_def)

theorem assoc_table_init_lookup_witness:
  "\<exists>w'. assoc_table_init demo_env [11, 12, 13, 14, 15] boot_world = Inr w' \<and> table_ok w' \<and>
     length (w_peers w') = 5"
  using assoc_table_init_lookup [of boot_world demo_env "[11, 12, 13, 14, 15]"] by auto

theorem clear_effect_witness:
  "\<exists>w'. clear demo_env (Addr 0) X_STEP (one_peer (zero_p\<lparr>p_flags := 1\<rparr>)) = Inr w' \<and>
     \<not> valid w' (Addr 0)"
  using clear_effect [of "one_peer (zero_p\<lparr>p_flags := 1\<rparr>)" "Addr 0" demo_env X_STEP]
  by (auto simp: Let_def)

theorem assoc_table_deinit_frees_witness:
  "\<exists>w'. assoc_table_deinit (one_peer zero_p) = Inr w' \<and> w_peers w' = [] \<and> \<not> valid w' (Addr 0)"
  using assoc_table_deinit_frees [of "one_peer zero_p"] by auto

end
