(* ===== verification/Wire.thy ===== *)
theory Wire
  imports Assoc
begin

text \<open>
  The packet interface of src/src/NTP_main_utility.c: the byte order of a packet
  (prv_swap_fields()), its decoding into a receive structure (prv_create_ntp_r(), recv_packet()),
  its construction from a transmit structure (prep_xmit(), prv_translate_ntp_x_to_ntp_packet(),
  xmit_packet()) and the message digest md5(). The socket is the environment's \<open>e_recvfrom\<close> and
  the list \<open>w_sent\<close> of sent packets, the byte-order macro FreeRTOS_htonl its \<open>e_htonl\<close>.
\<close>

section \<open>Message digest\<close>

definition md5 :: "int \<Rightarrow> digest" where
  "md5 keyid = 0"

section \<open>Byte order\<close>

text \<open>Every 32-bit field but refId is converted.\<close>

definition prv_swap_fields :: "env \<Rightarrow> ntp_packet \<Rightarrow> ntp_packet" where
  "prv_swap_fields e pkt =
     pkt\<lparr>rootDelay := e_htonl e (rootDelay pkt), rootDispersion := e_htonl e (rootDispersion pkt),
       refTm_s := e_htonl e (refTm_s pkt), refTm_f := e_htonl e (refTm_f pkt),
       origTm_s := e_htonl e (origTm_s pkt), origTm_f := e_htonl e (origTm_f pkt),
       rxTm_s := e_htonl e (rxTm_s pkt), rxTm_f := e_htonl e (rxTm_f pkt),
       txTm_s := e_htonl e (txTm_s pkt), txTm_f := e_htonl e (txTm_f pkt)\<rparr>"

section \<open>Receiving\<close>

definition zero_r :: ntp_r where
  "zero_r = \<lparr>r_srcaddr = 0, r_dstaddr = 0, r_version = 0, r_leap = 0, r_mode = 0, r_stratum = 0,
     r_poll = 0, r_precision = 0, r_rootdelay = 0, r_rootdisp = 0, r_refid = 0, r_reftime = 0,
     r_org = 0, r_rec = 0, r_xmt = 0, r_keyid = 0, r_mac = 0, r_dst = 0\<rparr>"

definition prv_create_ntp_r :: "env \<Rightarrow> ntp_r \<Rightarrow> ntp_packet \<Rightarrow> world \<Rightarrow> ntp_r \<times> world" where
  "prv_create_ntp_r e r pkt w =
     (let r = r\<lparr>r_srcaddr := w_ip w, r_dstaddr := DSTADDR,
            r_leap := drop_bit 6 (li_vn_mode pkt) AND 3,
            r_version := drop_bit 3 (li_vn_mode pkt) AND 7,
            r_mode := li_vn_mode pkt AND 7,
            r_stratum := k_stratum pkt, r_poll := k_poll pkt, r_precision := k_precision pkt,
            r_rootdelay := rootDelay pkt, r_rootdisp := rootDispersion pkt, r_refid := refId pkt,
            r_org := join32 (origTm_s pkt) (origTm_f pkt),
            r_reftime := join32 (refTm_s pkt) (refTm_f pkt),
            r_xmt := join32 (txTm_s pkt) (txTm_f pkt),
            r_rec := join32 (rxTm_s pkt) (rxTm_f pkt),
            r_keyid := 0, r_mac := 0\<rparr>;
          w = gettime e 0 w
      in (r\<lparr>r_dst := c_localTime (w_c w)\<rparr>, w))"

text \<open>
  recv_packet() clears the receive structure, waits for a packet, and on success decodes it and
  sets the local time to the server's receive timestamp.
\<close>

definition recv_packet :: "env \<Rightarrow> world \<Rightarrow> ntp_r \<times> world" where
  "recv_packet e w =
     (let (iReturned, pkt) = e_recvfrom e (w_recvs w); w = w\<lparr>w_recvs := Suc (w_recvs w)\<rparr>
      in if 0 < iReturned
         then let (r, w) = prv_create_ntp_r e zero_r (prv_swap_fields e pkt) w
              in (r, upd_c (\<lambda>c. c\<lparr>c_localTime := r_rec r\<rparr>) w)
         else (zero_r, w))"

section \<open>Transmitting\<close>

definition prep_xmit :: "env \<Rightarrow> ntp_x \<Rightarrow> world \<Rightarrow> ntp_x \<times> world" where
  "prep_xmit e x w =
     (let s = w_s w;
          x = x\<lparr>x_leap := s_leap s, x_stratum := s_stratum s,
            x_rootdelay := D2FP (e_d2u32 e) (s_rootdelay s),
            x_rootdisp := D2FP (e_d2u32 e) (s_rootdisp s), x_refid := s_refid s,
            x_reftime := s_reftime s, x_org := x_xmt x, x_rec := c_localTime (w_c w)\<rparr>;
          w = gettime e 1 w
      in (x\<lparr>x_xmt := c_localTime (w_c w)\<rparr>, w))"

definition prv_translate_ntp_x_to_ntp_packet :: "ntp_x \<Rightarrow> ntp_packet" where
  "prv_translate_ntp_x_to_ntp_packet x =
     \<lparr>li_vn_mode = push_bit 6 (x_leap x AND 3) OR push_bit 3 (x_version x AND 7) OR (x_mode x AND 7),
      k_stratum = x_stratum x, k_poll = x_poll x, k_precision = x_precision x,
      rootDelay = x_rootdelay x, rootDispersion = x_rootdisp x, refId = x_refid x,
      refTm_s = hi32 (x_reftime x), refTm_f = lo32 (x_reftime x),
      origTm_s = hi32 (x_org x), origTm_f = lo32 (x_org x),
      rxTm_s = hi32 (x_rec x), rxTm_f = lo32 (x_rec x),
      txTm_s = hi32 (x_xmt x), txTm_f = lo32 (x_xmt x)\<rparr>"

text \<open>
  xmit_packet() stamps the packet, records the transmit timestamp in the association of the
  server, and sends. What assoc_table_add() and FreeRTOS_sendto() return is only printed.
\<close>

definition xmit_packet :: "env \<Rightarrow> ntp_x \<Rightarrow> world \<Rightarrow> (ntp_x \<times> world) outcome" where
  "xmit_packet e x w =
     (let w = w\<lparr>w_dest := w_ip w\<rparr>;
          x = x\<lparr>x_srcaddr := w_ip w\<rparr>;
          w = gettime e 0 w;
          x = x\<lparr>x_xmt := c_localTime (w_c w)\<rparr>;
          pkt = prv_swap_fields e (prv_translate_ntp_x_to_ntp_packet x)
      in bind_r (assoc_table_add e (x_srcaddr x) (x_mode x) (x_xmt x) w) (\<lambda>(found, w).
         Inr (x, w\<lparr>w_sent := w_sent w @ [(w_dest w, pkt)]\<rparr>)))"

section \<open>The header byte\<close>

lemma header_byte:
  fixes l v m :: u8
  shows "drop_bit 6 (push_bit 6 (l AND 3) OR push_bit 3 (v AND 7) OR (m AND 7)) AND 3 = l AND 3"
    and "drop_bit 3 (push_bit 6 (l AND 3) OR push_bit 3 (v AND 7) OR (m AND 7)) AND 7 = v AND 7"
    and "(push_bit 6 (l AND 3) OR push_bit 3 (v AND 7) OR (m AND 7)) AND 7 = m AND 7"
proof -
  have m3: "(3 :: u8) = mask 2" and m7: "(7 :: u8) = mask 3"
    by (simp_all add: mask_eq_exp_minus_1)
  show "drop_bit 6 (push_bit 6 (l AND 3) OR push_bit 3 (v AND 7) OR (m AND 7)) AND 3 = l AND 3"
    "drop_bit 3 (push_bit 6 (l AND 3) OR push_bit 3 (v AND 7) OR (m AND 7)) AND 7 = v AND 7"
    "(push_bit 6 (l AND 3) OR push_bit 3 (v AND 7) OR (m AND 7)) AND 7 = m AND 7"
    unfolding m3 m7 by (rule bit_word_eqI; auto simp: bit_simps)+
qed

lemma translate_header:
  "drop_bit 6 (li_vn_mode (prv_translate_ntp_x_to_ntp_packet x)) AND 3 = x_leap x AND 3"
  "drop_bit 3 (li_vn_mode (prv_translate_ntp_x_to_ntp_packet x)) AND 7 = x_version x AND 7"
  "li_vn_mode (prv_translate_ntp_x_to_ntp_packet x) AND 7 = x_mode x AND 7"
  unfolding prv_translate_ntp_x_to_ntp_packet_def ntp_packet.select_convs by (rule header_byte)+

lemma translate_fields:
  "k_stratum (prv_translate_ntp_x_to_ntp_packet x) = x_stratum x"
  "k_poll (prv_translate_ntp_x_to_ntp_packet x) = x_poll x"
  "k_precision (prv_translate_ntp_x_to_ntp_packet x) = x_precision x"
  "rootDelay (prv_translate_ntp_x_to_ntp_packet x) = x_rootdelay x"
  "rootDispersion (prv_translate_ntp_x_to_ntp_packet x) = x_rootdisp x"
  "refId (prv_translate_ntp_x_to_ntp_packet x) = x_refid x"
  "join32 (refTm_s (prv_translate_ntp_x_to_ntp_packet x)) (refTm_f (prv_translate_ntp_x_to_ntp_packet x)) = x_reftime x"
  "join32 (origTm_s (prv_translate_ntp_x_to_ntp_packet x)) (origTm_f (prv_translate_ntp_x_to_ntp_packet x)) = x_org x"
  "join32 (rxTm_s (prv_translate_ntp_x_to_ntp_packet x)) (rxTm_f (prv_translate_ntp_x_to_ntp_packet x)) = x_rec x"
  "join32 (txTm_s (prv_translate_ntp_x_to_ntp_packet x)) (txTm_f (prv_translate_ntp_x_to_ntp_packet x)) = x_xmt x"
  by (simp_all add: prv_translate_ntp_x_to_ntp_packet_def)

lemma bit_byte_swap:
  "bit (byte_swap x) n \<longleftrightarrow>
     (if n < 8 then bit x (n + 24) else if n < 16 then bit x (n + 8)
      else if n < 24 then bit x (n - 8) else n < 32 \<and> bit x (n - 24))"
proof -
  have m: "(65280 :: u32) = push_bit 8 (mask 8)" "(16711680 :: u32) = push_bit 16 (mask 8)"
    by (simp_all add: mask_eq_exp_minus_1 push_bit_eq_mult)
  consider "n < 8" | "8 \<le> n" "n < 16" | "16 \<le> n" "n < 24" | "24 \<le> n" "n < 32" | "32 \<le> n" by linarith
  then show ?thesis
    unfolding byte_swap_def m
    by cases (simp_all add: bit_simps add.commute not_less [symmetric] impossible_bit, (auto simp: bit_simps dest: bit_imp_le_length)?)
qed
lemma byte_swap_twice [simp]: "byte_swap (byte_swap x) = x"
proof (rule bit_word_eqI)
  fix n assume "n < LENGTH(32)"
  then have "n < 32" by simp
  then consider "n < 8" | "8 \<le> n" "n < 16" | "16 \<le> n" "n < 24" | "24 \<le> n" "n < 32" by linarith
  then show "bit (byte_swap (byte_swap x)) n = bit x n"
  proof cases
    case 3
    then have "\<not> n - 8 < 8" "n - 8 < 16" "n - 8 + 8 = n" by linarith+
    with 3 show ?thesis by (simp only: bit_byte_swap) simp
  next
    case 4
    then have "n - 24 < 8" "n - 24 + 24 = n" by linarith+
    with 4 show ?thesis by (simp only: bit_byte_swap) simp
  qed (simp_all add: bit_byte_swap)
qed

section \<open>Frames\<close>

lemma gettime_heap [simp]:
  "valid (gettime e b w) p = valid w p" "peer (gettime e b w) p = peer w p"
  "table_ok (gettime e b w) = table_ok w" "heap_ok (gettime e b w) = heap_ok w"
  by (simp_all add: valid_frame [of "gettime e b w" w] peer_frame [of "gettime e b w" w]
      table_ok_def heap_ok_def list_all_iff cong: ptr.case_cong)

lemma table_ok_frame [simp]:
  "table_ok (w\<lparr>w_dest := a\<rparr>) = table_ok w" "table_ok (w\<lparr>w_sent := l\<rparr>) = table_ok w"
  "table_ok (w\<lparr>w_c := c\<rparr>) = table_ok w" "table_ok (w\<lparr>w_s := s\<rparr>) = table_ok w"
  "table_ok (w\<lparr>w_recvs := n\<rparr>) = table_ok w" "table_ok (w\<lparr>w_last_nextdate := d\<rparr>) = table_ok w"
  "table_ok (w\<lparr>w_ip := a\<rparr>) = table_ok w" "table_ok (w\<lparr>w_rands := n\<rparr>) = table_ok w"
  by (simp_all add: table_ok_def list_all_iff)

text \<open>The packet structure a server's answer decodes to.\<close>

lemma recv_packet_fields:
  assumes "e_recvfrom e (w_recvs w) = (n, pkt)" and "0 < n"
  shows "recv_packet e w =
    (let w = w\<lparr>w_recvs := Suc (w_recvs w)\<rparr>; (r, w) = prv_create_ntp_r e zero_r (prv_swap_fields e pkt) w
     in (r, upd_c (\<lambda>c. c\<lparr>c_localTime := r_rec r\<rparr>) w))"
  using assms by (simp add: recv_packet_def)

lemma recv_packet_frame:
  "w_heap (snd (recv_packet e w)) = w_heap w" "w_s (snd (recv_packet e w)) = w_s w"
  "w_peers (snd (recv_packet e w)) = w_peers w" "w_size (snd (recv_packet e w)) = w_size w"
  "w_sent (snd (recv_packet e w)) = w_sent w" "w_brk (snd (recv_packet e w)) = w_brk w"
  "w_ip (snd (recv_packet e w)) = w_ip w"
  "w_last_nextdate (snd (recv_packet e w)) = w_last_nextdate w"
  "w_recvs (snd (recv_packet e w)) = Suc (w_recvs w)"
  "c_t (w_c (snd (recv_packet e w))) = c_t (w_c w)"
  by (auto simp: recv_packet_def prv_create_ntp_r_def Let_def split: prod.splits)

section \<open>Properties\<close>

text \<open>C13: the packet encoding round trip. When the byte-order macro is its own inverse, a packet
  that carries a transmit structure in network byte order is decoded by recv_packet() to the same
  leap, version and mode (in the bits the header byte has for them), the same stratum, poll,
  precision, root delay and dispersion, reference id and all four timestamps; the sender is taken
  to be the current server, and the local time becomes the packet's receive timestamp.\<close>

theorem packet_roundtrip:
  assumes htonl: "\<And>v. e_htonl e (e_htonl e v) = v"
    and recv: "e_recvfrom e (w_recvs w) =
      (n, prv_swap_fields e (prv_translate_ntp_x_to_ntp_packet x))" and n: "0 < n"
  shows "let (r, w') = recv_packet e w in
    r_leap r = x_leap x AND 3 \<and> r_version r = x_version x AND 7 \<and> r_mode r = x_mode x AND 7 \<and>
    r_stratum r = x_stratum x \<and> r_poll r = x_poll x \<and> r_precision r = x_precision x \<and>
    r_rootdelay r = x_rootdelay x \<and> r_rootdisp r = x_rootdisp x \<and> r_refid r = x_refid x \<and>
    r_reftime r = x_reftime x \<and> r_org r = x_org x \<and> r_rec r = x_rec x \<and> r_xmt r = x_xmt x \<and>
    r_srcaddr r = w_ip w \<and> c_localTime (w_c w') = x_rec x"
proof -
  have "prv_swap_fields e (prv_swap_fields e pkt) = pkt" for pkt
    by (simp add: prv_swap_fields_def htonl)
  with recv n show ?thesis
    by (simp add: recv_packet_def prv_create_ntp_r_def Let_def translate_header
        translate_fields)
qed

text \<open>xmit_packet() sends exactly one packet, to the current server, stamped with the local
  time; and it stores that very timestamp in the first association of the table with the
  server's address and the packet's mode, so that the answer's origin timestamp can be checked
  against it. Every other association, the table and the system variables are unchanged.\<close>

theorem xmit_packet_records:
  assumes "table_ok w"
  shows "\<exists>x' w'. xmit_packet e x w = Inr (x', w') \<and>
    x' = x\<lparr>x_srcaddr := w_ip w, x_xmt := c_localTime (w_c w')\<rparr> \<and>
    w_sent w' = w_sent w @ [(w_ip w, prv_swap_fields e (prv_translate_ntp_x_to_ntp_packet x'))] \<and>
    w_s w' = w_s w \<and> w_peers w' = w_peers w \<and> w_size w' = w_size w \<and> w_ip w' = w_ip w \<and>
    w_c w' = w_c (gettime e 0 (w\<lparr>w_dest := w_ip w\<rparr>)) \<and> (\<forall>q. valid w' q = valid w q) \<and>
    (case List.find (\<lambda>p. p_srcaddr (peer w p) = w_ip w \<and> p_hmode (peer w p) = x_mode x) (w_peers w) of
       None \<Rightarrow> (\<forall>q. peer w' q = peer w q)
     | Some p \<Rightarrow> peer w' p = (peer w p)\<lparr>p_xmt := x_xmt x'\<rparr> \<and> (\<forall>q. q \<noteq> p \<longrightarrow> peer w' q = peer w q))"
proof -
  let ?v = "gettime e 0 (w\<lparr>w_dest := w_ip w\<rparr>)"
  let ?f = "List.find (\<lambda>p. p_srcaddr (peer w p) = w_ip w \<and> p_hmode (peer w p) = x_mode x) (w_peers w)"
  have v: "table_ok ?v" using assms by simp
  show ?thesis
  proof (cases ?f)
    case None
    then show ?thesis
      using assoc_table_add_list [OF v] by (simp add: xmit_packet_def Let_def)
  next
    case (Some p)
    then have "valid w p"
      using assms by (auto simp: table_ok_def list_all_iff dest: find_SomeD)
    with Some show ?thesis
      using assoc_table_add_list [OF v] by (simp add: xmit_packet_def Let_def)
  qed
qed

section \<open>Witnesses\<close>

text \<open>The platform with a server that answers the given packet.\<close>

definition demo_server :: "ntp_packet \<Rightarrow> env" where
  "demo_server pkt = demo_env\<lparr>e_recvfrom := (\<lambda>n. (48, pkt))\<rparr>"

theorem packet_roundtrip_witness:
  "let pkt = prv_swap_fields demo_env (prv_translate_ntp_x_to_ntp_packet (zero_x\<lparr>x_xmt := 77, x_rec := 9\<rparr>));
       (r, w') = recv_packet (demo_server pkt) boot_world
   in r_xmt r = 77 \<and> c_localTime (w_c w') = 9"
proof -
  let ?x = "zero_x\<lparr>x_xmt := 77, x_rec := 9\<rparr>"
  let ?pkt = "prv_swap_fields demo_env (prv_translate_ntp_x_to_ntp_packet ?x)"
  have h: "e_htonl (demo_server p) (e_htonl (demo_server p) v) = v" for p v
    by (simp add: demo_server_def demo_env_def)
  have same: "prv_swap_fields (demo_server p) k = prv_swap_fields demo_env k" for p k
    by (simp add: prv_swap_fields_def demo_server_def)
  have r: "e_recvfrom (demo_server ?pkt) (w_recvs boot_world) =
      (48, prv_swap_fields (demo_server ?pkt) (prv_translate_ntp_x_to_ntp_packet ?x))"
    by (simp only: same) (simp add: demo_server_def)
  from packet_roundtrip [OF h r] show ?thesis
    by (auto simp: Let_def)
qed

theorem xmit_packet_records_witness:
  "\<exists>x' w'. xmit_packet demo_env (zero_x\<lparr>x_mode := 3\<rparr>) (one_peer (zero_p\<lparr>p_hmode := 3\<rparr>)) = Inr (x', w') \<and>
     p_xmt (peer w' (Addr 0)) = x_xmt x'"
  using xmit_packet_records [of "one_peer (zero_p\<lparr>p_hmode := 3\<rparr>)" demo_env "zero_x\<lparr>x_mode := 3\<rparr>"]
  by (auto simp: zero_p_def zero_x_def split: option.splits if_splits)

end
