(* ===== verification/Ranges.thy ===== *)
theory Ranges
  imports Platform
begin

text \<open>
  Magnitudes of doubles: \<open>bd k x\<close> says that x is finite and at most \<open>2 ^ k\<close> in absolute value. The
  rules follow the arithmetic of the program, so that a routine's intermediate values are bounded
  by reading its text; with them a call of sqrt() is shown to return.
\<close>

definition bd :: "nat \<Rightarrow> dbl \<Rightarrow> bool" where
  "bd k x \<longleftrightarrow> (\<exists>r. x = Fin r \<and> \<bar>r\<bar> \<le> 2 ^ k)"

named_theorems bd_rules \<open>magnitudes of results\<close>

lemma repr_pow2: "repr (2 ^ k)"
  using repr_scaled [of 1 "int k"] by (simp add: power_int_def)

lemma pow2_lt_ovf: "k \<le> 1000 \<Longrightarrow> (2::real) ^ k < ovf"
  using ovf_gt power_increasing [of k 1000 "2::real"] by simp

lemma flt_le_pow2:
  assumes "\<bar>r\<bar> \<le> 2 ^ k" and "k \<le> 1000"
  shows "flt r = Fin (rnd r)" and "\<bar>rnd r\<bar> \<le> 2 ^ k"
proof -
  show *: "\<bar>rnd r\<bar> \<le> 2 ^ k"
    using assms(1) repr_pow2 [of k] by (intro b64.R_abs_upper) (simp_all add: repr_def)
  then show "flt r = Fin (rnd r)"
    using pow2_lt_ovf [OF assms(2)] by (auto simp: flt_def Let_def)
qed

lemma bd_flt: "\<bar>r\<bar> \<le> 2 ^ k \<Longrightarrow> k \<le> 1000 \<Longrightarrow> bd k (flt r)"
  using flt_le_pow2 [of r k] by (auto simp: bd_def)

lemma bd_mono: "bd j x \<Longrightarrow> j \<le> k \<Longrightarrow> bd k x"
  unfolding bd_def using power_increasing [of j k "2::real"] order_trans by (metis one_le_numeral)

lemma bd_Fin [simp]: "bd k (Fin r) \<longleftrightarrow> \<bar>r\<bar> \<le> 2 ^ k"
  by (simp add: bd_def)

lemma bd_not_NaN: "bd k x \<Longrightarrow> x \<noteq> NaN"
  by (auto simp: bd_def)

lemma bd_le: "bd k x \<Longrightarrow> x \<le> Fin (2 ^ k)"
  by (auto simp: bd_def)

lemma bd_add [bd_rules]:
  assumes "bd j x" and "bd j y" and "j < 1000"
  shows "bd (Suc j) (x + y)"
proof -
  from assms obtain a b where ab: "x = Fin a" "y = Fin b" "\<bar>a\<bar> \<le> 2 ^ j" "\<bar>b\<bar> \<le> 2 ^ j"
    by (auto simp: bd_def)
  then have "\<bar>a + b\<bar> \<le> 2 ^ Suc j" by simp
  then show ?thesis using ab(1,2) assms(3) by (simp only: dbl_fin_ops) (rule bd_flt, simp_all)
qed

lemma bd_uminus [bd_rules]: "bd j x \<Longrightarrow> bd j (- x)"
  by (auto simp: bd_def)

lemma bd_diff [bd_rules]:
  assumes "bd j x" and "bd j y" and "j < 1000"
  shows "bd (Suc j) (x - y)"
proof -
  from assms obtain a b where ab: "x = Fin a" "y = Fin b" "\<bar>a\<bar> \<le> 2 ^ j" "\<bar>b\<bar> \<le> 2 ^ j"
    by (auto simp: bd_def)
  then have "\<bar>a - b\<bar> \<le> 2 ^ Suc j" by simp
  then show ?thesis using ab(1,2) assms(3) by (simp only: dbl_fin_ops) (rule bd_flt, simp_all)
qed

lemma bd_mult [bd_rules]:
  assumes "bd j x" and "bd k y" and "j + k \<le> 1000"
  shows "bd (j + k) (x * y)"
proof -
  from assms obtain a b where ab: "x = Fin a" "y = Fin b" "\<bar>a\<bar> \<le> 2 ^ j" "\<bar>b\<bar> \<le> 2 ^ k"
    by (auto simp: bd_def)
  then have "\<bar>a * b\<bar> \<le> 2 ^ j * 2 ^ k"
    unfolding abs_mult by (intro mult_mono) simp_all
  then have "\<bar>a * b\<bar> \<le> 2 ^ (j + k)" by (simp add: power_add)
  with ab assms(3) show ?thesis by (auto simp: bd_flt)
qed

lemma bd_divide [bd_rules]:
  assumes "bd j x" and "Fin 1 \<le> y" and "j \<le> 1000"
  shows "bd j (x / y)"
proof -
  from assms(1) obtain a where a: "x = Fin a" "\<bar>a\<bar> \<le> 2 ^ j" by (auto simp: bd_def)
  from assms(2) consider b where "y = Fin b" "1 \<le> b" | "y = PInf"
    by (cases y) (auto simp: less_eq_dbl_def)
  then show ?thesis
  proof cases
    case 1
    have "\<bar>a / b\<bar> \<le> \<bar>a\<bar>"
      using 1(2) by (simp add: abs_divide divide_le_eq mult_le_cancel_left1)
    then have "\<bar>a / b\<bar> \<le> 2 ^ j" using a(2) by linarith
    with 1 a assms(3) show ?thesis by (simp add: bd_flt)
  next
    case 2
    with a show ?thesis by (simp add: divide_dbl_def)
  qed
qed

lemma bd_fabs [bd_rules]: "bd j x \<Longrightarrow> bd j (fabs x)"
  by (auto simp: bd_def)

lemma bd_cmax [bd_rules]: "bd j x \<Longrightarrow> bd j y \<Longrightarrow> bd j (cmax x y)"
  by (simp add: cmax_def)

lemma bd_cmin [bd_rules]: "bd j x \<Longrightarrow> bd j y \<Longrightarrow> bd j (cmin x y)"
  by (simp add: cmin_def)

lemma bd_cmin_right: "0 \<le> x \<Longrightarrow> bd j y \<Longrightarrow> bd j (cmin x y)"
  by (cases x; cases y) (auto simp: cmin_def zero_dbl_def less_eq_dbl_def less_dbl_def bd_def)

lemma bd_SQUARE [bd_rules]: "bd j x \<Longrightarrow> j + j \<le> 1000 \<Longrightarrow> bd (j + j) (SQUARE x)"
  by (simp add: SQUARE_def bd_mult)

lemma ge1_mult:
  assumes "Fin 1 \<le> x" and "Fin 1 \<le> y"
  shows "Fin 1 \<le> x * (y :: dbl)"
proof -
  have r1: "repr 1" "\<bar>1\<bar> < ovf" using repr_int [of 1] small_lt_ovf [of 1] by simp_all
  from assms consider a b where "x = Fin a" "y = Fin b" "1 \<le> a" "1 \<le> b"
    | "x = PInf \<and> y \<noteq> NaN \<and> 0 < y" | "y = PInf \<and> x \<noteq> NaN \<and> 0 < x"
    by (cases x; cases y) (auto simp: less_eq_dbl_def less_dbl_def zero_dbl_def)
  then show ?thesis
  proof cases
    case 1
    then have "1 * 1 \<le> a * b" by (intro mult_mono) simp_all
    then show ?thesis using 1 r1 flt_ge [of 1 "a * b"] by simp
  next
    case 2
    then show ?thesis
      by (cases y) (auto simp: times_dbl_def inf_sgn_def less_eq_dbl_def less_dbl_def zero_dbl_def)
  next
    case 3
    then show ?thesis
      by (cases x) (auto simp: times_dbl_def inf_sgn_def less_eq_dbl_def less_dbl_def zero_dbl_def)
  qed
qed

lemma dbl_of_int_ge1: "1 \<le> k \<Longrightarrow> Fin 1 \<le> dbl_of_int k"
  using dbl_of_int_mono [of 1 k] by (simp add: dbl_of_int_exact)

lemma dbl_of_int_nonneg: "0 \<le> k \<Longrightarrow> 0 \<le> dbl_of_int k"
  using dbl_of_int_mono [of 0 k] by (simp add: dbl_of_int_exact zero_dbl_def)

lemma sqrt_returns:
  assumes "bd k x" and "wfd x" and "k \<le> 68"
  obtains r where "c_sqrt x = Inr r"
proof -
  have "x \<le> Fin (2 ^ 68)" using bd_le [OF bd_mono [OF assms(1,3)]] .
  with assms(2) show thesis using that c_sqrt_total by metis
qed

end
