(* ===== verification/Vfo.thy ===== *)
theory Vfo
  imports Wire Ranges
begin

text \<open>
  The clock discipline of src/src/NTP_vfo.c: rstclock() and local_clock(). The state machine of
  local_clock() has one regime for offsets above the step threshold (an outlier) and one for the
  others (an inlier); each either returns at once or goes on to the frequency and poll-interval
  updates with a return value and a frequency increment. The definitions follow that shape:
  \<open>Return\<close> is an early return, \<open>Discipline\<close> the fall-through to the common tail.
\<close>

section \<open>The operations\<close>

definition rstclock :: "int \<Rightarrow> tstamp \<Rightarrow> dbl \<Rightarrow> world \<Rightarrow> world" where
  "rstclock state t offset w =
     upd_c (\<lambda>c. c\<lparr>c_state := state, c_last := offset, c_offset := offset, c_t := c_t c + 1\<rparr>)
       (upd_s (\<lambda>s. s\<lparr>s_t := t\<rparr>) w)"

datatype vfo_exit = Return clock_code | Discipline clock_code dbl

text \<open>
  The default branch of the outlier regime: step the time, restart the poll interval, and enter
  the next state. The local variable \<open>state\<close> it tests is not assigned on any path to the test;
  its value is the environment's.
\<close>

definition outlier_step :: "env \<Rightarrow> ntp_p \<Rightarrow> dbl \<Rightarrow> dbl \<Rightarrow> world \<Rightarrow> vfo_exit \<times> world" where
  "outlier_step e q offset freq w =
     (let w = step_time e offset w;
          w = upd_c (\<lambda>c. c\<lparr>c_count := 0\<rparr>) w;
          w = upd_s (\<lambda>s. s\<lparr>s_poll := word_of_int MINPOLL\<rparr>) w
      in if e_state e w = NSET then (Return STEP, rstclock FREQ (p_t q) (Fin 0) w)
         else (Discipline STEP freq, rstclock SYNC (p_t q) (Fin 0) w))"

definition outlier :: "env \<Rightarrow> ntp_p \<Rightarrow> dbl \<Rightarrow> dbl \<Rightarrow> world \<Rightarrow> vfo_exit \<times> world" where
  "outlier e q offset mu w =
     (if c_state (w_c w) = SYNC then (Return SLEW, w)
      else if c_state (w_c w) = FREQ
      then (if mu < dbl_of_int WATCH then (Return IGNORE, w)
            else let freq = (offset - c_offset (w_c w)) / mu
                 in if mu < dbl_of_int WATCH then (Return IGNORE, w)
                    else outlier_step e q offset freq w)
      else if c_state (w_c w) = SPIK
      then (if mu < dbl_of_int WATCH then (Return IGNORE, w)
            else outlier_step e q offset (Fin 0) w)
      else outlier_step e q offset (Fin 0) w)"

text \<open>The jitter update at the head of the inlier regime.\<close>

definition inlier_jitter :: "env \<Rightarrow> dbl \<Rightarrow> world \<Rightarrow> world outcome" where
  "inlier_jitter e offset w =
     (let etemp = SQUARE (c_jitter (w_c w));
          dtemp = SQUARE (cmax (fabs (offset - c_last (w_c w)))
                    (LOG2D (e_shl e) (sint (s_precision (w_s w)))))
      in bind_r (c_sqrt ((etemp + (dtemp - etemp)) / dbl_of_int AVG)) (\<lambda>j.
         Inr (upd_c (\<lambda>c. c\<lparr>c_jitter := j\<rparr>) w)))"

text \<open>The FLL and PLL contributions of the default branch.\<close>

definition pll_fll :: "env \<Rightarrow> dbl \<Rightarrow> dbl \<Rightarrow> world \<Rightarrow> dbl" where
  "pll_fll e offset mu w =
     (let poll = uint (s_poll (w_s w));
          freq = Fin 0;
          freq = (if dbl_of_int (ALLAN div 2) < LOG2D (e_shl e) poll
                  then let etemp = dbl_of_int (i32 (MAXPOLL + 1 - poll));
                           etemp = (if etemp < dbl_of_int AVG then dbl_of_int AVG else etemp)
                       in freq + (offset - c_offset (w_c w)) / (cmax mu (dbl_of_int ALLAN) * etemp)
                  else freq);
          etemp = cmin mu (LOG2D (e_shl e) poll);
          dtemp = dbl_of_int (4 * PLL) * LOG2D (e_shl e) poll
      in freq + offset * etemp / (dtemp * dtemp))"

definition inlier :: "env \<Rightarrow> ntp_p \<Rightarrow> dbl \<Rightarrow> dbl \<Rightarrow> world \<Rightarrow> (vfo_exit \<times> world) outcome" where
  "inlier e q offset mu w =
     bind_r (inlier_jitter e offset w) (\<lambda>w.
       Inr (if c_state (w_c w) = NSET
            then (Return IGNORE, rstclock FREQ (p_t q) offset w)
            else if c_state (w_c w) = FSET
            then (Discipline SLEW (Fin 0), rstclock SYNC (p_t q) offset w)
            else if c_state (w_c w) = FREQ
            then (if c_t (w_c w) - s_t (w_s w) < word_of_int WATCH then (Return IGNORE, w)
                  else (Discipline SLEW ((offset - c_offset (w_c w)) / mu), w))
            else (Discipline SLEW (pll_fll e offset mu w), rstclock SYNC (p_t q) offset w)))"

text \<open>The common tail: frequency and wander, then the poll interval.\<close>

definition update_freq :: "dbl \<Rightarrow> world \<Rightarrow> world outcome" where
  "update_freq freq w =
     (let freq = freq + c_freq (w_c w);
          w = upd_c (\<lambda>c. c\<lparr>c_freq := cmax (cmin MAXFREQ freq) (- MAXFREQ)\<rparr>) w;
          etemp = SQUARE (c_wander (w_c w));
          dtemp = SQUARE freq
      in bind_r (c_sqrt (etemp + (dtemp - etemp) / dbl_of_int AVG)) (\<lambda>v.
         Inr (upd_c (\<lambda>c. c\<lparr>c_wander := v\<rparr>) w)))"

definition adjust_poll :: "world \<Rightarrow> world" where
  "adjust_poll w =
     (let poll = s_poll (w_s w) in
      if fabs (c_offset (w_c w)) < dbl_of_int PGATE * c_jitter (w_c w)
      then let count = i32 (c_count (w_c w) + uint poll)
           in if LIMIT < count
              then if poll < word_of_int MAXPOLL
                   then upd_s (\<lambda>s. s\<lparr>s_poll := poll + 1\<rparr>) (upd_c (\<lambda>c. c\<lparr>c_count := 0\<rparr>) w)
                   else upd_c (\<lambda>c. c\<lparr>c_count := LIMIT\<rparr>) w
              else upd_c (\<lambda>c. c\<lparr>c_count := count\<rparr>) w
      else let count = i32 (c_count (w_c w) - uint poll * 2)
           in if count < - LIMIT
              then if word_of_int MINPOLL < poll
                   then upd_s (\<lambda>s. s\<lparr>s_poll := poll - 1\<rparr>) (upd_c (\<lambda>c. c\<lparr>c_count := 0\<rparr>) w)
                   else upd_c (\<lambda>c. c\<lparr>c_count := - LIMIT\<rparr>) w
              else upd_c (\<lambda>c. c\<lparr>c_count := count\<rparr>) w)"

fun vfo_tail :: "vfo_exit \<Rightarrow> world \<Rightarrow> (clock_code \<times> world) outcome" where
  "vfo_tail (Return rval) w = Inr (rval, w)"
| "vfo_tail (Discipline rval freq) w =
     bind_r (update_freq freq w) (\<lambda>w. Inr (rval, adjust_poll w))"

definition local_clock :: "env \<Rightarrow> ptr \<Rightarrow> dbl \<Rightarrow> world \<Rightarrow> (clock_code \<times> world) outcome" where
  "local_clock e p offset w =
     (if dbl_of_int PANICT < fabs offset then Inr (PANIC, w)
      else bind_r (load e w p) (\<lambda>q.
           let mu = dbl_of_int (uint (p_t q - s_t (w_s w)))
           in if STEPT < fabs offset
              then (case outlier e q offset mu w of (r, w) \<Rightarrow> vfo_tail r w)
              else bind_r (inlier e q offset mu w) (\<lambda>(r, w). vfo_tail r w)))"

section \<open>What the pieces leave unchanged\<close>

lemma rstclock_simps [simp]:
  "c_state (w_c (rstclock st t x w)) = st" "c_offset (w_c (rstclock st t x w)) = x"
  "c_last (w_c (rstclock st t x w)) = x" "c_t (w_c (rstclock st t x w)) = c_t (w_c w) + 1"
  "c_freq (w_c (rstclock st t x w)) = c_freq (w_c w)" "c_count (w_c (rstclock st t x w)) = c_count (w_c w)"
  "c_jitter (w_c (rstclock st t x w)) = c_jitter (w_c w)"
  "c_wander (w_c (rstclock st t x w)) = c_wander (w_c w)"
  "s_t (w_s (rstclock st t x w)) = t" "s_poll (w_s (rstclock st t x w)) = s_poll (w_s w)"
  "s_p (w_s (rstclock st t x w)) = s_p (w_s w)" "w_heap (rstclock st t x w) = w_heap w"
  "w_peers (rstclock st t x w) = w_peers w" "w_size (rstclock st t x w) = w_size w"
  "w_brk (rstclock st t x w) = w_brk w" "w_sent (rstclock st t x w) = w_sent w"
  "w_ip (rstclock st t x w) = w_ip w" "w_last_nextdate (rstclock st t x w) = w_last_nextdate w"
  "c_localTime (w_c (rstclock st t x w)) = c_localTime (w_c w)"
  "s_precision (w_s (rstclock st t x w)) = s_precision (w_s w)"
  by (simp_all add: rstclock_def)

text \<open>The part of the world the clock discipline does not touch.\<close>

definition vfo_rest :: "world \<Rightarrow> world" where
  "vfo_rest w = w\<lparr>w_s := (w_s w)\<lparr>s_t := 0, s_poll := 0\<rparr>, w_c := zero_c, w_sems := 0\<rparr>"

lemma vfo_rest_simps [simp]:
  "vfo_rest (w\<lparr>w_c := c\<rparr>) = vfo_rest w" "vfo_rest (upd_s (\<lambda>s. s\<lparr>s_poll := q\<rparr>) w) = vfo_rest w"
  "vfo_rest (w\<lparr>w_s := (w_s w)\<lparr>s_poll := q\<rparr>, w_c := c\<rparr>) = vfo_rest w"
  "vfo_rest (w\<lparr>w_c := c, w_s := (w_s w)\<lparr>s_poll := q\<rparr>\<rparr>) = vfo_rest w"
  "vfo_rest (rstclock st t x w) = vfo_rest w" "vfo_rest (w\<lparr>w_sems := n\<rparr>) = vfo_rest w"
  by (simp_all add: vfo_rest_def rstclock_def)

lemma vfo_rest_update_localTime [simp]: "vfo_rest (prv_update_localTime e x b w) = vfo_rest w"
  by (simp add: prv_update_localTime_def Let_def split: prod.splits)

lemma vfo_rest_step_time [simp]: "vfo_rest (step_time e x w) = vfo_rest w"
  by (simp add: step_time_def)

lemma vfo_rest_fields:
  assumes "vfo_rest w' = vfo_rest w"
  shows "w_heap w' = w_heap w" "w_peers w' = w_peers w" "w_size w' = w_size w" "w_brk w' = w_brk w"
    "w_sent w' = w_sent w" "w_ip w' = w_ip w" "w_last_nextdate w' = w_last_nextdate w"
    "s_p (w_s w') = s_p (w_s w)" "s_v (w_s w') = s_v (w_s w)" "s_n (w_s w') = s_n (w_s w)"
    "s_m (w_s w') = s_m (w_s w)" "s_precision (w_s w') = s_precision (w_s w)"
    "s_leap (w_s w') = s_leap (w_s w)" "s_stratum (w_s w') = s_stratum (w_s w)"
    "s_refid (w_s w') = s_refid (w_s w)" "s_offset (w_s w') = s_offset (w_s w)"
    "s_jitter (w_s w') = s_jitter (w_s w)" "s_rootdelay (w_s w') = s_rootdelay (w_s w)"
    "s_rootdisp (w_s w') = s_rootdisp (w_s w)" "s_reftime (w_s w') = s_reftime (w_s w)"
  using arg_cong [OF assms, of w_heap] arg_cong [OF assms, of w_peers]
    arg_cong [OF assms, of w_size] arg_cong [OF assms, of w_brk] arg_cong [OF assms, of w_sent]
    arg_cong [OF assms, of w_ip] arg_cong [OF assms, of w_last_nextdate]
    arg_cong [OF assms, of "s_p \<circ> w_s"] arg_cong [OF assms, of "s_v \<circ> w_s"]
    arg_cong [OF assms, of "s_n \<circ> w_s"] arg_cong [OF assms, of "s_m \<circ> w_s"]
    arg_cong [OF assms, of "s_precision \<circ> w_s"] arg_cong [OF assms, of "s_leap \<circ> w_s"]
    arg_cong [OF assms, of "s_stratum \<circ> w_s"] arg_cong [OF assms, of "s_refid \<circ> w_s"]
    arg_cong [OF assms, of "s_offset \<circ> w_s"] arg_cong [OF assms, of "s_jitter \<circ> w_s"]
    arg_cong [OF assms, of "s_rootdelay \<circ> w_s"] arg_cong [OF assms, of "s_rootdisp \<circ> w_s"]
    arg_cong [OF assms, of "s_reftime \<circ> w_s"]
  by (simp_all add: vfo_rest_def)

lemma adjust_poll_frame [simp]:
  "c_state (w_c (adjust_poll w)) = c_state (w_c w)" "c_freq (w_c (adjust_poll w)) = c_freq (w_c w)"
  "c_t (w_c (adjust_poll w)) = c_t (w_c w)" "s_t (w_s (adjust_poll w)) = s_t (w_s w)"
  "c_offset (w_c (adjust_poll w)) = c_offset (w_c w)" "c_last (w_c (adjust_poll w)) = c_last (w_c w)"
  "c_jitter (w_c (adjust_poll w)) = c_jitter (w_c w)" "c_wander (w_c (adjust_poll w)) = c_wander (w_c w)"
  by (simp_all add: adjust_poll_def Let_def)

lemma vfo_rest_adjust_poll [simp]: "vfo_rest (adjust_poll w) = vfo_rest w"
  by (simp add: adjust_poll_def vfo_rest_def Let_def)

lemma update_freq_run:
  assumes "update_freq freq w = Inr w'"
  shows "\<exists>v. w' = upd_c (\<lambda>c. c\<lparr>c_freq := cmax (cmin MAXFREQ (freq + c_freq (w_c w))) (- MAXFREQ), c_wander := v\<rparr>) w"
  using assms by (auto simp: update_freq_def Let_def outcome_simps)

lemma inlier_jitter_run:
  assumes "inlier_jitter e offset w = Inr w'"
  shows "\<exists>j. w' = upd_c (\<lambda>c. c\<lparr>c_jitter := j\<rparr>) w"
  using assms by (auto simp: inlier_jitter_def Let_def outcome_simps)

text \<open>The two shapes of a completed run.\<close>

lemma local_clock_run:
  assumes "local_clock e p offset w = Inr (r, w')"
  obtains "r = PANIC" and "w' = w" and "dbl_of_int PANICT < fabs offset"
  | q where "load e w p = Inr q" and "\<not> dbl_of_int PANICT < fabs offset"
      and "if STEPT < fabs offset
           then outlier e q offset (dbl_of_int (uint (p_t q - s_t (w_s w)))) w = (Return r, w')
           else inlier e q offset (dbl_of_int (uint (p_t q - s_t (w_s w)))) w = Inr (Return r, w')"
  | q v freq u where "load e w p = Inr q" and "\<not> dbl_of_int PANICT < fabs offset"
      and "if STEPT < fabs offset
           then outlier e q offset (dbl_of_int (uint (p_t q - s_t (w_s w)))) w = (Discipline r freq, v)
           else inlier e q offset (dbl_of_int (uint (p_t q - s_t (w_s w)))) w = Inr (Discipline r freq, v)"
      and "update_freq freq v = Inr u" and "w' = adjust_poll u"
proof -
  note * = that
  show thesis
  proof (cases "dbl_of_int PANICT < fabs offset")
    case True
    with assms *(1) show thesis by (simp add: local_clock_def)
  next
    case small: False
    then obtain q where q: "load e w p = Inr q"
      using assms by (auto simp: local_clock_def outcome_simps)
    obtain x v where x: "if STEPT < fabs offset
        then outlier e q offset (dbl_of_int (uint (p_t q - s_t (w_s w)))) w = (x, v)
        else inlier e q offset (dbl_of_int (uint (p_t q - s_t (w_s w)))) w = Inr (x, v)"
      and tail: "vfo_tail x v = Inr (r, w')"
      using assms small q
      by (auto simp: local_clock_def Let_def outcome_simps split: if_splits prod.splits)
    show thesis
    proof (cases x)
      case (Return rv)
      with x tail small q *(2) show thesis by simp
    next
      case (Discipline rv freq)
      with tail obtain u where "update_freq freq v = Inr u" "rv = r" "w' = adjust_poll u"
        by (auto simp: outcome_simps)
      with x Discipline small q *(3) show thesis by simp
    qed
  qed
qed

section \<open>Frames of the regimes\<close>

lemma outlier_frame:
  assumes "outlier e q offset mu w = (x, w')"
  shows "vfo_rest w' = vfo_rest w"
  using assms by (auto simp: outlier_def outlier_step_def Let_def split: if_splits)

lemma inlier_frame:
  assumes "inlier e q offset mu w = Inr (x, w')"
  shows "vfo_rest w' = vfo_rest w"
  using assms
  by (auto simp: inlier_def outcome_simps dest!: inlier_jitter_run split: if_splits)

lemma local_clock_frame:
  assumes "local_clock e p offset w = Inr (r, w')"
  shows "vfo_rest w' = vfo_rest w"
  using assms
  by (cases rule: local_clock_run)
    (auto split: if_splits dest!: update_freq_run outlier_frame inlier_frame)

section \<open>The state machine\<close>

text \<open>
  The transitions of the clock state with the code local_clock() returns. From NSET, FSET and
  SPIK an outlier steps the time; in SYNC it is ignored and the state stays SYNC.
\<close>

inductive vfo_step :: "int \<Rightarrow> clock_code \<Rightarrow> int \<Rightarrow> bool" where
  panic: "vfo_step st PANIC st"
| spike: "vfo_step SYNC SLEW SYNC"
| wait: "st = FREQ \<or> st = SPIK \<Longrightarrow> vfo_step st IGNORE st"
| step_measure: "st \<noteq> SYNC \<Longrightarrow> vfo_step st STEP FREQ"
| step_sync: "st \<noteq> SYNC \<Longrightarrow> vfo_step st STEP SYNC"
| first: "vfo_step NSET IGNORE FREQ"
| measured: "vfo_step FREQ SLEW FREQ"
| track: "st \<noteq> NSET \<Longrightarrow> st \<noteq> FREQ \<Longrightarrow> vfo_step st SLEW SYNC"

code_pred vfo_step .

lemma outlier_cases:
  assumes "outlier e q offset mu w = (x, w')"
  shows "x = Return SLEW \<and> w' = w \<and> c_state (w_c w) = SYNC \<or>
    x = Return IGNORE \<and> w' = w \<and> (c_state (w_c w) = FREQ \<or> c_state (w_c w) = SPIK) \<or>
    x = Return STEP \<and> c_state (w_c w) \<noteq> SYNC \<and> c_state (w_c w') = FREQ \<or>
    (\<exists>freq. x = Discipline STEP freq \<and> c_state (w_c w) \<noteq> SYNC \<and> c_state (w_c w') = SYNC)"
  using assms by (auto simp: outlier_def outlier_step_def Let_def split: if_splits)

lemma inlier_cases:
  assumes "inlier e q offset mu w = Inr (x, w')"
  shows "x = Return IGNORE \<and> c_state (w_c w) = NSET \<and> c_state (w_c w') = FREQ \<or>
    x = Return IGNORE \<and> c_state (w_c w) = FREQ \<and> c_state (w_c w') = FREQ \<or>
    (\<exists>freq. x = Discipline SLEW freq \<and> c_state (w_c w) = FREQ \<and> c_state (w_c w') = FREQ) \<or>
    (\<exists>freq. x = Discipline SLEW freq \<and> c_state (w_c w) \<noteq> NSET \<and> c_state (w_c w) \<noteq> FREQ \<and>
       c_state (w_c w') = SYNC)"
  using assms
  by (auto simp: inlier_def outcome_simps dest!: inlier_jitter_run split: if_splits)

lemma local_clock_vfo_step:
  assumes "local_clock e p offset w = Inr (r, w')"
  shows "vfo_step (c_state (w_c w)) r (c_state (w_c w'))"
  using assms
proof (cases rule: local_clock_run)
  case 1
  then show ?thesis by (simp add: vfo_step.intros)
next
  case (2 q)
  then show ?thesis
    by (auto split: if_splits intro: vfo_step.intros dest!: outlier_cases inlier_cases)
next
  case (3 q v freq u)
  then show ?thesis
    by (auto split: if_splits intro: vfo_step.intros dest!: outlier_cases inlier_cases update_freq_run)
qed

text \<open>The states the machine can be in after any number of calls.\<close>

inductive vfo_reach :: "int \<Rightarrow> int \<Rightarrow> bool" where
  start: "vfo_reach st st"
| more: "vfo_reach st u \<Longrightarrow> vfo_step u r v \<Longrightarrow> vfo_reach st v"

lemma vfo_reach_states:
  assumes "vfo_reach st u" and "st = NSET \<or> st = FSET"
  shows "u \<in> {NSET, FSET, FREQ, SYNC}"
  using assms by (induction rule: vfo_reach.induct) (auto elim: vfo_step.cases)

section \<open>Running to the end\<close>

text \<open>Clock variables of ordinary size; the precision is the constant the client sets.\<close>

definition vfo_bounded :: "world \<Rightarrow> bool" where
  "vfo_bounded w \<longleftrightarrow> bd 10 (c_jitter (w_c w)) \<and> bd 10 (c_last (w_c w)) \<and> bd 10 (c_offset (w_c w)) \<and>
     bd 10 (c_freq (w_c w)) \<and> bd 30 (c_wander (w_c w)) \<and> sint (s_precision (w_s w)) = PRECISION \<and>
     MINPOLL \<le> uint (s_poll (w_s w)) \<and> uint (s_poll (w_s w)) \<le> MAXPOLL"

lemma SQUARE_wfd [simp]: "wfd (SQUARE x)"
  by (simp add: SQUARE_def)

lemma offset_bd:
  assumes "\<not> dbl_of_int PANICT < fabs offset" and "offset \<noteq> NaN"
  shows "bd 10 offset"
  using assms by (cases offset) (auto simp: dbl_of_int_exact less_dbl_def)

lemma inlier_jitter_returns:
  assumes "vfo_bounded w" and "bd 10 offset"
  obtains w' where "inlier_jitter e offset w = Inr w'"
proof -
  have j: "bd 10 (c_jitter (w_c w))" and l: "bd 10 (c_last (w_c w))"
    and prec: "sint (s_precision (w_s w)) = PRECISION"
    using assms(1) by (simp_all add: vfo_bounded_def)
  have m: "bd 11 (cmax (fabs (offset - c_last (w_c w))) (LOG2D (e_shl e) PRECISION))"
    using bd_diff [OF assms(2) l] by (intro bd_rules) (simp_all add: LOG2D_m18 del: of_int_numeral)
  let ?e = "SQUARE (c_jitter (w_c w))"
  let ?d = "SQUARE (cmax (fabs (offset - c_last (w_c w))) (LOG2D (e_shl e) PRECISION))"
  have ed: "bd 22 ?e" "bd 22 ?d"
    using bd_SQUARE [OF j] bd_SQUARE [OF m] bd_mono [of 20 _ 22] by simp_all
  have "bd 23 (?d - ?e)" using bd_diff [OF ed(2,1)] by simp
  then have "bd 24 (?e + (?d - ?e))"
    using bd_add [of 23 ?e "?d - ?e"] bd_mono [OF ed(1), of 23] by simp
  then have "bd 24 ((?e + (?d - ?e)) / dbl_of_int AVG)"
    by (intro bd_rules dbl_of_int_ge1) simp_all
  from sqrt_returns [OF this] obtain r where "c_sqrt ((?e + (?d - ?e)) / dbl_of_int AVG) = Inr r"
    by auto
  then show thesis
    using that by (simp add: inlier_jitter_def Let_def prec del: bd_rules)
qed

lemma update_freq_returns:
  assumes "bd 28 freq" and "bd 10 (c_freq (w_c w))" and "bd 30 (c_wander (w_c w))"
  obtains w' where "update_freq freq w = Inr w'"
proof -
  let ?f = "freq + c_freq (w_c w)" and ?e = "SQUARE (c_wander (w_c w))"
  have "bd 29 ?f" using bd_add [OF assms(1) bd_mono [OF assms(2)]] by simp
  then have d: "bd 60 (SQUARE ?f)" using bd_SQUARE [of 29 ?f] bd_mono [of 58 _ 60] by simp
  have e: "bd 60 ?e" using bd_SQUARE [OF assms(3)] by simp
  have "bd 61 ((SQUARE ?f - ?e) / dbl_of_int AVG)"
    using bd_diff [OF d e] by (intro bd_rules dbl_of_int_ge1) simp_all
  then have "bd 62 (?e + (SQUARE ?f - ?e) / dbl_of_int AVG)"
    using bd_add [of 61 ?e "(SQUARE ?f - ?e) / dbl_of_int AVG"] bd_mono [OF e, of 61] by simp
  from sqrt_returns [OF this] obtain r where "c_sqrt (?e + (SQUARE ?f - ?e) / dbl_of_int AVG) = Inr r"
    by auto
  then show thesis using that by (simp add: update_freq_def Let_def)
qed

lemma pll_fll_bd:
  assumes "bd 10 offset" and "bd 10 (c_offset (w_c w))" and "0 \<le> mu"
    and "MINPOLL \<le> uint (s_poll (w_s w))" and "uint (s_poll (w_s w)) \<le> MAXPOLL"
  shows "bd 28 (pll_fll e offset mu w)"
proof -
  let ?p = "uint (s_poll (w_s w))"
  let ?L = "LOG2D (e_shl e) ?p"
  have L: "?L = Fin (2 ^ nat ?p)" using assms(4,5) by (rule LOG2D_poll_range)
  have "nat ?p \<le> 17" using assms(5) by (subst nat_le_iff) simp
  then have "(2::real) ^ nat ?p \<le> 2 ^ 17" by (rule power_increasing) simp
  then have Lb: "bd 17 ?L" by (simp add: L)
  have "(1::real) \<le> 2 ^ nat ?p" by simp
  then have L1: "Fin 1 \<le> ?L" by (simp add: L)
  let ?et = "if dbl_of_int (i32 (MAXPOLL + 1 - ?p)) < dbl_of_int AVG then dbl_of_int AVG
    else dbl_of_int (i32 (MAXPOLL + 1 - ?p))"
  have "i32 (MAXPOLL + 1 - ?p) = MAXPOLL + 1 - ?p" using assms(4,5) by (intro i32_id) simp_all
  then have et: "Fin 1 \<le> ?et" using assms(5) by (auto intro: dbl_of_int_ge1)
  have "mu \<noteq> NaN" using assms(3) by (auto simp: zero_dbl_def)
  then have "dbl_of_int ALLAN \<le> cmax mu (dbl_of_int ALLAN)" by (intro cmax_ge_right) simp_all
  then have mx: "Fin 1 \<le> cmax mu (dbl_of_int ALLAN)"
    using dbl_of_int_ge1 [of ALLAN] dbl_le_trans by (metis one_le_numeral)
  have "bd 11 ((offset - c_offset (w_c w)) / (cmax mu (dbl_of_int ALLAN) * ?et))"
    using bd_diff [OF assms(1,2)] ge1_mult [OF mx et] by (intro bd_divide) simp_all
  then have fll: "bd 12 (Fin 0 + (offset - c_offset (w_c w)) / (cmax mu (dbl_of_int ALLAN) * ?et))"
    using bd_add [of 11 "Fin 0"] by simp
  have num: "bd 27 (offset * cmin mu ?L)"
    using bd_mult [OF assms(1) bd_cmin_right [OF assms(3) Lb]] by simp
  have q: "Fin 1 \<le> dbl_of_int (4 * PLL) * ?L"
    by (rule ge1_mult [OF dbl_of_int_ge1 L1]) simp
  have pll: "bd 27 (offset * cmin mu ?L / (dbl_of_int (4 * PLL) * ?L * (dbl_of_int (4 * PLL) * ?L)))"
    using bd_divide [OF num ge1_mult [OF q q]] by simp
  have "bd 28 (f + offset * cmin mu ?L / (dbl_of_int (4 * PLL) * ?L * (dbl_of_int (4 * PLL) * ?L)))"
    if "bd 12 f" for f
    using bd_add [OF bd_mono [OF that] pll] by simp
  then show ?thesis
    unfolding pll_fll_def Let_def using fll by (simp only: split: if_split) simp
qed

section \<open>Properties\<close>

text \<open>C10: the clock state machine. Every call of local_clock() that returns is a transition of the
  relation \<open>vfo_step\<close>, with its return code; it changes only the clock structure and the update
  time and poll exponent of the system structure; and from the two start states NSET and FSET the
  state SPIK is never reached, although the code of the state SYNC means to enter it: the new
  state is assigned to a local variable.\<close>

theorem local_clock_state_machine:
  assumes "local_clock e p offset w = Inr (r, w')"
  shows "vfo_step (c_state (w_c w)) r (c_state (w_c w')) \<and> vfo_rest w' = vfo_rest w \<and>
    (\<forall>st \<in> {NSET, FSET}. vfo_reach st (c_state (w_c w)) \<longrightarrow>
       vfo_reach st (c_state (w_c w')) \<and> c_state (w_c w') \<in> {NSET, FSET, FREQ, SYNC})"
proof -
  note step = local_clock_vfo_step [OF assms]
  have "vfo_reach st (c_state (w_c w')) \<and> c_state (w_c w') \<in> {NSET, FSET, FREQ, SYNC}"
    if "st \<in> {NSET, FSET}" and "vfo_reach st (c_state (w_c w))" for st
    using that vfo_reach.more [OF that(2) step] vfo_reach_states by blast
  with step local_clock_frame [OF assms] show ?thesis by blast
qed

text \<open>The ranges of the poll exponent and of the jiggle counter.\<close>

definition poll_ok :: "world \<Rightarrow> bool" where
  "poll_ok w \<longleftrightarrow> MINPOLL \<le> uint (s_poll (w_s w)) \<and> uint (s_poll (w_s w)) \<le> MAXPOLL \<and>
     - LIMIT \<le> c_count (w_c w) \<and> c_count (w_c w) \<le> LIMIT"

lemma poll_inc:
  assumes "uint (q :: u8) < 255" shows "uint (q + 1) = uint q + 1"
  using assms by (simp add: uint_word_ariths)

lemma poll_dec:
  assumes "0 < uint (q :: u8)" shows "uint (q - 1) = uint q - 1"
proof -
  have "uint q < 256" using uint_lt2p [of q] by simp
  then show ?thesis using assms by (simp add: uint_word_ariths)
qed

lemma adjust_poll_ok: "poll_ok w \<Longrightarrow> poll_ok (adjust_poll w)"
  by (auto simp: poll_ok_def adjust_poll_def Let_def i32_id word_less_def poll_inc poll_dec)

lemma outlier_poll_ok:
  assumes "outlier e q offset mu w = (x, w')" and "poll_ok w"
  shows "poll_ok w'"
  using assms by (auto simp: outlier_def outlier_step_def Let_def poll_ok_def split: if_splits)

lemma inlier_poll_ok:
  assumes "inlier e q offset mu w = Inr (x, w')" and "poll_ok w"
  shows "poll_ok w'"
  using assms
  by (auto simp: inlier_def outcome_simps poll_ok_def dest!: inlier_jitter_run split: if_splits)

lemma freq_unchanged:
  "outlier e q offset mu w = (x, v) \<Longrightarrow> c_freq (w_c v) = c_freq (w_c w)"
  "inlier e q offset mu w = Inr (x, v) \<Longrightarrow> c_freq (w_c v) = c_freq (w_c w)"
  by (auto simp: outlier_def outlier_step_def inlier_def Let_def outcome_simps step_time_def
      dest!: inlier_jitter_run split: if_splits)

lemma MAXFREQ_symmetric: "- MAXFREQ \<le> MAXFREQ"
  using flt_mono [of "- (500 / 1000000)" "500 / 1000000"] by (simp add: ntp_consts flt_minus)

lemma update_freq_clamps:
  assumes "update_freq freq v = Inr u"
  shows "c_freq (w_c u) = NaN \<or> - MAXFREQ \<le> c_freq (w_c u) \<and> c_freq (w_c u) \<le> MAXFREQ"
proof -
  let ?f = "freq + c_freq (w_c v)"
  have "c_freq (w_c u) = cmax (cmin MAXFREQ ?f) (- MAXFREQ)" using assms by (auto dest!: update_freq_run)
  moreover have "cmax (cmin MAXFREQ NaN) (- MAXFREQ) = NaN" by (simp add: cmin_def cmax_def)
  ultimately show ?thesis using clamp_bounds [OF MAXFREQ_symmetric, of ?f] by metis
qed

text \<open>C16: local_clock() keeps the system poll exponent between MINPOLL and MAXPOLL and the jiggle
  counter between -LIMIT and LIMIT. Every run that reaches the frequency update (an inlier that is
  not ignored, and a step that enters the state SYNC) leaves the frequency between -MAXFREQ and
  MAXFREQ, unless it is not a number, whatever it was before; every other run (a panic, an ignored
  sample, an outlier in SYNC, a step that enters FREQ) leaves the frequency as it was.\<close>

theorem local_clock_bounds:
  assumes "local_clock e p offset w = Inr (r, w')" and "poll_ok w"
  shows "poll_ok w' \<and>
    (if r = SLEW \<and> \<not> STEPT < fabs offset \<or> r = STEP \<and> c_state (w_c w') = SYNC
     then c_freq (w_c w') = NaN \<or> - MAXFREQ \<le> c_freq (w_c w') \<and> c_freq (w_c w') \<le> MAXFREQ
     else c_freq (w_c w') = c_freq (w_c w))"
  using assms(1)
proof (cases rule: local_clock_run)
  case 1
  then show ?thesis using assms(2) by simp
next
  case (2 q)
  then have "poll_ok w'" "c_freq (w_c w') = c_freq (w_c w)"
    using assms(2) by (auto split: if_splits dest: outlier_poll_ok inlier_poll_ok freq_unchanged)
  moreover have "\<not> (r = SLEW \<and> \<not> STEPT < fabs offset \<or> r = STEP \<and> c_state (w_c w') = SYNC)"
    using 2(3) by (auto split: if_splits dest!: outlier_cases inlier_cases)
  ultimately show ?thesis by auto
next
  case (3 q v freq u)
  then have "poll_ok v"
    using assms(2) by (auto split: if_splits dest: outlier_poll_ok inlier_poll_ok)
  then have "poll_ok w'"
    using 3(4,5) by (auto simp: poll_ok_def intro!: adjust_poll_ok [unfolded poll_ok_def] dest!: update_freq_run)
  moreover have "c_freq (w_c w') = c_freq (w_c u)" "c_state (w_c w') = c_state (w_c v)"
    using 3(4,5) by (auto dest!: update_freq_run)
  moreover have "r = SLEW \<and> \<not> STEPT < fabs offset \<or> r = STEP \<and> c_state (w_c v) = SYNC"
    using 3(3) by (auto split: if_splits dest!: outlier_cases inlier_cases)
  ultimately show ?thesis using update_freq_clamps [OF 3(4)] by simp
qed

text \<open>The word difference of two different times is at least one.\<close>

lemma mu_ge1:
  assumes "(a :: tstamp) \<noteq> b"
  shows "Fin 1 \<le> dbl_of_int (uint (a - b))"
proof -
  have "a - b \<noteq> 0" using assms by simp
  then have "uint (a - b) \<noteq> 0" by (simp add: unsigned_eq_0_iff)
  then have "1 \<le> uint (a - b)" using uint_ge_0 [of "a - b"] by linarith
  then show ?thesis by (rule dbl_of_int_ge1)
qed

text \<open>C17: local_clock() returns. When the clock variables have ordinary magnitudes and the poll
  exponent is in range, and, in the state FREQ, the peer's time differs from the last update
  (the divisor mu), the call ends for every offset that is a number: neither bisection of
  sqrt() hangs.\<close>

theorem local_clock_returns:
  assumes "valid w p" and "vfo_bounded w" and "offset \<noteq> NaN"
    and "c_state (w_c w) = FREQ \<Longrightarrow> p_t (peer w p) \<noteq> s_t (w_s w)"
  shows "\<exists>r w'. local_clock e p offset w = Inr (r, w')"
proof (cases "dbl_of_int PANICT < fabs offset")
  case True
  then show ?thesis by (simp add: local_clock_def)
next
  case False
  let ?q = "peer w p"
  let ?mu = "dbl_of_int (uint (p_t ?q - s_t (w_s w)))"
  have off: "bd 10 offset" using False assms(3) by (rule offset_bd)
  note b = assms(2) [unfolded vfo_bounded_def]
  have div_bd: "bd 28 ((offset - c_offset (w_c w)) / ?mu)" if "c_state (w_c w) = FREQ"
  proof -
    have "bd 11 (offset - c_offset (w_c w))" using bd_diff [OF off] b by simp
    then have "bd 11 ((offset - c_offset (w_c w)) / ?mu)"
      using mu_ge1 [OF assms(4) [OF that]] by (intro bd_divide) simp_all
    then show ?thesis using bd_mono [of 11 _ 28] by simp
  qed
  have tail: "\<exists>r' v'. vfo_tail x v = Inr (r', v')"
    if "\<forall>rv f. x = Discipline rv f \<longrightarrow> bd 28 f" and "c_freq (w_c v) = c_freq (w_c w)"
      and "c_wander (w_c v) = c_wander (w_c w)" for x v
  proof (cases x)
    case (Discipline rv f)
    then show ?thesis
      using update_freq_returns [of f v] that b by (metis bind_r.simps(2) vfo_tail.simps(2))
  qed simp
  show ?thesis
  proof (cases "STEPT < fabs offset")
    case True
    obtain x v where x: "outlier e ?q offset ?mu w = (x, v)" by fastforce
    have "\<forall>rv f. x = Discipline rv f \<longrightarrow> bd 28 f"
      using x div_bd by (auto simp: outlier_def outlier_step_def Let_def split: if_splits)
    moreover have "c_freq (w_c v) = c_freq (w_c w) \<and> c_wander (w_c v) = c_wander (w_c w)"
      using x by (auto simp: outlier_def outlier_step_def step_time_def Let_def split: if_splits)
    ultimately show ?thesis
      using True False x tail [of x v] assms(1) by (simp add: local_clock_def Let_def)
  next
    case small: False
    obtain u where u: "inlier_jitter e offset w = Inr u"
      using inlier_jitter_returns [OF assms(2) off] by blast
    then obtain j where uj: "u = upd_c (\<lambda>c. c\<lparr>c_jitter := j\<rparr>) w"
      using inlier_jitter_run by blast
    obtain x v where x: "inlier e ?q offset ?mu w = Inr (x, v)"
      using u by (simp add: inlier_def) (metis surj_pair)
    have "bd 28 (pll_fll e offset ?mu u)"
      using off b by (intro pll_fll_bd) (simp_all add: uj dbl_of_int_nonneg)
    then have "\<forall>rv f. x = Discipline rv f \<longrightarrow> bd 28 f"
      using x u uj div_bd by (auto simp: inlier_def split: if_splits)
    moreover have "c_freq (w_c v) = c_freq (w_c w) \<and> c_wander (w_c v) = c_wander (w_c w)"
      using x u uj by (auto simp: inlier_def split: if_splits)
    ultimately show ?thesis
      using small False x tail [of x v] assms(1) by (simp add: local_clock_def Let_def)
  qed
qed

lemma freq_state_ignores:
  assumes "valid w p" and "c_state (w_c w) = FREQ" and "p_t (peer w p) = s_t (w_s w)"
    and "c_t (w_c w) - s_t (w_s w) < 900" and "local_clock e p offset w = Inr (r, w')"
  shows "(r = IGNORE \<or> r = PANIC) \<and> c_state (w_c w') = FREQ \<and> c_freq (w_c w') = c_freq (w_c w) \<and>
    c_offset (w_c w') = c_offset (w_c w) \<and> c_localTime (w_c w') = c_localTime (w_c w) \<and>
    s_t (w_s w') = s_t (w_s w)"
proof -
  have mu: "dbl_of_int (uint (p_t (peer w p) - s_t (w_s w))) < dbl_of_int WATCH"
    using assms(3) by (simp add: dbl_of_int_exact)
  from assms(5) show ?thesis
  proof (cases rule: local_clock_run)
    case 1
    then show ?thesis using assms(2) by simp
  next
    case (2 q)
    then show ?thesis
      using assms(1,2,4) mu
      by (auto simp: outlier_def inlier_def outcome_simps dest!: inlier_jitter_run split: if_splits)
  next
    case (3 q v freq u)
    then show ?thesis
      using assms(1,2,4) mu
      by (auto simp: outlier_def inlier_def outcome_simps dest!: inlier_jitter_run split: if_splits)
  qed
qed

lemma rnd_diff_nonzero:
  assumes "repr x" and "repr y" and "x \<noteq> y"
  shows "rnd (x - y) \<noteq> 0"
proof -
  let ?t = "2 powi (- 1074) :: real"
  obtain j k where jk: "x = of_int j * ?t" "y = of_int k * ?t"
    using repr_grid [OF assms(1)] repr_grid [OF assms(2)] by blast
  with assms(3) have "1 \<le> \<bar>j - k\<bar>" by auto
  then have "(1::real) \<le> \<bar>of_int (j - k)\<bar>" by linarith
  then have "1 * ?t \<le> \<bar>of_int (j - k)\<bar> * ?t" by (intro mult_right_mono) (simp_all only: pow2_pos less_imp_le)
  also have "\<dots> = \<bar>x - y\<bar>"
    using pow2_pos [of "- 1074"] by (simp only: jk abs_mult of_int_diff left_diff_distrib [symmetric])
  finally have le: "?t \<le> \<bar>x - y\<bar>" by (simp only: mult_1)
  have "repr (of_int 1 * 2 powi (- 1074))" by (rule repr_scaled) simp_all
  then have "rnd ?t = ?t" by (simp only: repr_def of_int_1 mult_1)
  then have "?t \<le> rnd \<bar>x - y\<bar>" using le by (rule b64.R_lower)
  then have "?t \<le> \<bar>rnd (x - y)\<bar>" by (simp only: b64.R_abs)
  then show ?thesis using pow2_pos [of "- 1074"] by (metis abs_zero not_le)
qed

lemma infinite_freq_hangs:
  assumes "freq = PInf \<or> freq = NInf" and "bd 10 (c_freq (w_c w))" and "bd 30 (c_wander (w_c w))"
  shows "update_freq freq w = Inl (Hang Sqrt_Loop)"
proof -
  obtain f v where fv: "c_freq (w_c w) = Fin f" "c_wander (w_c w) = Fin v"
    using assms(2,3) by (auto simp: bd_def)
  have "SQUARE (freq + Fin f) = PInf"
    using assms(1) by (auto simp: SQUARE_def plus_dbl_def times_dbl_def)
  moreover obtain d where "SQUARE (Fin v) = Fin d"
    using bd_SQUARE [OF assms(3)] fv by (auto simp: bd_def)
  moreover have "dbl_of_int AVG = Fin 4" by (simp add: dbl_of_int_exact)
  ultimately have "SQUARE (Fin v) + (SQUARE (freq + Fin f) - SQUARE (Fin v)) / dbl_of_int AVG = PInf"
    by (simp add: plus_dbl_def minus_dbl_def divide_dbl_def)
  then show ?thesis by (simp add: update_freq_def Let_def fv c_sqrt_PInf)
qed

lemma STEPT_half: "STEPT \<le> Fin (1 / 2)"
proof -
  have "flt (of_int 1 * 2 powi (- 1)) = Fin (of_int 1 * 2 powi (- 1))"
    by (rule flt_dyadic) simp_all
  then have "flt (1 / 2) = Fin (1 / 2)" using pow2_neg [of 1] by simp
  moreover have "flt (128 / 1000) \<le> flt (1 / 2)" by (rule flt_mono) simp
  ultimately show ?thesis by (simp add: ntp_consts)
qed

lemma STEPT_less_1: "STEPT < Fin 1"
  using dbl_le_less_trans [OF STEPT_half, of "Fin 1"] by simp

text \<open>C21: past the stepout threshold the trap becomes a hang. In the state FREQ, with clock
  variables of ordinary magnitude, with the interval mu still zero and an inlier (an offset whose
  size is not above the step threshold) that differs from the stored offset, the frequency
  correction is the infinite quotient by mu, the wander is the root of infinity, and sqrt() never
  returns.\<close>

theorem freq_state_hangs:
  assumes "valid w p" and "vfo_bounded w" and "c_state (w_c w) = FREQ"
    and "p_t (peer w p) = s_t (w_s w)" and "900 \<le> c_t (w_c w) - s_t (w_s w)"
    and "repr x" and "\<not> STEPT < fabs (Fin x)" and "c_offset (w_c w) = Fin y" and "repr y" and "x \<noteq> y"
  shows "local_clock e p (Fin x) w = Inl (Hang Sqrt_Loop)"
proof -
  note b = assms(2) [unfolded vfo_bounded_def]
  note small = assms(7)
  have "STEPT \<noteq> NaN" by (simp add: ntp_consts)
  then have "Fin \<bar>x\<bar> \<le> STEPT" using small by (simp add: dbl_not_less)
  then have x: "\<bar>x\<bar> \<le> 1 / 2" using dbl_le_trans [OF _ STEPT_half, of "Fin \<bar>x\<bar>"] by simp
  then have panic: "\<not> dbl_of_int PANICT < fabs (Fin x)" by (simp add: dbl_of_int_exact)
  have "bd 10 (Fin x)" using x by simp
  then obtain u where u: "inlier_jitter e (Fin x) w = Inr u"
    using inlier_jitter_returns [OF assms(2)] by blast
  then obtain j where uj: "u = upd_c (\<lambda>c. c\<lparr>c_jitter := j\<rparr>) w" using inlier_jitter_run by blast
  have "bd 11 (Fin x - Fin y)"
    using b x assms(8) bd_diff [of 10 "Fin x" "Fin y"] by simp
  then have "Fin x - Fin y = Fin (rnd (x - y))"
    by (auto simp: bd_def flt_def Let_def split: if_splits)
  then have inf: "(Fin x - Fin y) / dbl_of_int 0 = PInf \<or> (Fin x - Fin y) / dbl_of_int 0 = NInf"
    using rnd_diff_nonzero [OF assms(6,9,10)]
    by (simp add: dbl_of_int_exact divide_dbl_def inf_sgn_def)
  have "\<not> c_t (w_c w) - s_t (w_s w) < 900" using assms(5) by (simp add: not_less)
  then have "inlier e (peer w p) (Fin x) (dbl_of_int (uint (p_t (peer w p) - s_t (w_s w)))) w =
      Inr (Discipline SLEW ((Fin x - Fin y) / dbl_of_int 0), u)"
    using u uj assms(3,4,8) by (simp add: inlier_def)
  moreover have "update_freq ((Fin x - Fin y) / dbl_of_int 0) u = Inl (Hang Sqrt_Loop)"
    using inf b by (intro infinite_freq_hangs) (simp_all add: uj)
  ultimately show ?thesis
    using panic small assms(1) by (simp add: local_clock_def Let_def del: fabs.simps)
qed

section \<open>Witnesses\<close>

text \<open>A world in the given clock state, one association, the last update at time u.\<close>

definition clock_world :: "int \<Rightarrow> tstamp \<Rightarrow> world" where
  "clock_world st u = (one_peer zero_p)\<lparr>
     w_c := zero_c\<lparr>c_state := st, c_t := u\<rparr>,
     w_s := zero_s\<lparr>s_poll := 6, s_precision := word_of_int PRECISION\<rparr>\<rparr>"

lemma clock_world_simps [simp]:
  "w_heap (clock_world st u) 0 = Some zero_p" "peer (clock_world st u) (Addr 0) = zero_p"
  "c_state (w_c (clock_world st u)) = st" "c_t (w_c (clock_world st u)) = u"
  "s_t (w_s (clock_world st u)) = 0" "p_t zero_p = 0" "c_offset (w_c (clock_world st u)) = Fin 0"
  "poll_ok (clock_world st u)"
  by (simp_all add: clock_world_def zero_c_def zero_s_def zero_p_def poll_ok_def)

lemma clock_world_bounded: "vfo_bounded (clock_world st u)"
  by (simp add: clock_world_def zero_c_def zero_s_def vfo_bounded_def)

lemma sync_outlier_run:
  "local_clock demo_env (Addr 0) (Fin 1) (clock_world SYNC u) = Inr (SLEW, clock_world SYNC u)"
  using STEPT_less_1
  by (simp add: local_clock_def outlier_def dbl_of_int_exact)

theorem local_clock_state_machine_witness: "vfo_step SYNC SLEW SYNC"
  using local_clock_state_machine [OF sync_outlier_run [of 0]] by simp

theorem local_clock_bounds_witness:
  "local_clock demo_env (Addr 0) (Fin 1) (clock_world SYNC 0) = Inr (SLEW, clock_world SYNC 0) \<and>
   poll_ok (clock_world SYNC 0)"
  using local_clock_bounds [OF sync_outlier_run [of 0]] sync_outlier_run [of 0] by simp

theorem local_clock_returns_witness:
  "\<exists>r w'. local_clock demo_env (Addr 0) (Fin 0) (clock_world SYNC 0) = Inr (r, w')"
  using local_clock_returns [of "clock_world SYNC 0" "Addr 0" "Fin 0" demo_env] clock_world_bounded by simp

theorem freq_state_hangs_witness:
  "local_clock demo_env (Addr 0) (Fin (1 / 1024)) (clock_world FREQ 1000) = Inl (Hang Sqrt_Loop)"
proof -
  have "repr (of_int 1 * 2 powi (- 10))" by (rule repr_scaled) simp_all
  then have r: "repr (1 / 1024)" using pow2_neg [of 10] by simp
  have "flt (1 / 1024) \<le> flt (128 / 1000)" by (rule flt_mono) simp
  moreover have "flt (1 / 1024) = Fin (1 / 1024)" using flt_dyadic [of 1 "- 10"] pow2_neg [of 10] by simp
  ultimately have "Fin (1 / 1024) \<le> STEPT" by (simp add: ntp_consts)
  then have "\<not> STEPT < Fin (1 / 1024)" using dbl_le_less_trans dbl_less_irrefl by blast
  moreover have "repr 0" by (simp add: repr_def)
  ultimately show ?thesis
    using freq_state_hangs [of "clock_world FREQ 1000" "Addr 0" "1 / 1024" 0 demo_env]
      clock_world_bounded r by simp
qed

end
