(* ===== verification/Selection.thy ===== *)
theory Selection
  imports Vfo "HOL-Library.Multiset"
begin

text \<open>
  The system process of src/src/NTP_system_process.c, with fit() of src/src/NTP_peer.c: the root
  distance, the acceptance test, the chime list (cull()), the intersection of the correctness
  intervals, the cluster loop and the choice of the system peer (clock_select()), the combination
  of the survivors (clock_combine()) and the update of the system variables (clock_update()).

  The chime list s.m and the survivor list s.v are arrays of NMAX * 5 entries; a read or write
  outside them ends the run. qsort() is the environment's \<open>e_qsort\<close> on the sorted prefix.
\<close>

section \<open>Distance and acceptance\<close>

definition root_dist :: "world \<Rightarrow> ntp_p \<Rightarrow> dbl" where
  "root_dist w p =
     cmax MINDISP (p_rootdelay p + p_delay p) / flt 2 + p_rootdisp p + p_disp p +
     PHI * LFP2D (dbl_of_int (subtract_uint64_t (c_t (w_c w)) (p_t p))) + p_jitter p"

definition fit :: "env \<Rightarrow> world \<Rightarrow> ntp_p \<Rightarrow> bool" where
  "fit e w p =
     (if p_leap p = word_of_int NOSYNC \<or> word_of_int MAXSTRAT \<le> p_stratum p then False
      else if dbl_of_int MAXDIST + PHI * LOG2D (e_shl e) (uint (s_poll (w_s w))) < root_dist w p
      then False
      else if p_stratum p \<noteq> 1 \<and> (p_refid p = p_dstaddr p \<or> p_refid p = s_refid (w_s w)) then False
      else if p_reach p = 0 then False
      else True)"

definition accept :: "env \<Rightarrow> world \<Rightarrow> ntp_p \<Rightarrow> bool" where
  "accept e w p =
     (if p_leap p = word_of_int NOSYNC \<or> word_of_int MAXSTRAT \<le> p_stratum p then False
      else if dbl_of_int MAXDIST + PHI * LOG2D (e_shl e) (uint (s_poll (w_s w))) < root_dist w p
      then False
      else if p_stratum p \<noteq> 1 \<and> (p_refid p = p_dstaddr p \<or> p_refid p = s_refid (w_s w)) then False
      else if p_reach p = 0 then False
      else True)"

section \<open>The chime list\<close>

definition compare_ntp_m :: "ntp_m \<Rightarrow> ntp_m \<Rightarrow> int" where
  "compare_ntp_m a b =
     (if m_edge a < m_edge b then - 1 else if m_edge b < m_edge a then 1 else 0)"

text \<open>Writing an array entry.\<close>

definition put_idx :: "area \<Rightarrow> 'a list \<Rightarrow> nat \<Rightarrow> 'a \<Rightarrow> 'a list outcome" where
  "put_idx a xs i x = (if i < length xs then Inr (xs[i := x]) else Inl (Index_OOB a))"

definition put_chime :: "nat \<Rightarrow> ntp_m \<Rightarrow> world \<Rightarrow> world outcome" where
  "put_chime i m w =
     bind_r (put_idx Chime_List (s_m (w_s w)) i m) (\<lambda>ms. Inr (upd_s (\<lambda>s. s\<lparr>s_m := ms\<rparr>) w))"

text \<open>The three edges of an association's correctness interval.\<close>

definition lower_edge :: "world \<Rightarrow> ptr \<Rightarrow> ntp_p \<Rightarrow> ntp_m" where
  "lower_edge w p q = \<lparr>m_p = p, m_type = - 1, m_edge = p_offset q - root_dist w q\<rparr>"

definition mid_point :: "ptr \<Rightarrow> ntp_p \<Rightarrow> ntp_m" where
  "mid_point p q = \<lparr>m_p = p, m_type = 0, m_edge = p_offset q\<rparr>"

definition upper_edge :: "world \<Rightarrow> ptr \<Rightarrow> ntp_p \<Rightarrow> ntp_m" where
  "upper_edge w p q = \<lparr>m_p = p, m_type = 1, m_edge = p_offset q + root_dist w q\<rparr>"

definition cull_peer :: "env \<Rightarrow> nat \<Rightarrow> nat \<times> world \<Rightarrow> (nat \<times> world) outcome" where
  "cull_peer e index iw =
     (case iw of (i, w) \<Rightarrow>
        bind_r (table_at w index) (\<lambda>p. bind_r (load e w p) (\<lambda>q.
          if fit e w q
          then bind_r (put_chime i (lower_edge w p q) w) (\<lambda>w.
               bind_r (put_chime (i + 1) (mid_point p q) w) (\<lambda>w.
               bind_r (put_chime (i + 2) (upper_edge w p q) w) (\<lambda>w.
               Inr (i + 3, w))))
          else Inr (i, w))))"

definition cull :: "env \<Rightarrow> world \<Rightarrow> (nat \<times> world) outcome" where
  "cull e w =
     bind_r (foldr_r (cull_peer e) [0..<NMAX] (0, w)) (\<lambda>(i, w).
       Inr (i, upd_s (\<lambda>s. s\<lparr>s_m := e_qsort e compare_ntp_m (take i (s_m s)) @ drop i (s_m s)\<rparr>) w))"

section \<open>The intersection\<close>

text \<open>The first scan: the edge at which the count of open intervals falls.\<close>

fun scan_high :: "ntp_m list \<Rightarrow> nat list \<Rightarrow> int \<Rightarrow> int \<Rightarrow> dbl \<Rightarrow> dbl outcome" where
  "scan_high ms [] chime lastchime high = Inr high"
| "scan_high ms (i # is) chime lastchime high =
     bind_r (idx Chime_List ms i) (\<lambda>m.
       let chime = i32 (chime - m_type m)
       in if chime < lastchime then Inr (m_edge m) else scan_high ms is chime chime high)"

text \<open>The second scan: the edge before the one at which the count stays the same.\<close>

fun scan_low :: "ntp_m list \<Rightarrow> nat list \<Rightarrow> int \<Rightarrow> int \<Rightarrow> dbl \<Rightarrow> dbl outcome" where
  "scan_low ms [] chime lastchime low = Inr low"
| "scan_low ms (i # is) chime lastchime low =
     bind_r (idx Chime_List ms i) (\<lambda>m.
       let chime = i32 (chime + m_type m)
       in if chime = lastchime
          then (if i = 0 then Inl (Index_OOB Chime_List)
                else bind_r (idx Chime_List ms (i - 1)) (\<lambda>m. Inr (m_edge m)))
          else scan_low ms is chime chime low)"

text \<open>
  The loop over the number of allowed falsetickers. The local variable \<open>found\<close> is never assigned;
  its value is the environment's.
\<close>

function allow_loop :: "int \<Rightarrow> ntp_m list \<Rightarrow> int \<Rightarrow> int \<Rightarrow> dbl \<Rightarrow> dbl \<Rightarrow> (dbl \<times> dbl) outcome" where
  "allow_loop found ms n allow low high =
     (if 2 * allow < n
      then bind_r (scan_high ms [0..<nat n] 0 0 high) (\<lambda>high.
           bind_r (scan_low ms [0..<nat n] 0 0 low) (\<lambda>low.
             if allow < found then allow_loop found ms n (allow + 1) low high
             else if low < high then Inr (low, high)
             else allow_loop found ms n (allow + 1) low high))
      else Inr (low, high))"
  by pat_completeness auto
termination
  by (relation "measure (\<lambda>(found, ms, n, allow, low, high). nat (n - 2 * allow))") auto

declare allow_loop.simps [simp del]

definition intersection :: "env \<Rightarrow> int \<Rightarrow> world \<Rightarrow> (dbl \<times> dbl) outcome" where
  "intersection e n w =
     allow_loop (e_found e w) (s_m (w_s w)) n 0 (flt 2000000000) (flt (- 2000000000))"

section \<open>The survivors\<close>

definition add_survivor :: "env \<Rightarrow> dbl \<Rightarrow> dbl \<Rightarrow> nat \<Rightarrow> world \<Rightarrow> world outcome" where
  "add_survivor e low high i w =
     bind_r (idx Chime_List (s_m (w_s w)) i) (\<lambda>m.
       if m_edge m < low \<or> high < m_edge m then Inr w
       else bind_r (load e w (m_p m)) (\<lambda>q.
            bind_r (put_idx Survivor_List (s_v (w_s w)) (nat (s_n (w_s w)))
                \<lparr>v_p = m_p m,
                 v_metric = dbl_of_int (i32 (MAXDIST * uint (p_stratum q))) + root_dist w q\<rparr>) (\<lambda>vs.
            Inr (upd_s (\<lambda>s. s\<lparr>s_v := vs, s_n := i32 (s_n s + 1)\<rparr>) w))))"

definition survivors :: "env \<Rightarrow> nat \<Rightarrow> dbl \<Rightarrow> dbl \<Rightarrow> world \<Rightarrow> world outcome" where
  "survivors e n low high w =
     foldr_r (add_survivor e low high) [0..<n] (upd_s (\<lambda>s. s\<lparr>s_n := 0\<rparr>) w)"

section \<open>The cluster loop\<close>

text \<open>
  The sum over the chime count of SQUARE(p->offset - q->offset), which expands to
  p->offset - q->offset * p->offset - q->offset.
\<close>

definition pair_sum :: "env \<Rightarrow> world \<Rightarrow> nat \<Rightarrow> dbl \<Rightarrow> dbl outcome" where
  "pair_sum e w n offset =
     foldr_r (\<lambda>j dtemp.
         bind_r (idx Survivor_List (s_v (w_s w)) j) (\<lambda>v. bind_r (load e w (v_p v)) (\<lambda>q.
           Inr (dtemp + (offset - p_offset q * offset - p_offset q)))))
       [0..<n] (Fin 0)"

text \<open>The largest selection jitter and the smallest peer jitter of the survivors.\<close>

definition cluster_step :: "env \<Rightarrow> world \<Rightarrow> nat \<Rightarrow> nat \<Rightarrow> dbl \<times> dbl \<Rightarrow> (dbl \<times> dbl) outcome" where
  "cluster_step e w n i mm =
     (case mm of (mx, mn) \<Rightarrow>
        bind_r (idx Survivor_List (s_v (w_s w)) i) (\<lambda>v. bind_r (load e w (v_p v)) (\<lambda>q.
          let mn = (if p_jitter q < mn then p_jitter q else mn)
          in bind_r (pair_sum e w n (p_offset q)) (\<lambda>dtemp.
             bind_r (c_sqrt dtemp) (\<lambda>dtemp.
               Inr (if mx < dtemp then dtemp else mx, mn))))))"

definition cluster_stats :: "env \<Rightarrow> world \<Rightarrow> nat \<Rightarrow> (dbl \<times> dbl) outcome" where
  "cluster_stats e w n =
     foldr_r (cluster_step e w n) [0..<nat (s_n (w_s w))] (flt (- 2000000000), flt 2000000000)"

text \<open>The while loop; it removes the last survivor until its test ends it.\<close>

partial_function (option) cluster_loop :: "env \<Rightarrow> nat \<Rightarrow> world \<Rightarrow> world outcome option" where
  "cluster_loop e n w =
     (case cluster_stats e w n of
        Inl er \<Rightarrow> Some (Inl er)
      | Inr (mx, mn) \<Rightarrow>
          if mx < mn \<or> int n \<le> NMIN then Some (Inr w)
          else cluster_loop e n (upd_s (\<lambda>s. s\<lparr>s_n := i32 (s_n s - 1)\<rparr>) w))"

definition cluster :: "env \<Rightarrow> nat \<Rightarrow> world \<Rightarrow> world outcome" where
  "cluster e n w = (case cluster_loop e n w of None \<Rightarrow> Inl (Hang Cluster_Loop) | Some r \<Rightarrow> r)"

section \<open>Combining the survivors\<close>

text \<open>
  The loop over the survivor list up to its first null pointer, with the sums y, z and w of the
  source; v0 is the first entry.
\<close>

fun combine_loop :: "env \<Rightarrow> world \<Rightarrow> ntp_v list \<Rightarrow> dbl \<Rightarrow> dbl \<Rightarrow> dbl \<Rightarrow> (dbl \<times> dbl \<times> dbl) outcome" where
  "combine_loop e w [] y z v = Inl (Index_OOB Survivor_List)"
| "combine_loop e w (r # rs) y z v =
     (if v_p r = NULL then Inr (y, z, v)
      else bind_r (load e w (v_p r)) (\<lambda>p.
           bind_r (idx Survivor_List (s_v (w_s w)) 0) (\<lambda>first. bind_r (load e w (v_p first)) (\<lambda>p0.
             let x = root_dist w p;
                 y = y + flt 1 / x;
                 z = z + p_offset p / x;
                 v = v + SQUARE (fabs (p_offset p - p_offset p0)) / x
             in combine_loop e w rs y z v))))"

definition clock_combine :: "env \<Rightarrow> world \<Rightarrow> world outcome" where
  "clock_combine e w =
     bind_r (combine_loop e w (s_v (w_s w)) (Fin 0) (Fin 0) (Fin 0)) (\<lambda>(y, z, v).
     bind_r (c_sqrt (v / y)) (\<lambda>j.
       Inr (upd_s (\<lambda>s. s\<lparr>s_offset := z / y, s_jitter := j\<rparr>) w)))"

section \<open>The system update and the selection\<close>

text \<open>The branch SLEW: the system variables are taken from the peer.\<close>

definition system_slew :: "env \<Rightarrow> ptr \<Rightarrow> world \<Rightarrow> world outcome" where
  "system_slew e p w =
     bind_r (load e w p) (\<lambda>q.
     bind_r (c_sqrt (SQUARE (p_jitter q) + SQUARE (s_jitter (w_s w)))) (\<lambda>dtemp.
       let dtemp = dtemp + cmax (p_disp q +
               PHI * LFP2D (dbl_of_int (subtract_uint64_t (c_t (w_c w)) (p_t q))) +
               fabs (p_offset q)) MINDISP
       in Inr (upd_s (\<lambda>s. s\<lparr>s_leap := p_leap q, s_stratum := p_stratum q + 1, s_refid := p_refid q,
               s_reftime := p_reftime q, s_rootdelay := p_rootdelay q + p_delay q,
               s_rootdisp := p_rootdisp q + dtemp\<rparr>) w)))"

text \<open>The switch on the return code of local_clock().\<close>

fun clock_verdict :: "env \<Rightarrow> ptr \<Rightarrow> clock_code \<times> world \<Rightarrow> world outcome" where
  "clock_verdict e p (PANIC, w) = Inl (Exit 0)"
| "clock_verdict e p (STEP, w) =
     Inr (upd_s (\<lambda>s. s\<lparr>s_stratum := word_of_int MAXSTRAT, s_poll := word_of_int MINPOLL\<rparr>) w)"
| "clock_verdict e p (SLEW, w) = system_slew e p w"
| "clock_verdict e p (IGNORE, w) = Inr w"

definition clock_update :: "env \<Rightarrow> ptr \<Rightarrow> world \<Rightarrow> world outcome" where
  "clock_update e p w =
     bind_r (load e w p) (\<lambda>q.
       if p_t q < s_t (w_s w) then Inr w
       else bind_r (clock_combine e (upd_s (\<lambda>s. s\<lparr>s_t := p_t q\<rparr>) w)) (\<lambda>w.
            bind_r (local_clock e p (s_offset (w_s w)) w) (clock_verdict e p)))"

text \<open>The choice between the old system peer and the first survivor.\<close>

definition pick_peer :: "env \<Rightarrow> ptr \<Rightarrow> world \<Rightarrow> world outcome" where
  "pick_peer e osys w =
     bind_r (load e w osys) (\<lambda>o_p.
     bind_r (idx Survivor_List (s_v (w_s w)) 0) (\<lambda>first. bind_r (load e w (v_p first)) (\<lambda>p0.
       Inr (upd_s (\<lambda>s. s\<lparr>s_p := (if p_stratum o_p = p_stratum p0 then osys else v_p first)\<rparr>) w))))"

definition clock_select :: "env \<Rightarrow> world \<Rightarrow> world outcome" where
  "clock_select e w =
     (let osys = s_p (w_s w); w = upd_s (\<lambda>s. s\<lparr>s_p := NULL\<rparr>) w
      in bind_r (cull e w) (\<lambda>(n, w).
         bind_r (intersection e (int n) w) (\<lambda>(low, high).
         bind_r (survivors e n low high w) (\<lambda>w.
           if s_n (w_s w) < NSANE then Inr w
           else bind_r (cluster e n w) (\<lambda>w.
                bind_r (pick_peer e osys w) (\<lambda>w.
                clock_update e (s_p (w_s w)) w))))))"

section \<open>The root distance\<close>

lemma root_dist_frame [simp]:
  "root_dist (w\<lparr>w_s := a\<rparr>) p = root_dist w p" "root_dist (w\<lparr>w_heap := h\<rparr>) p = root_dist w p"
  "root_dist (set_peer r q w) p = root_dist w p"
  by (simp_all add: root_dist_def)

text \<open>The distance of two process times less than 2 ^ 63 apart.\<close>

lemma elapsed_nonneg:
  assumes "\<bar>uint x - uint y\<bar> < 9223372036854775808"
  shows "0 \<le> LFP2D (dbl_of_int (subtract_uint64_t x y))"
  using assms by (intro LFP2D_nonneg dbl_of_int_nonneg) (simp add: subtract_nonneg)

lemma dbl_mult_nonneg: "0 \<le> x \<Longrightarrow> 0 \<le> y \<Longrightarrow> x \<noteq> PInf \<Longrightarrow> y \<noteq> PInf \<Longrightarrow> 0 \<le> x * (y :: dbl)"
  by (elim dbl_nonneg_cases) (auto simp: flt_nonneg)

lemma PHI_elapsed_nonneg:
  assumes "0 \<le> x" and "bd k x"
  shows "0 \<le> PHI * x"
  using assms PHI_fin PHI_nonneg by (intro dbl_mult_nonneg) (auto simp: bd_def)

lemma bd_elapsed: "bd 31 (LFP2D (dbl_of_int (subtract_uint64_t x y)))"
proof -
  have r: "\<bar>subtract_uint64_t x y\<bar> \<le> 2 ^ 63"
    using sint_ge [of "if x < y then y - x else x - y"] sint_lt [of "if x < y then y - x else x - y"]
    by (auto simp: subtract_uint64_t_eq)
  then have "\<bar>of_int (subtract_uint64_t x y) :: real\<bar> \<le> 2 ^ 63"
    by (metis of_int_abs of_int_le_numeral_power_cancel_iff)
  then obtain a where a: "dbl_of_int (subtract_uint64_t x y) = Fin a" "\<bar>a\<bar> \<le> 2 ^ 63"
    using bd_flt [of "of_int (subtract_uint64_t x y)" 63] by (auto simp: dbl_of_int_def bd_def)
  then have "\<bar>a / 4294967296\<bar> \<le> 2 ^ 31" by (simp add: field_simps)
  then have "bd 31 (flt (a / 4294967296))" by (rule bd_flt) simp
  then show ?thesis by (simp add: LFP2D_def a)
qed

text \<open>The variables of an association whose values the algorithms rely on.\<close>

definition peer_sane :: "world \<Rightarrow> ntp_p \<Rightarrow> bool" where
  "peer_sane w q \<longleftrightarrow> 0 \<le> p_rootdisp q \<and> 0 \<le> p_disp q \<and> 0 \<le> p_jitter q \<and>
     p_rootdelay q + p_delay q \<noteq> NaN \<and> bd 31 (p_offset q) \<and> wfd (p_offset q) \<and>
     \<bar>uint (c_t (w_c w)) - uint (p_t q)\<bar> < 9223372036854775808"

lemma half_mindisp:
  assumes "x \<noteq> NaN"
  shows "Fin (1 / 256) \<le> cmax MINDISP x / flt 2"
proof -
  have "MINDISP \<noteq> NaN" by (simp add: ntp_consts)
  then have "Fin (1 / 128) \<le> cmax MINDISP x"
    using MINDISP_pos cmax_ge_left dbl_le_trans by blast
  then consider r where "cmax MINDISP x = Fin r" "1 / 128 \<le> r" | "cmax MINDISP x = PInf"
    by (cases "cmax MINDISP x") (auto simp: less_eq_dbl_def)
  then show ?thesis
  proof cases
    case 1
    have "repr (1 / 256)" "\<bar>1 / 256\<bar> < ovf"
      using repr_scaled [of 1 "- 8"] pow2_neg [of 8] small_lt_ovf [of "1 / 256"] by simp_all
    then show ?thesis using 1 flt_ge [of "1 / 256" "r / 2"] by simp
  next
    case 2
    then show ?thesis by (simp add: divide_dbl_def less_eq_dbl_def)
  qed
qed

lemma root_dist_ge:
  assumes "peer_sane w q"
  shows "Fin (1 / 256) \<le> root_dist w q"
proof -
  have r: "wfd (Fin (1 / 256))"
    using repr_scaled [of 1 "- 8"] pow2_neg [of 8] small_lt_ovf [of "1 / 256"] by simp
  have "0 \<le> PHI * LFP2D (dbl_of_int (subtract_uint64_t (c_t (w_c w)) (p_t q)))"
    using assms by (intro PHI_elapsed_nonneg [OF elapsed_nonneg bd_elapsed]) (simp add: peer_sane_def)
  with assms show ?thesis
    unfolding root_dist_def peer_sane_def
    by (intro dadd_ge [OF r] half_mindisp) simp_all
qed

lemma LOG2D_poll_8:
  assumes "poll_ok w"
  shows "PHI * LOG2D s (uint (s_poll (w_s w))) \<le> Fin 2"
proof -
  let ?p = "uint (s_poll (w_s w))"
  obtain f where f: "PHI = Fin f" "0 \<le> f" using PHI_fin by blast
  have L: "LOG2D s ?p = Fin (2 ^ nat ?p)"
    using assms by (intro LOG2D_poll_range) (simp_all add: poll_ok_def)
  have "nat ?p \<le> 17" using assms by (subst nat_le_iff) (simp add: poll_ok_def)
  then have p: "(2::real) ^ nat ?p \<le> 2 ^ 17" by (rule power_increasing) simp
  have "flt (15 / 1000000) \<le> flt (of_int 1 * 2 powi (- 16))"
    using pow2_neg [of 16] by (intro flt_mono) simp
  then have "f \<le> 1 / 65536"
    using flt_dyadic [of 1 "- 16"] f pow2_neg [of 16] by (simp add: ntp_consts)
  then have "f * 2 ^ nat ?p \<le> 1 / 65536 * 2 ^ 17"
    using p by (intro mult_mono) simp_all
  then have "f * 2 ^ nat ?p \<le> 2" by simp
  then have "flt (f * 2 ^ nat ?p) \<le> flt 2" by (rule flt_mono)
  then show ?thesis by (simp add: f L)
qed

lemma fit_root_dist_le:
  assumes "fit e w q" and "poll_ok w" and "peer_sane w q"
  shows "root_dist w q \<le> Fin 8"
proof -
  let ?T = "dbl_of_int MAXDIST + PHI * LOG2D (e_shl e) (uint (s_poll (w_s w)))"
  have "\<not> ?T < root_dist w q" using assms(1) by (auto simp: fit_def split: if_splits)
  moreover have T: "?T \<noteq> NaN" "?T \<le> Fin 8"
  proof -
    obtain f where f: "PHI = Fin f" "0 \<le> f" using PHI_fin by blast
    have L: "LOG2D (e_shl e) (uint (s_poll (w_s w))) = Fin (2 ^ nat (uint (s_poll (w_s w))))"
      using assms(2) by (intro LOG2D_poll_range) (simp_all add: poll_ok_def)
    have "0 \<le> PHI * LOG2D (e_shl e) (uint (s_poll (w_s w)))"
      unfolding f(1) L using f(2) by (intro dmul_nonneg_fin) simp_all
    then obtain r where r: "PHI * LOG2D (e_shl e) (uint (s_poll (w_s w))) = Fin r" "0 \<le> r" "r \<le> 2"
      using LOG2D_poll_8 [OF assms(2), of "e_shl e"] by (elim dbl_nonneg_cases) (auto simp: less_eq_dbl_def)
    then have "?T = flt (5 + r)" by (simp add: dbl_of_int_exact)
    moreover have "flt (5 + r) \<le> flt 8" using r by (intro flt_mono) simp
    ultimately show "?T \<noteq> NaN" "?T \<le> Fin 8" by simp_all
  qed
  moreover have "root_dist w q \<noteq> NaN" using root_dist_ge [OF assms(3)] by auto
  ultimately show ?thesis using dbl_not_less dbl_le_trans by blast
qed

section \<open>The chime list\<close>

lemma fit_frame [simp]:
  "fit e (upd_s (\<lambda>s. s\<lparr>s_m := a\<rparr>) w) q = fit e w q" "fit e (upd_s (\<lambda>s. s\<lparr>s_p := b\<rparr>) w) q = fit e w q"
  by (simp_all add: fit_def)

lemma edge_frame [simp]:
  "lower_edge (w\<lparr>w_s := a\<rparr>) p q = lower_edge w p q" "upper_edge (w\<lparr>w_s := a\<rparr>) p q = upper_edge w p q"
  by (simp_all add: lower_edge_def upper_edge_def)

text \<open>The chime list of the associations that are fit, in the order of the table.\<close>

definition chimes :: "world \<Rightarrow> ptr \<Rightarrow> ntp_m list" where
  "chimes w p = [lower_edge w p (peer w p), mid_point p (peer w p), upper_edge w p (peer w p)]"

definition fit_peers :: "env \<Rightarrow> world \<Rightarrow> nat \<Rightarrow> ptr list" where
  "fit_peers e w k = filter (\<lambda>p. fit e w (peer w p)) (take k (w_peers w))"

lemma length_chimes [simp]: "length (concat (map (chimes w) ps)) = 3 * length ps"
  by (induction ps) (simp_all add: chimes_def)

lemma length_fit_peers: "length (fit_peers e w k) \<le> k"
  using length_filter_le [of _ "take k (w_peers w)"] by (simp add: fit_peers_def)

lemma fit_peers_Suc:
  assumes "k < length (w_peers w)"
  shows "fit_peers e w (Suc k) =
    fit_peers e w k @ (if fit e w (peer w (w_peers w ! k)) then [w_peers w ! k] else [])"
  using assms by (simp add: fit_peers_def take_Suc_conv_app_nth)

lemma put3:
  assumes "length xs + 3 \<le> n" and "length ys = n - length xs"
  shows "(xs @ ys)[length xs := a, Suc (length xs) := b, Suc (Suc (length xs)) := c] =
    (xs @ [a, b, c]) @ drop 3 ys"
proof -
  obtain p q r ys' where "ys = p # q # r # ys'"
    using assms by (cases ys; cases "tl ys"; cases "tl (tl ys)") auto
  then show ?thesis by (simp add: list_update_append)
qed

lemma foldr_r_Nil_eq: "foldr_r f [] = Inr"
  by (rule ext) simp

lemma foldr_r_single: "foldr_r f [x] = f x"
  by (rule ext) (simp add: foldr_r_Nil_eq)

lemma cull_upto:
  assumes tab: "table_ok w" and k: "k \<le> NMAX" "k \<le> length (w_peers w)" and m: "length (s_m (w_s w)) = 25"
  shows "foldr_r (cull_peer e) [0..<k] (0, w) =
    (let F = fit_peers e w k in
     Inr (3 * length F, upd_s (\<lambda>s. s\<lparr>s_m := concat (map (chimes w) F) @ drop (3 * length F) (s_m s)\<rparr>) w))"
  using k
proof (induction k)
  case 0
  then show ?case by (simp add: fit_peers_def)
next
  case (Suc k)
  let ?F = "fit_peers e w k" and ?p = "w_peers w ! k"
  let ?C = "concat (map (chimes w) ?F)" and ?D = "drop (3 * length ?F) (s_m (w_s w))"
  let ?v = "upd_s (\<lambda>s. s\<lparr>s_m := ?C @ ?D\<rparr>) w"
  have val: "valid w ?p" using table_okD(2) [OF tab, of k] Suc.prems by simp
  have len: "3 * length ?F + 3 \<le> 25" using length_fit_peers [of e w k] Suc.prems by simp
  have step: "cull_peer e k (3 * length ?F, ?v) =
     (let F = fit_peers e w (Suc k) in
      Inr (3 * length F, upd_s (\<lambda>s. s\<lparr>s_m := concat (map (chimes w) F) @ drop (3 * length F) (s_m s)\<rparr>) w))"
  proof (cases "fit e w (peer w ?p)")
    case True
    have upd: "(?C @ ?D)[3 * length ?F := lower_edge w ?p (peer w ?p),
        Suc (3 * length ?F) := mid_point ?p (peer w ?p),
        Suc (Suc (3 * length ?F)) := upper_edge w ?p (peer w ?p)] = (?C @ chimes w ?p) @ drop 3 ?D"
      using put3 [of ?C 25 ?D] len m by (simp add: chimes_def)
    have "3 * length (fit_peers e w (Suc k)) = 3 * length ?F + 3"
      using True Suc.prems by (simp add: fit_peers_Suc)
    with True val Suc.prems len m upd show ?thesis
      by (simp add: cull_peer_def table_at_def put_chime_def put_idx_def fit_peers_Suc Let_def
          add.commute del: upt_Suc)
  next
    case False
    with val Suc.prems show ?thesis
      by (simp add: cull_peer_def table_at_def fit_peers_Suc Let_def)
  qed
  have "foldr_r (cull_peer e) [0..<Suc k] (0, w) =
      bind_r (foldr_r (cull_peer e) [0..<k] (0, w)) (foldr_r (cull_peer e) [k])"
    by (simp only: upt_Suc_append foldr_r_append)
  also have "\<dots> = cull_peer e k (3 * length ?F, ?v)"
    using Suc by (simp add: Let_def foldr_r_Nil_eq)
  finally show ?case using step by simp
qed

lemma cull_result:
  assumes "table_ok w" and "NMAX \<le> length (w_peers w)" and "length (s_m (w_s w)) = 25"
  shows "cull e w =
    (let F = fit_peers e w NMAX; n = 3 * length F in
     Inr (n, upd_s (\<lambda>s. s\<lparr>s_m := e_qsort e compare_ntp_m (concat (map (chimes w) F)) @ drop n (s_m s)\<rparr>) w))"
  using cull_upto [OF assms(1) order_refl assms(2,3)] length_fit_peers [of e w NMAX] assms(3)
  by (simp add: cull_def Let_def)

section \<open>Sorting\<close>

text \<open>
  The contract of qsort(): for a comparison function that is a total preorder on the entries, the
  result is a permutation of them in nondecreasing order.
\<close>

definition total_preorder_on :: "'a set \<Rightarrow> ('a \<Rightarrow> 'a \<Rightarrow> int) \<Rightarrow> bool" where
  "total_preorder_on A cmp \<longleftrightarrow> (\<forall>a \<in> A. \<forall>b \<in> A. cmp a b \<le> 0 \<or> cmp b a \<le> 0) \<and>
     (\<forall>a \<in> A. \<forall>b \<in> A. \<forall>c \<in> A. cmp a b \<le> 0 \<longrightarrow> cmp b c \<le> 0 \<longrightarrow> cmp a c \<le> 0)"

definition qsort_ok :: "env \<Rightarrow> bool" where
  "qsort_ok e \<longleftrightarrow> (\<forall>cmp xs. total_preorder_on (set xs) cmp \<longrightarrow>
     mset (e_qsort e cmp xs) = mset xs \<and> sorted_wrt (\<lambda>a b. cmp a b \<le> 0) (e_qsort e cmp xs))"

lemma mset_insert_by: "mset (insert_by cmp x ys) = add_mset x (mset ys)"
  by (induction ys) simp_all

lemma set_insert_by: "set (insert_by cmp x ys) = insert x (set ys)"
  by (induction ys) auto

lemma total_preorder_subset: "total_preorder_on A cmp \<Longrightarrow> B \<subseteq> A \<Longrightarrow> total_preorder_on B cmp"
  unfolding total_preorder_on_def by (meson subsetD)

lemma total_preorderD:
  assumes "total_preorder_on A cmp" and "a \<in> A" and "b \<in> A"
  shows "cmp a b \<le> 0 \<or> cmp b a \<le> 0"
    and "c \<in> A \<Longrightarrow> cmp a b \<le> 0 \<Longrightarrow> cmp b c \<le> 0 \<Longrightarrow> cmp a c \<le> 0"
  using assms unfolding total_preorder_on_def by blast+

lemma sorted_insert_by:
  assumes "total_preorder_on (insert x (set ys)) cmp" and "sorted_wrt (\<lambda>a b. cmp a b \<le> 0) ys"
  shows "sorted_wrt (\<lambda>a b. cmp a b \<le> 0) (insert_by cmp x ys)"
  using assms
proof (induction ys)
  case (Cons y ys)
  let ?A = "insert x (set (y # ys))"
  note pre = total_preorderD [OF Cons.prems(1)]
  show ?case
  proof (cases "cmp x y \<le> 0")
    case True
    have "cmp x z \<le> 0" if "z \<in> set ys" for z
      using that True Cons.prems(2) by (intro pre(2) [of x y z]) simp_all
    then show ?thesis using True Cons.prems(2) by simp
  next
    case False
    then have "cmp y x \<le> 0" using pre(1) [of x y] by simp
    moreover have "total_preorder_on (insert x (set ys)) cmp"
      using Cons.prems(1) by (rule total_preorder_subset) auto
    ultimately show ?thesis using Cons.IH Cons.prems(2) False by (simp add: set_insert_by)
  qed
qed simp

lemma sort_by_sorts:
  assumes "total_preorder_on (set xs) cmp"
  shows "mset (sort_by cmp xs) = mset xs \<and> sorted_wrt (\<lambda>a b. cmp a b \<le> 0) (sort_by cmp xs)"
  using assms
proof (induction xs)
  case Nil
  then show ?case by (simp add: sort_by_def)
next
  case (Cons x xs)
  have "total_preorder_on (set xs) cmp"
    using Cons.prems by (rule total_preorder_subset) auto
  with Cons have IH: "mset (sort_by cmp xs) = mset xs" "sorted_wrt (\<lambda>a b. cmp a b \<le> 0) (sort_by cmp xs)"
    by auto
  have "set (sort_by cmp xs) = set xs" using IH(1) by (rule mset_eq_setD)
  then show ?case
    using IH sorted_insert_by [of x "sort_by cmp xs" cmp] Cons.prems
    by (simp add: sort_by_def mset_insert_by)
qed

lemma demo_qsort_ok: "qsort_ok demo_env"
  by (simp add: qsort_ok_def demo_env_def sort_by_sorts)

lemma dbl_le_cases: "x \<noteq> NaN \<Longrightarrow> y \<noteq> NaN \<Longrightarrow> x \<le> y \<longleftrightarrow> \<not> y < (x :: dbl)"
  by (simp add: dbl_not_less)

lemma compare_le: "m_edge a \<noteq> NaN \<Longrightarrow> m_edge b \<noteq> NaN \<Longrightarrow> compare_ntp_m a b \<le> 0 \<longleftrightarrow> m_edge a \<le> m_edge b"
  by (simp add: compare_ntp_m_def dbl_le_cases dbl_less_not_sym)

lemma dbl_total: "x \<noteq> NaN \<Longrightarrow> y \<noteq> NaN \<Longrightarrow> x \<le> y \<or> y \<le> (x :: dbl)"
  by (simp add: dbl_le_cases) (blast dest: dbl_less_not_sym)

lemma compare_preorder:
  assumes "\<forall>m \<in> A. m_edge m \<noteq> NaN"
  shows "total_preorder_on A compare_ntp_m"
  unfolding total_preorder_on_def
proof (intro conjI ballI impI)
  fix a b assume ab: "a \<in> A" "b \<in> A"
  with assms dbl_total [of "m_edge a" "m_edge b"] show "compare_ntp_m a b \<le> 0 \<or> compare_ntp_m b a \<le> 0"
    by (simp add: compare_le)
  fix c assume "c \<in> A" "compare_ntp_m a b \<le> 0" "compare_ntp_m b c \<le> 0"
  with ab assms show "compare_ntp_m a c \<le> 0"
    using dbl_le_trans [of "m_edge a" "m_edge b" "m_edge c"] by (simp add: compare_le)
qed

lemma qsort_chimes:
  assumes "qsort_ok e" and "\<forall>m \<in> set ms. m_edge m \<noteq> NaN"
  shows "mset (e_qsort e compare_ntp_m ms) = mset ms"
    and "sorted_wrt (\<lambda>a b. m_edge a \<le> m_edge b) (e_qsort e compare_ntp_m ms)"
proof -
  have q: "mset (e_qsort e compare_ntp_m ms) = mset ms"
    "sorted_wrt (\<lambda>a b. compare_ntp_m a b \<le> 0) (e_qsort e compare_ntp_m ms)"
    using assms(1) compare_preorder [OF assms(2)] by (simp_all add: qsort_ok_def)
  then show "mset (e_qsort e compare_ntp_m ms) = mset ms" by simp
  have "set (e_qsort e compare_ntp_m ms) = set ms" using q(1) by (rule mset_eq_setD)
  then show "sorted_wrt (\<lambda>a b. m_edge a \<le> m_edge b) (e_qsort e compare_ntp_m ms)"
    using assms(2) by (intro sorted_wrt_mono_rel [OF _ q(2)]) (simp add: compare_le)
qed

section \<open>The scans\<close>

text \<open>A scan that starts from the edge it found before finds it again.\<close>

lemma scan_high_again: "scan_high ms is c l h = Inr h' \<Longrightarrow> scan_high ms is c l h' = Inr h'"
  by (induction ms "is" c l h rule: scan_high.induct) (auto simp: outcome_simps Let_def split: if_splits)

lemma scan_low_again: "scan_low ms is c l h = Inr h' \<Longrightarrow> scan_low ms is c l h' = Inr h'"
  by (induction ms "is" c l h rule: scan_low.induct) (auto simp: outcome_simps Let_def split: if_splits)

lemma allow_loop_fixed:
  assumes "scan_high ms [0..<nat n] 0 0 high = Inr high" and "scan_low ms [0..<nat n] 0 0 low = Inr low"
  shows "allow_loop found ms n allow low high = Inr (low, high)"
  using assms
proof (induction found ms n allow low high rule: allow_loop.induct)
  case (1 found ms n allow low high)
  then show ?case by (subst allow_loop.simps) simp
qed

lemma allow_loop_result:
  assumes "0 < n"
  shows "allow_loop found ms n 0 low high =
    bind_r (scan_high ms [0..<nat n] 0 0 high) (\<lambda>high.
    bind_r (scan_low ms [0..<nat n] 0 0 low) (\<lambda>low. Inr (low, high)))"
proof (cases "scan_high ms [0..<nat n] 0 0 high")
  case (Inl er)
  then show ?thesis using assms by (subst allow_loop.simps) simp
next
  case h: (Inr h)
  show ?thesis
  proof (cases "scan_low ms [0..<nat n] 0 0 low")
    case (Inl er)
    with h show ?thesis using assms by (subst allow_loop.simps) simp
  next
    case l: (Inr l)
    have "allow_loop found ms n 1 l h = Inr (l, h)"
      by (rule allow_loop_fixed [OF scan_high_again [OF h] scan_low_again [OF l]])
    with h l show ?thesis using assms by (subst allow_loop.simps) simp
  qed
qed

text \<open>
  On entries of the types -1, 0 and 1 the count falls exactly at an upper edge, and stays the same
  exactly at a midpoint.
\<close>

definition chime_types :: "ntp_m list \<Rightarrow> bool" where
  "chime_types ms \<longleftrightarrow> (\<forall>m \<in> set ms. m_type m \<in> {- 1, 0, 1})"

lemma scan_high_find:
  assumes "\<forall>i \<in> set is. i < length ms \<and> m_type (ms ! i) \<in> {- 1, 0, 1}"
    and "\<bar>c\<bar> + int (length is) < 2147483647"
  shows "scan_high ms is c c h =
    Inr (case List.find (\<lambda>i. m_type (ms ! i) = 1) is of None \<Rightarrow> h | Some i \<Rightarrow> m_edge (ms ! i))"
  using assms
proof (induction "is" arbitrary: c)
  case (Cons i "is")
  have t: "m_type (ms ! i) \<in> {- 1, 0, 1}"
    using Cons.prems by simp
  then have c: "i32 (c - m_type (ms ! i)) = c - m_type (ms ! i)"
    using Cons.prems(2) by (intro i32_id) auto
  have "scan_high ms is (c - m_type (ms ! i)) (c - m_type (ms ! i)) h =
    Inr (case List.find (\<lambda>i. m_type (ms ! i) = 1) is of None \<Rightarrow> h | Some i \<Rightarrow> m_edge (ms ! i))"
    using Cons.prems t by (intro Cons.IH) auto
  with Cons.prems(1) t show ?case by (auto simp: c Let_def)
qed simp

lemma scan_low_find:
  assumes "\<forall>i \<in> set is. i < length ms \<and> m_type (ms ! i) \<in> {- 1, 0, 1}"
    and "\<bar>c\<bar> + int (length is) < 2147483647"
  shows "scan_low ms is c c h =
    (case List.find (\<lambda>i. m_type (ms ! i) = 0) is of
       None \<Rightarrow> Inr h
     | Some i \<Rightarrow> if i = 0 then Inl (Index_OOB Chime_List) else Inr (m_edge (ms ! (i - 1))))"
  using assms
proof (induction "is" arbitrary: c)
  case (Cons i "is")
  have t: "m_type (ms ! i) \<in> {- 1, 0, 1}"
    using Cons.prems by simp
  then have c: "i32 (c + m_type (ms ! i)) = c + m_type (ms ! i)"
    using Cons.prems(2) by (intro i32_id) auto
  have "scan_low ms is (c + m_type (ms ! i)) (c + m_type (ms ! i)) h =
    (case List.find (\<lambda>i. m_type (ms ! i) = 0) is of
       None \<Rightarrow> Inr h
     | Some i \<Rightarrow> if i = 0 then Inl (Index_OOB Chime_List) else Inr (m_edge (ms ! (i - 1))))"
    using Cons.prems t by (intro Cons.IH) auto
  with Cons.prems(1) t show ?case by (auto simp: c Let_def)
qed simp

lemma intersection_find:
  assumes "n \<le> length (s_m (w_s w))" and "\<forall>i < n. m_type (s_m (w_s w) ! i) \<in> {- 1, 0, 1}"
    and "n < 1000000"
  shows "intersection e (int n) w =
    (let ms = s_m (w_s w);
         high = (case List.find (\<lambda>i. m_type (ms ! i) = 1) [0..<n] of
                   None \<Rightarrow> flt (- 2000000000) | Some i \<Rightarrow> m_edge (ms ! i))
     in case List.find (\<lambda>i. m_type (ms ! i) = 0) [0..<n] of
          None \<Rightarrow> Inr (flt 2000000000, high)
        | Some i \<Rightarrow> if i = 0 then Inl (Index_OOB Chime_List) else Inr (m_edge (ms ! (i - 1)), high))"
proof (cases "n = 0")
  case True
  then show ?thesis by (simp add: intersection_def allow_loop.simps)
next
  case False
  then have pos: "0 < int n" by simp
  have "scan_high (s_m (w_s w)) [0..<n] 0 0 (flt (- 2000000000)) =
      Inr (case List.find (\<lambda>i. m_type (s_m (w_s w) ! i) = 1) [0..<n] of
             None \<Rightarrow> flt (- 2000000000) | Some i \<Rightarrow> m_edge (s_m (w_s w) ! i))"
    using assms by (intro scan_high_find) auto
  moreover have "scan_low (s_m (w_s w)) [0..<n] 0 0 (flt 2000000000) =
      (case List.find (\<lambda>i. m_type (s_m (w_s w) ! i) = 0) [0..<n] of
         None \<Rightarrow> Inr (flt 2000000000)
       | Some i \<Rightarrow> if i = 0 then Inl (Index_OOB Chime_List) else Inr (m_edge (s_m (w_s w) ! (i - 1))))"
    using assms by (intro scan_low_find) auto
  ultimately show ?thesis
    unfolding intersection_def allow_loop_result [OF pos]
    by (simp add: Let_def split: option.split)
qed

section \<open>Finite edges\<close>

lemma ge_bound: "Fin a \<le> x \<Longrightarrow> x \<le> Fin b \<Longrightarrow> \<exists>r. x = Fin r \<and> a \<le> r \<and> r \<le> b"
  by (cases x) (auto simp: less_eq_dbl_def)

lemma fit_root_dist:
  assumes "fit e w q" and "poll_ok w" and "peer_sane w q"
  obtains r where "root_dist w q = Fin r" and "1 / 256 \<le> r" and "r \<le> 8"
  using ge_bound [OF root_dist_ge [OF assms(3)] fit_root_dist_le [OF assms]] that by blast

text \<open>Subtracting the root distance from an offset gives a smaller double.\<close>

lemma flt_sub_less:
  assumes "repr x" and "\<bar>x\<bar> \<le> 2 ^ 31" and "1 / 256 \<le> d" and "d \<le> 8"
  shows "flt (x - d) < Fin x"
proof -
  have "rnd (x - d) \<le> rnd (x - 1 / 256)" using assms(3) by (intro rnd_mono) simp
  also have "rnd (x - 1 / 256) < x"
  proof -
    define k where "k = \<lfloor>(x - 1 / 512) * 1024\<rfloor>"
    let ?g = "(of_int k + 1) / 1024 :: real"
    have b: "(x - 1 / 512) * 1024 - 1 < of_int k" "of_int k \<le> (x - 1 / 512) * 1024"
      unfolding k_def by linarith+
    then have g: "x - 1 / 256 \<le> ?g" "?g < x"
      by (simp_all add: field_simps)
    have "- (2 ^ 31) \<le> x" "x \<le> 2 ^ 31" using assms(2) by simp_all
    with b have "- (2 ^ 53) < (of_int k + 1 :: real)" "(of_int k + 1 :: real) < 2 ^ 53" by simp_all
    then have "\<bar>of_int k + 1 :: real\<bar> < 2 ^ 53" by (simp only: abs_less_iff) simp
    then have "\<bar>of_int (k + 1) :: real\<bar> < of_int (2 ^ 53)" by simp
    then have "\<bar>k + 1\<bar> < 2 ^ 53" by (metis of_int_abs of_int_less_iff)
    then have "repr (of_int (k + 1) * 2 powi (- 10))" by (intro repr_scaled) simp_all
    then have "repr ?g" using pow2_neg [of 10] by simp
    then have "rnd ?g = ?g" by (simp only: repr_def)
    then have "rnd (x - 1 / 256) \<le> ?g" using g(1) by (rule b64.R_upper)
    with g(2) show ?thesis by simp
  qed
  finally have "rnd (x - d) < x" .
  moreover have "\<bar>x - d\<bar> \<le> 2 ^ 32" using assms by simp
  then have "flt (x - d) = Fin (rnd (x - d))" by (rule flt_le_pow2) simp
  ultimately show ?thesis by simp
qed

lemma fit_edges:
  assumes "fit e w q" and "poll_ok w" and "peer_sane w q"
  shows "bd 32 (p_offset q - root_dist w q)" "bd 32 (p_offset q)" "bd 32 (p_offset q + root_dist w q)"
    and "p_offset q - root_dist w q < p_offset q"
proof -
  obtain r where r: "root_dist w q = Fin r" "1 / 256 \<le> r" "r \<le> 8"
    using fit_root_dist [OF assms] .
  have o31: "bd 31 (p_offset q)" using assms(3) by (simp add: peer_sane_def)
  have r31: "bd 31 (root_dist w q)" using r by simp
  show "bd 32 (p_offset q - root_dist w q)" "bd 32 (p_offset q + root_dist w q)" "bd 32 (p_offset q)"
    using bd_diff [OF o31 r31] bd_add [OF o31 r31] bd_mono [OF o31, of 32] by simp_all
  obtain x where "p_offset q = Fin x" "repr x" "\<bar>x\<bar> \<le> 2 ^ 31"
    using assms(3) by (auto simp: peer_sane_def bd_def)
  then show "p_offset q - root_dist w q < p_offset q"
    using flt_sub_less [of x r] r by simp
qed

section \<open>The state the selection relies on\<close>

definition ptr_ok :: "world \<Rightarrow> ptr \<Rightarrow> bool" where
  "ptr_ok w p \<longleftrightarrow> p = NULL \<or> valid w p"

definition sys_ok :: "world \<Rightarrow> bool" where
  "sys_ok w \<longleftrightarrow> length (s_m (w_s w)) = 25 \<and> length (s_v (w_s w)) = 25 \<and>
     (\<forall>i. 15 \<le> i \<longrightarrow> i < 25 \<longrightarrow> v_p (s_v (w_s w) ! i) = NULL) \<and>
     (\<forall>v \<in> set (s_v (w_s w)). ptr_ok w (v_p v)) \<and> ptr_ok w (s_p (w_s w)) \<and> poll_ok w"

definition table_full :: "world \<Rightarrow> bool" where
  "table_full w \<longleftrightarrow> table_ok w \<and> length (w_peers w) = NMAX \<and>
     (\<forall>p \<in> set (w_peers w). peer_sane w (peer w p))"

lemma ptr_ok_frame [simp]:
  "ptr_ok (w\<lparr>w_s := a\<rparr>) p = ptr_ok w p" "ptr_ok (w\<lparr>w_c := b\<rparr>) p = ptr_ok w p"
  by (simp_all add: ptr_ok_def)

lemma load_ok: "ptr_ok w p \<Longrightarrow> \<exists>q. load e w p = Inr q"
  by (cases p) (auto simp: ptr_ok_def)

lemma fit_peers_table:
  assumes "table_full w" and "p \<in> set (fit_peers e w k)"
  shows "p \<in> set (w_peers w)" "valid w p" "fit e w (peer w p)" "peer_sane w (peer w p)"
  using assms by (auto simp: fit_peers_def table_full_def table_ok_def list_all_iff dest: in_set_takeD)

text \<open>The sorted chime list of the fit associations.\<close>

definition chime_list :: "env \<Rightarrow> world \<Rightarrow> ntp_m list" where
  "chime_list e w = e_qsort e compare_ntp_m (concat (map (chimes w) (fit_peers e w NMAX)))"

lemma chime_list_props:
  assumes "qsort_ok e" and "table_full w" and "poll_ok w"
  shows "mset (chime_list e w) = mset (concat (map (chimes w) (fit_peers e w NMAX)))"
    and "sorted_wrt (\<lambda>a b. m_edge a \<le> m_edge b) (chime_list e w)"
    and "length (chime_list e w) = 3 * length (fit_peers e w NMAX)"
    and "set (chime_list e w) = (\<Union>p \<in> set (fit_peers e w NMAX). set (chimes w p))"
    and "chime_types (chime_list e w)"
proof -
  let ?L = "concat (map (chimes w) (fit_peers e w NMAX))"
  have edge: "m_edge m \<noteq> NaN" if "m \<in> set ?L" for m
  proof -
    from that obtain p where p: "p \<in> set (fit_peers e w NMAX)" "m \<in> set (chimes w p)" by auto
    note t = fit_peers_table [OF assms(2) p(1)]
    show ?thesis
      using p(2) fit_edges(1-3) [OF t(3) assms(3) t(4)] bd_not_NaN
      by (auto simp: chimes_def lower_edge_def mid_point_def upper_edge_def)
  qed
  then have q: "mset (chime_list e w) = mset ?L" "sorted_wrt (\<lambda>a b. m_edge a \<le> m_edge b) (chime_list e w)"
    unfolding chime_list_def using qsort_chimes [OF assms(1), of ?L] by blast+
  then show "mset (chime_list e w) = mset ?L" "sorted_wrt (\<lambda>a b. m_edge a \<le> m_edge b) (chime_list e w)"
    by simp_all
  show "length (chime_list e w) = 3 * length (fit_peers e w NMAX)"
    using mset_eq_length [OF q(1)] by simp
  show set: "set (chime_list e w) = (\<Union>p \<in> set (fit_peers e w NMAX). set (chimes w p))"
    using mset_eq_setD [OF q(1)] by simp
  show "chime_types (chime_list e w)"
    unfolding chime_types_def set
    by (auto simp: chimes_def lower_edge_def mid_point_def upper_edge_def)
qed

lemma chime_list_head:
  assumes "qsort_ok e" and "table_full w" and "poll_ok w" and "0 < length (chime_list e w)"
  shows "m_type (chime_list e w ! 0) \<noteq> 0"
proof
  assume t0: "m_type (chime_list e w ! 0) = 0"
  note C = chime_list_props [OF assms(1-3)]
  have "chime_list e w ! 0 \<in> set (chime_list e w)" using assms(4) by simp
  then obtain p where p: "p \<in> set (fit_peers e w NMAX)" "chime_list e w ! 0 \<in> set (chimes w p)"
    unfolding C(4) by auto
  with t0 have head: "m_edge (chime_list e w ! 0) = p_offset (peer w p)"
    by (auto simp: chimes_def lower_edge_def mid_point_def upper_edge_def)
  have "lower_edge w p (peer w p) \<in> set (chime_list e w)"
    unfolding C(4) using p(1) by (auto simp: chimes_def)
  then obtain j where j: "j < length (chime_list e w)" "chime_list e w ! j = lower_edge w p (peer w p)"
    by (auto simp: in_set_conv_nth)
  have "j \<noteq> 0"
  proof
    assume "j = 0"
    with j(2) t0 show False by (simp add: lower_edge_def)
  qed
  then have "m_edge (chime_list e w ! 0) \<le> m_edge (chime_list e w ! j)"
    using C(2) j(1) by (auto intro: sorted_wrt_nth_less)
  then have le: "p_offset (peer w p) \<le> p_offset (peer w p) - root_dist w (peer w p)"
    by (simp add: head j(2) lower_edge_def)
  note t = fit_peers_table [OF assms(2) p(1)]
  have "p_offset (peer w p) - root_dist w (peer w p) < p_offset (peer w p)"
    using fit_edges(4) [OF t(3) assms(3) t(4)] .
  with le show False using dbl_le_less_trans dbl_less_irrefl by blast
qed

section \<open>The survivor list\<close>

definition survivor :: "world \<Rightarrow> ntp_m \<Rightarrow> ntp_v" where
  "survivor w m =
     \<lparr>v_p = m_p m,
      v_metric = dbl_of_int (i32 (MAXDIST * uint (p_stratum (peer w (m_p m))))) + root_dist w (peer w (m_p m))\<rparr>"

definition in_interval :: "dbl \<Rightarrow> dbl \<Rightarrow> ntp_m \<Rightarrow> bool" where
  "in_interval low high m \<longleftrightarrow> \<not> (m_edge m < low \<or> high < m_edge m)"

lemma survivors_result:
  assumes "length (s_m (w_s w)) = 25" and "length (s_v (w_s w)) = 25" and "n \<le> 25"
    and "\<forall>m \<in> set (take n (s_m (w_s w))). valid w (m_p m)"
  shows "survivors e n low high w =
    (let S = filter (in_interval low high) (take n (s_m (w_s w))) in
     Inr (upd_s (\<lambda>s. s\<lparr>s_v := map (survivor w) S @ drop (length S) (s_v s), s_n := int (length S)\<rparr>) w))"
  using assms(3,4)
proof (induction n)
  case 0
  then show ?case by (simp add: survivors_def)
next
  case (Suc n)
  let ?S = "filter (in_interval low high) (take n (s_m (w_s w)))"
  let ?m = "s_m (w_s w) ! n"
  have tk: "take (Suc n) (s_m (w_s w)) = take n (s_m (w_s w)) @ [?m]"
    using Suc.prems assms(1) by (simp add: take_Suc_conv_app_nth)
  have len: "length ?S \<le> n"
    using length_filter_le [of _ "take n (s_m (w_s w))"] by simp
  let ?v = "upd_s (\<lambda>s. s\<lparr>s_v := map (survivor w) ?S @ drop (length ?S) (s_v s), s_n := int (length ?S)\<rparr>) w"
  have IH: "survivors e n low high w = Inr ?v"
    using Suc tk by (simp add: Let_def)
  have "survivors e (Suc n) low high w = bind_r (survivors e n low high w) (add_survivor e low high n)"
    by (simp add: survivors_def foldr_r_append foldr_r_single del: foldr_r.simps)
  also have "\<dots> = add_survivor e low high n ?v" by (simp add: IH)
  also have "\<dots> = (let S = filter (in_interval low high) (take (Suc n) (s_m (w_s w))) in
     Inr (upd_s (\<lambda>s. s\<lparr>s_v := map (survivor w) S @ drop (length S) (s_v s), s_n := int (length S)\<rparr>) w))"
  proof (cases "in_interval low high ?m")
    case True
    have val: "valid w (m_p ?m)" using Suc.prems tk by simp
    have "(map (survivor w) ?S @ drop (length ?S) (s_v (w_s w)))[length ?S := survivor w ?m]
        = (map (survivor w) ?S @ [survivor w ?m]) @ drop (Suc (length ?S)) (s_v (w_s w))"
      using len Suc.prems assms(2) by (simp add: list_update_append Cons_nth_drop_Suc [symmetric])
    moreover have "i32 (int (length ?S) + 1) = int (length ?S) + 1"
      using len Suc.prems by (intro i32_id) simp_all
    ultimately show ?thesis
      using True val len Suc.prems assms(1,2) tk
      by (simp add: add_survivor_def in_interval_def put_idx_def survivor_def Let_def)
  next
    case False
    then show ?thesis
      using Suc.prems assms(1) tk by (simp add: add_survivor_def in_interval_def Let_def)
  qed
  finally show ?case .
qed

section \<open>The cluster loop\<close>

lemma cluster_loop_ends:
  assumes "int k \<le> 2147483647" and "nat (s_n (w_s w)) \<le> k"
  shows "\<exists>r. cluster_loop e n w = Some r \<and>
    (\<forall>w'. r = Inr w' \<longrightarrow> (\<exists>j \<le> s_n (w_s w). w' = upd_s (\<lambda>s. s\<lparr>s_n := j\<rparr>) w))"
  using assms
proof (induction k arbitrary: w)
  case 0
  then have st: "cluster_stats e w n = Inr (flt (- 2000000000), flt 2000000000)"
    by (simp add: cluster_stats_def)
  have "flt (- 2000000000) < flt 2000000000"
    using flt_minus [of 2000000000] by simp
  with st show ?case by (subst cluster_loop.simps) (auto intro!: exI [of _ "s_n (w_s w)"])
next
  case (Suc k)
  show ?case
  proof (cases "cluster_stats e w n")
    case (Inl er)
    then show ?thesis by (subst cluster_loop.simps) simp
  next
    case (Inr mm)
    obtain mx mn where mm: "mm = (mx, mn)" by (cases mm)
    show ?thesis
    proof (cases "mx < mn \<or> int n \<le> NMIN")
      case True
      with Inr mm show ?thesis
        by (subst cluster_loop.simps) (auto intro!: exI [of _ "s_n (w_s w)"])
    next
      case False
      let ?v = "upd_s (\<lambda>s. s\<lparr>s_n := i32 (s_n s - 1)\<rparr>) w"
      have "\<not> s_n (w_s w) \<le> 0"
      proof
        assume "s_n (w_s w) \<le> 0"
        then have "cluster_stats e w n = Inr (flt (- 2000000000), flt 2000000000)"
          by (simp add: cluster_stats_def)
        moreover have "flt (- 2000000000) < flt 2000000000"
          using flt_minus [of 2000000000] by simp
        ultimately show False using Inr mm False by auto
      qed
      then have dec: "i32 (s_n (w_s w) - 1) = s_n (w_s w) - 1"
        using Suc.prems by (intro i32_id) simp_all
      then have "nat (s_n (w_s ?v)) \<le> k" using Suc.prems by simp
      then obtain r where r: "cluster_loop e n ?v = Some r"
        "\<forall>w'. r = Inr w' \<longrightarrow> (\<exists>j \<le> s_n (w_s ?v). w' = upd_s (\<lambda>s. s\<lparr>s_n := j\<rparr>) ?v)"
        using Suc.IH [of ?v] Suc.prems(1) by auto
      have "cluster_loop e n w = Some r"
        using Inr mm False r(1) by (subst cluster_loop.simps) simp
      moreover have "\<exists>j \<le> s_n (w_s w). w' = upd_s (\<lambda>s. s\<lparr>s_n := j\<rparr>) w" if eq: "r = Inr w'" for w'
      proof -
        obtain j where "j < s_n (w_s w)" "w' = upd_s (\<lambda>s. s\<lparr>s_n := j\<rparr>) w"
          using r(2) eq dec by auto
        then show ?thesis by (intro exI [of _ j]) simp
      qed
      ultimately show ?thesis by blast
    qed
  qed
qed

text \<open>The loads of the cluster loop succeed when the survivor pointers are null or live.\<close>

definition no_fault :: "'a outcome \<Rightarrow> bool" where
  "no_fault r \<longleftrightarrow> (case r of Inr x \<Rightarrow> True | Inl er \<Rightarrow> er = Hang Sqrt_Loop \<or> er = Exit 0)"

lemma no_fault_simps [simp]: "no_fault (Inr x)" "no_fault (Inl (Hang Sqrt_Loop))" "no_fault (Inl (Exit 0))"
  by (simp_all add: no_fault_def)

lemma no_fault_bind:
  "no_fault m \<Longrightarrow> (\<And>x. m = Inr x \<Longrightarrow> no_fault (f x)) \<Longrightarrow> no_fault (bind_r m f)"
  by (cases m) (simp_all add: no_fault_def)

lemma no_fault_c_sqrt [simp]: "no_fault (c_sqrt x)"
  by (simp add: c_sqrt_def split: option.split)

lemma no_fault_load: "ptr_ok w p \<Longrightarrow> no_fault (load e w p)"
  using load_ok [of w p e] by auto

lemma no_fault_foldr_r:
  assumes "\<And>x s. x \<in> set xs \<Longrightarrow> no_fault (f x s)"
  shows "no_fault (foldr_r f xs s)"
  using assms
proof (induction xs arbitrary: s)
  case (Cons x xs)
  then show ?case by (auto intro!: no_fault_bind)
qed simp

lemma cluster_stats_no_fault:
  assumes "sys_ok w" and "n \<le> 25" and "s_n (w_s w) \<le> 25"
  shows "no_fault (cluster_stats e w n)"
proof -
  have ld: "no_fault (load e w (v_p (s_v (w_s w) ! i)))" and len: "length (s_v (w_s w)) = 25"
    if "i < 25" for i
    using assms(1) that by (auto simp: sys_ok_def intro!: no_fault_load)
  have len: "length (s_v (w_s w)) = 25" using assms(1) by (simp add: sys_ok_def)
  have ps: "no_fault (pair_sum e w n x)" for x
    unfolding pair_sum_def
    by (rule no_fault_foldr_r) (use assms(2) ld len in \<open>auto intro!: no_fault_bind\<close>)
  show ?thesis
    unfolding cluster_stats_def
    by (rule no_fault_foldr_r)
      (use assms(3) ld len ps in \<open>auto simp: cluster_step_def Let_def intro!: no_fault_bind split: prod.split\<close>)
qed

lemma sys_ok_n [simp]: "sys_ok (upd_s (\<lambda>s. s\<lparr>s_n := j\<rparr>) w) = sys_ok w"
  by (simp add: sys_ok_def ptr_ok_def poll_ok_def)

lemma cluster_no_fault:
  assumes "sys_ok w" and "n \<le> 25" and "0 \<le> s_n (w_s w)" and "s_n (w_s w) \<le> 25"
  shows "no_fault (cluster e n w)"
proof -
  have "no_fault r" if "cluster_loop e n v = Some r" and "nat (s_n (w_s v)) \<le> k"
    "sys_ok v" "s_n (w_s v) \<le> 25" "- 1 \<le> s_n (w_s v)" for r v k
    using that
  proof (induction k arbitrary: v)
    case 0
    have "flt (- 2000000000) < flt 2000000000"
      using flt_minus [of 2000000000] by simp
    with 0 show ?case by (auto simp: cluster_loop.simps [of e n v] cluster_stats_def)
  next
    case (Suc k)
    note nf = cluster_stats_no_fault [OF Suc.prems(3) assms(2) Suc.prems(4), of e]
    show ?case
    proof (cases "cluster_stats e v n")
      case (Inl er)
      with nf Suc.prems(1) show ?thesis
        by (auto simp: cluster_loop.simps [of e n v] no_fault_def)
    next
      case (Inr mm)
      obtain mx mn where mm: "mm = (mx, mn)" by (cases mm)
      show ?thesis
      proof (cases "mx < mn \<or> int n \<le> NMIN \<or> s_n (w_s v) \<le> 0")
        case True
        then have "mx < mn \<or> int n \<le> NMIN"
        proof (elim disjE)
          assume "s_n (w_s v) \<le> 0"
          then have "cluster_stats e v n = Inr (flt (- 2000000000), flt 2000000000)"
            by (simp add: cluster_stats_def)
          then show ?thesis using Inr mm flt_minus [of 2000000000] by auto
        qed auto
        with Inr mm Suc.prems(1) show ?thesis by (auto simp: cluster_loop.simps [of e n v])
      next
        case False
        then have dec: "i32 (s_n (w_s v) - 1) = s_n (w_s v) - 1"
          using Suc.prems by (intro i32_id) simp_all
        let ?v = "upd_s (\<lambda>s. s\<lparr>s_n := i32 (s_n s - 1)\<rparr>) v"
        have "cluster_loop e n ?v = Some r"
          using Suc.prems(1) Inr mm False by (auto simp: cluster_loop.simps [of e n v])
        then show ?thesis
          by (rule Suc.IH) (use Suc.prems dec False in simp_all)
      qed
    qed
  qed
  note ends = this
  have "nat (s_n (w_s w)) \<le> 25" using assms(4) by simp
  then obtain r where r: "cluster_loop e n w = Some r" using cluster_loop_ends [of 25 w e n] by auto
  have "no_fault r" by (rule ends [OF r order_refl assms(1,4)]) (use assms(3) in simp)
  with r show ?thesis by (simp add: cluster_def)
qed

section \<open>Combining and updating without a fault\<close>

lemma combine_loop_no_fault:
  assumes "sys_ok w" and "\<exists>v \<in> set vs. v_p v = NULL" and "set vs \<subseteq> set (s_v (w_s w))"
  shows "no_fault (combine_loop e w vs y z u)"
  using assms(2,3)
proof (induction vs arbitrary: y z u)
  case (Cons r rs)
  have ld: "no_fault (load e w (v_p v))" if "v \<in> set (s_v (w_s w))" for v
    using assms(1) that by (auto simp: sys_ok_def intro!: no_fault_load)
  have len: "length (s_v (w_s w)) = 25" using assms(1) by (simp add: sys_ok_def)
  then have "s_v (w_s w) ! 0 \<in> set (s_v (w_s w))" by (intro nth_mem) simp
  then show ?case
    using Cons len ld by (auto simp: Let_def intro!: no_fault_bind)
qed simp

lemma sys_ok_NULL:
  assumes "sys_ok w"
  shows "\<exists>v \<in> set (s_v (w_s w)). v_p v = NULL"
proof -
  have "v_p (s_v (w_s w) ! 20) = NULL" "length (s_v (w_s w)) = 25"
    using assms by (simp_all add: sys_ok_def)
  moreover have "s_v (w_s w) ! 20 \<in> set (s_v (w_s w))"
    using calculation(2) by (intro nth_mem) simp
  ultimately show ?thesis by blast
qed

lemma clock_combine_no_fault: "sys_ok w \<Longrightarrow> no_fault (clock_combine e w)"
  unfolding clock_combine_def
  by (intro no_fault_bind combine_loop_no_fault sys_ok_NULL) (auto intro!: no_fault_bind)

lemma clock_combine_run:
  assumes "clock_combine e w = Inr w'"
  shows "\<exists>a b. w' = upd_s (\<lambda>s. s\<lparr>s_offset := a, s_jitter := b\<rparr>) w"
  using assms by (auto simp: clock_combine_def outcome_simps)

lemma inlier_jitter_no_fault: "no_fault (inlier_jitter e offset w)"
  by (auto simp: inlier_jitter_def Let_def intro!: no_fault_bind)

lemma update_freq_no_fault: "no_fault (update_freq freq w)"
  by (auto simp: update_freq_def Let_def intro!: no_fault_bind)

lemma vfo_tail_no_fault: "no_fault (vfo_tail x w)"
  by (cases x) (auto intro!: no_fault_bind update_freq_no_fault)

lemma local_clock_no_fault: "ptr_ok w p \<Longrightarrow> no_fault (local_clock e p offset w)"
  by (auto simp: local_clock_def inlier_def Let_def
      intro!: no_fault_bind no_fault_load vfo_tail_no_fault inlier_jitter_no_fault split: prod.split)

lemma ptr_ok_heap: "w_heap w' = w_heap w \<Longrightarrow> ptr_ok w' p = ptr_ok w p"
  using valid_frame [of w' w] by (simp add: ptr_ok_def)

lemma sys_ok_offset [simp]:
  "sys_ok (upd_s (\<lambda>s. s\<lparr>s_offset := a, s_jitter := b\<rparr>) w) = sys_ok w"
  "sys_ok (upd_s (\<lambda>s. s\<lparr>s_t := t\<rparr>) w) = sys_ok w"
  by (simp_all add: sys_ok_def ptr_ok_def poll_ok_def)

text \<open>The ranges of the poll exponent and the counter survive local_clock().\<close>

lemma local_clock_poll_ok:
  assumes "local_clock e p offset w = Inr (r, w')" and "poll_ok w"
  shows "poll_ok w'"
  using assms(1)
proof (cases rule: local_clock_run)
  case (2 q)
  then show ?thesis
    using assms(2) by (auto split: if_splits dest: outlier_poll_ok inlier_poll_ok)
next
  case (3 q v freq u)
  then have "poll_ok v"
    using assms(2) by (auto split: if_splits dest: outlier_poll_ok inlier_poll_ok)
  then have "poll_ok u"
    using 3(4) by (auto simp: poll_ok_def dest!: update_freq_run)
  with 3(5) show ?thesis by (simp add: adjust_poll_ok)
qed (use assms in simp)

lemma local_clock_sys_ok:
  assumes "local_clock e p offset w = Inr (r, w')" and "sys_ok w"
  shows "sys_ok w'"
proof -
  note f = vfo_rest_fields [OF local_clock_frame [OF assms(1)]]
  have "poll_ok w'" using local_clock_poll_ok [OF assms(1)] assms(2) by (simp add: sys_ok_def)
  with assms(2) show ?thesis
    by (simp add: sys_ok_def f ptr_ok_heap [OF f(1)])
qed

lemma system_slew_no_fault: "ptr_ok w p \<Longrightarrow> no_fault (system_slew e p w)"
  by (auto simp: system_slew_def Let_def intro!: no_fault_bind no_fault_load)

text \<open>What the update of the system variables keeps: the heap, the table, the lists, the peer.\<close>

definition keeps :: "world \<Rightarrow> world \<Rightarrow> bool" where
  "keeps w w' \<longleftrightarrow> w_heap w' = w_heap w \<and> w_peers w' = w_peers w \<and> w_size w' = w_size w \<and>
     w_brk w' = w_brk w \<and> w_ip w' = w_ip w \<and> w_sent w' = w_sent w \<and>
     w_last_nextdate w' = w_last_nextdate w \<and>
     s_precision (w_s w') = s_precision (w_s w)"

lemma keeps_refl [simp]: "keeps w w"
  by (simp add: keeps_def)

lemma keeps_trans: "keeps u v \<Longrightarrow> keeps v w \<Longrightarrow> keeps u w"
  by (simp add: keeps_def)

lemma keeps_vfo_rest:
  assumes "vfo_rest w' = vfo_rest w"
  shows "keeps w w'"
  using vfo_rest_fields [OF assms] by (simp add: keeps_def)

lemma clock_update_run:
  assumes "clock_update e p w = Inr w'" and "sys_ok w" and "ptr_ok w p"
  shows "keeps w w' \<and> sys_ok w' \<and> s_p (w_s w') = s_p (w_s w)"
proof -
  obtain q where q: "load e w p = Inr q"
    using assms(1) by (auto simp: clock_update_def outcome_simps)
  show ?thesis
  proof (cases "p_t q < s_t (w_s w)")
    case True
    with assms q show ?thesis by (simp add: clock_update_def)
  next
    case False
    obtain u where u: "clock_combine e (upd_s (\<lambda>s. s\<lparr>s_t := p_t q\<rparr>) w) = Inr u"
      using assms(1) q False by (auto simp: clock_update_def outcome_simps)
    then have ku: "keeps w u" "sys_ok u" "s_p (w_s u) = s_p (w_s w)"
      using assms(2)
      by (auto simp: keeps_def sys_ok_def ptr_ok_def poll_ok_def dest!: clock_combine_run)
    obtain rv v where v: "local_clock e p (s_offset (w_s u)) u = Inr (rv, v)"
      and rest: "clock_verdict e p (rv, v) = Inr w'"
      using assms(1) q False u by (auto simp: clock_update_def outcome_simps)
    note fr = local_clock_frame [OF v]
    have kv: "keeps w v" "sys_ok v" "s_p (w_s v) = s_p (w_s w)"
      using keeps_trans [OF ku(1) keeps_vfo_rest [OF fr]] local_clock_sys_ok [OF v ku(2)]
        vfo_rest_fields(8) [OF fr] ku(3) by simp_all
    from rest consider "w' = v" | "w' = upd_s (\<lambda>s. s\<lparr>s_stratum := word_of_int MAXSTRAT,
        s_poll := word_of_int MINPOLL\<rparr>) v" | "system_slew e p v = Inr w'"
      by (cases rv) auto
    then show ?thesis
      using kv
      by cases (auto simp: system_slew_def Let_def outcome_simps keeps_def sys_ok_def ptr_ok_def poll_ok_def)
  qed
qed

lemma clock_verdict_no_fault: "ptr_ok w p \<Longrightarrow> no_fault (clock_verdict e p (rv, w))"
  by (cases rv) (simp_all add: system_slew_no_fault)

lemma clock_update_no_fault:
  assumes "sys_ok w" and "ptr_ok w p"
  shows "no_fault (clock_update e p w)"
proof -
  have tail: "no_fault (bind_r (clock_combine e v) (\<lambda>w.
      bind_r (local_clock e p (s_offset (w_s w)) w) (clock_verdict e p)))"
    if v: "sys_ok v" "ptr_ok v p" for v
  proof (rule no_fault_bind)
    show "no_fault (clock_combine e v)" using v(1) by (rule clock_combine_no_fault)
    fix u assume "clock_combine e v = Inr u"
    then have u: "ptr_ok u p" using v(2) by (auto dest!: clock_combine_run)
    show "no_fault (bind_r (local_clock e p (s_offset (w_s u)) u) (clock_verdict e p))"
    proof (rule no_fault_bind)
      show "no_fault (local_clock e p (s_offset (w_s u)) u)" using u by (rule local_clock_no_fault)
      fix x assume "local_clock e p (s_offset (w_s u)) u = Inr x"
      then obtain rv v' where x: "x = (rv, v')" "local_clock e p (s_offset (w_s u)) u = Inr (rv, v')"
        by (cases x) simp
      have "ptr_ok v' p"
        using u ptr_ok_heap [OF vfo_rest_fields(1) [OF local_clock_frame [OF x(2)]]] by simp
      then show "no_fault (clock_verdict e p x)" unfolding x(1) by (rule clock_verdict_no_fault)
    qed
  qed
  have "sys_ok (upd_s (\<lambda>s. s\<lparr>s_t := t\<rparr>) w)" "ptr_ok (upd_s (\<lambda>s. s\<lparr>s_t := t\<rparr>) w) p" for t
    using assms by simp_all
  then have t: "no_fault (bind_r (clock_combine e (upd_s (\<lambda>s. s\<lparr>s_t := t\<rparr>) w)) (\<lambda>w.
      bind_r (local_clock e p (s_offset (w_s w)) w) (clock_verdict e p)))" for t
    by (rule tail)
  show ?thesis
    unfolding clock_update_def
  proof (rule no_fault_bind)
    show "no_fault (load e w p)" using assms(2) by (rule no_fault_load)
    show "no_fault (if p_t q < s_t (w_s w) then Inr w
      else bind_r (clock_combine e (upd_s (\<lambda>s. s\<lparr>s_t := p_t q\<rparr>) w)) (\<lambda>w.
           bind_r (local_clock e p (s_offset (w_s w)) w) (clock_verdict e p)))" for q
      using t [of "p_t q"] by (simp only: no_fault_simps split: if_split) blast
  qed
qed

end
