(* ===== verification/Select_Props.thy ===== *)
theory Select_Props
  imports Selection
begin

text \<open>
  The properties of the system process: the chime list and the intersection, the run of
  clock_select() as a whole (no memory fault, the state it keeps), and the effect of
  clock_update() on every branch.
\<close>

section \<open>clock_select() as a whole\<close>

lemma cull_chime_list:
  assumes "qsort_ok e" and "table_full w" and "length (s_m (w_s w)) = 25" and "poll_ok w"
  shows "cull e w = Inr (length (chime_list e w),
      upd_s (\<lambda>s. s\<lparr>s_m := chime_list e w @ drop (length (chime_list e w)) (s_m s)\<rparr>) w)"
  using cull_result [of w e] assms chime_list_props(3) [OF assms(1,2,4)]
  by (simp add: table_full_def chime_list_def Let_def)

lemma length_chime_list:
  assumes "qsort_ok e" and "table_full w" and "poll_ok w"
  shows "length (chime_list e w) \<le> 15"
  using chime_list_props(3) [OF assms] length_fit_peers [of e w NMAX] by simp

lemma chime_list_valid:
  assumes "qsort_ok e" and "table_full w" and "poll_ok w"
  shows "\<forall>m \<in> set (chime_list e w). valid w (m_p m) \<and> m_p m \<in> set (w_peers w)"
  using chime_list_props(4) [OF assms] fit_peers_table [OF assms(2)]
  by (auto simp: chimes_def lower_edge_def mid_point_def upper_edge_def)

lemma intersection_prefix:
  assumes "chime_types ms" and "length ms \<le> 25" and "s_m (w_s w) = ms @ rest"
    and "0 < length ms \<Longrightarrow> m_type (ms ! 0) \<noteq> 0"
  shows "\<exists>lh. intersection e (int (length ms)) w = Inr lh"
proof -
  let ?n = "length ms"
  have nth: "s_m (w_s w) ! i = ms ! i" if "i < ?n" for i
    using that assms(3) by (simp add: nth_append)
  then have "\<forall>i < ?n. m_type (s_m (w_s w) ! i) \<in> {- 1, 0, 1}"
    using assms(1) by (simp add: chime_types_def)
  moreover have "i \<noteq> 0" if "List.find (\<lambda>i. m_type (s_m (w_s w) ! i) = 0) [0..<?n] = Some i" for i
    using find_SomeD [OF that] assms(4) nth by (cases i) auto
  ultimately show ?thesis
    using intersection_find [of ?n w e] assms(2,3) by (auto simp: Let_def split: option.split)
qed

text \<open>The state after cull() and the survivor loop.\<close>

lemma select_prefix:
  assumes "qsort_ok e" and "table_full w" and "sys_ok w"
  obtains v low high S where "cull e (upd_s (\<lambda>s. s\<lparr>s_p := NULL\<rparr>) w) = Inr (length (chime_list e w), v)"
    and "intersection e (int (length (chime_list e w))) v = Inr (low, high)"
    and "S = filter (in_interval low high) (chime_list e w)"
    and "survivors e (length (chime_list e w)) low high v =
      Inr (upd_s (\<lambda>s. s\<lparr>s_p := NULL, s_m := chime_list e w @ drop (length (chime_list e w)) (s_m s),
             s_v := map (survivor w) S @ drop (length S) (s_v s), s_n := int (length S)\<rparr>) w)"
    and "v = upd_s (\<lambda>s. s\<lparr>s_p := NULL, s_m := chime_list e w @ drop (length (chime_list e w)) (s_m s)\<rparr>) w"
proof -
  let ?w = "upd_s (\<lambda>s. s\<lparr>s_p := NULL\<rparr>) w" and ?C = "chime_list e w"
  have poll: "poll_ok w" using assms(3) by (simp add: sys_ok_def)
  have fp: "fit_peers e ?w NMAX = fit_peers e w NMAX" by (simp add: fit_peers_def)
  have ch: "chimes ?w = chimes w" by (rule ext) (simp add: chimes_def)
  have C: "chime_list e ?w = ?C" by (simp add: chime_list_def fp ch)
  have tf: "table_full ?w" using assms(2) by (simp add: table_full_def peer_sane_def)
  have poll': "poll_ok ?w" using poll by (simp add: poll_ok_def)
  let ?v = "upd_s (\<lambda>s. s\<lparr>s_p := NULL, s_m := ?C @ drop (length ?C) (s_m s)\<rparr>) w"
  have cull: "cull e ?w = Inr (length ?C, ?v)"
    using cull_chime_list [OF assms(1) tf _ poll'] assms(3) by (simp add: C sys_ok_def)
  have len: "length ?C \<le> 15" by (rule length_chime_list [OF assms(1,2) poll])
  obtain low high where int: "intersection e (int (length ?C)) ?v = Inr (low, high)"
    using intersection_prefix [of ?C ?v "drop (length ?C) (s_m (w_s w))" e]
      chime_list_props(5) [OF assms(1,2) poll] chime_list_head [OF assms(1,2) poll] len
    by fastforce
  have tk: "take (length ?C) (s_m (w_s ?v)) = ?C" by simp
  have "survivors e (length ?C) low high ?v =
      (let S = filter (in_interval low high) ?C in
       Inr (upd_s (\<lambda>s. s\<lparr>s_v := map (survivor ?v) S @ drop (length S) (s_v s), s_n := int (length S)\<rparr>) ?v))"
    using survivors_result [of ?v "length ?C" e low high] len assms(3)
      chime_list_valid [OF assms(1,2) poll] by (simp add: sys_ok_def)
  moreover have "survivor ?v = survivor w" by (rule ext) (simp add: survivor_def)
  ultimately show thesis
    using that [of ?v low high "filter (in_interval low high) ?C"] cull int
    by (simp add: Let_def)
qed

lemma survivors_sys_ok:
  assumes "sys_ok w" and "set S \<subseteq> set C" and "\<forall>m \<in> set C. valid w (m_p m)" and "length S \<le> 15"
    and "length C \<le> 15"
  shows "sys_ok (upd_s (\<lambda>s. s\<lparr>s_p := NULL, s_m := C @ drop (length C) (s_m s),
             s_v := map (survivor w) S @ drop (length S) (s_v s), s_n := int (length S)\<rparr>) w)"
proof -
  have "v_p ((map (survivor w) S @ drop (length S) (s_v (w_s w))) ! i) = NULL" if "15 \<le> i" "i < 25" for i
    using that assms(1,4) by (simp add: sys_ok_def nth_append)
  moreover have "ptr_ok w (v_p v)" if "v \<in> set (map (survivor w) S @ drop (length S) (s_v (w_s w)))" for v
    using that assms(1-3) by (auto simp: sys_ok_def survivor_def ptr_ok_def dest: in_set_dropD)
  ultimately show ?thesis
    using assms(1,4,5) by (simp add: sys_ok_def poll_ok_def ptr_ok_def)
qed

lemma pick_peer_run:
  assumes "pick_peer e osys w = Inr w'" and "sys_ok w" and "ptr_ok w osys"
  shows "\<exists>p. w' = upd_s (\<lambda>s. s\<lparr>s_p := p\<rparr>) w \<and> ptr_ok w p \<and> (p = osys \<or> p = v_p (s_v (w_s w) ! 0))"
proof -
  obtain v and o_p p0 :: ntp_p where run: "idx Survivor_List (s_v (w_s w)) 0 = Inr v"
    "upd_s (\<lambda>s. s\<lparr>s_p := (if p_stratum o_p = p_stratum p0 then osys else v_p v)\<rparr>) w = w'"
    using assms(1) unfolding pick_peer_def bind_r_Inr_conv sum.inject by blast
  then have v: "v = s_v (w_s w) ! 0" "v \<in> set (s_v (w_s w))"
    by (auto simp: idx_Inr_iff)
  then have "ptr_ok w (v_p v)" using assms(2) by (simp add: sys_ok_def)
  with run(2) v(1) assms(3) show ?thesis
    by (intro exI [of _ "if p_stratum o_p = p_stratum p0 then osys else v_p v"]) simp
qed

lemma pick_peer_no_fault:
  assumes "sys_ok w" and "ptr_ok w osys"
  shows "no_fault (pick_peer e osys w)"
proof -
  have l: "length (s_v (w_s w)) = 25" using assms(1) by (simp add: sys_ok_def)
  then have "s_v (w_s w) ! 0 \<in> set (s_v (w_s w))" by (intro nth_mem) simp
  then have p0: "no_fault (load e w (v_p (s_v (w_s w) ! 0)))"
    using assms(1) by (intro no_fault_load) (simp add: sys_ok_def)
  have *: "no_fault (bind_r (idx Survivor_List (s_v (w_s w)) 0) (\<lambda>first. bind_r (load e w (v_p first)) (\<lambda>p0. Inr (f first p0))))"
    for f :: "ntp_v \<Rightarrow> ntp_p \<Rightarrow> world"
    using l p0 by (cases "load e w (v_p (s_v (w_s w) ! 0))") (simp_all add: no_fault_def)
  show ?thesis
    unfolding pick_peer_def by (rule no_fault_bind [OF no_fault_load [OF assms(2)]]) (rule *)
qed

lemma sys_ok_p: "sys_ok w \<Longrightarrow> ptr_ok w p \<Longrightarrow> sys_ok (upd_s (\<lambda>s. s\<lparr>s_p := p\<rparr>) w)"
  by (simp add: sys_ok_def poll_ok_def)

text \<open>After the survivor loop, up to the update.\<close>

lemma select_tail:
  assumes "sys_ok v" and "ptr_ok v osys" and "n \<le> 15" and "0 \<le> s_n (w_s v)" and "s_n (w_s v) \<le> 15"
  shows "no_fault (bind_r (cluster e n v) (\<lambda>w. bind_r (pick_peer e osys w) (\<lambda>w. clock_update e (s_p (w_s w)) w)))"
    and "bind_r (cluster e n v) (\<lambda>w. bind_r (pick_peer e osys w) (\<lambda>w. clock_update e (s_p (w_s w)) w)) = Inr w' \<Longrightarrow>
      keeps v w' \<and> sys_ok w' \<and> (s_p (w_s w') = osys \<or> s_p (w_s w') = v_p (s_v (w_s v) ! 0))"
proof -
  have "nat (s_n (w_s v)) \<le> 15" using assms(5) by simp
  then obtain r where r: "cluster_loop e n v = Some r"
    "\<forall>w'. r = Inr w' \<longrightarrow> (\<exists>j \<le> s_n (w_s v). w' = upd_s (\<lambda>s. s\<lparr>s_n := j\<rparr>) v)"
    using cluster_loop_ends [of 15 v e n] by auto
  have cl: "\<exists>j. u = upd_s (\<lambda>s. s\<lparr>s_n := j\<rparr>) v" if "cluster e n v = Inr u" for u
    using r that by (auto simp: cluster_def)
  have u: "sys_ok u" "ptr_ok u osys" "s_v (w_s u) = s_v (w_s v)" "keeps v u" if "cluster e n v = Inr u" for u
    using cl [OF that] assms(1,2) by (auto simp: keeps_def)
  have x: "sys_ok x" "ptr_ok x (s_p (w_s x))" "keeps v x"
    "s_p (w_s x) = osys \<or> s_p (w_s x) = v_p (s_v (w_s v) ! 0)"
    if run: "cluster e n v = Inr u" "pick_peer e osys u = Inr x" for u x
  proof -
    note uu = u [OF run(1)]
    obtain p where p: "x = upd_s (\<lambda>s. s\<lparr>s_p := p\<rparr>) u" "ptr_ok u p" "p = osys \<or> p = v_p (s_v (w_s u) ! 0)"
      using pick_peer_run [OF run(2) uu(1,2)] by blast
    then show "sys_ok x" using sys_ok_p uu(1) by simp
    from p uu show "ptr_ok x (s_p (w_s x))" "keeps v x"
      "s_p (w_s x) = osys \<or> s_p (w_s x) = v_p (s_v (w_s v) ! 0)"
      by (simp_all add: keeps_def)
  qed
  show "no_fault (bind_r (cluster e n v) (\<lambda>w. bind_r (pick_peer e osys w) (\<lambda>w. clock_update e (s_p (w_s w)) w)))"
  proof (rule no_fault_bind)
    show "no_fault (cluster e n v)" using assms by (intro cluster_no_fault) simp_all
    fix y assume y: "cluster e n v = Inr y"
    show "no_fault (bind_r (pick_peer e osys y) (\<lambda>w. clock_update e (s_p (w_s w)) w))"
    proof (rule no_fault_bind)
      show "no_fault (pick_peer e osys y)" using u [OF y] by (intro pick_peer_no_fault)
      show "no_fault (clock_update e (s_p (w_s z)) z)" if "pick_peer e osys y = Inr z" for z
        using x [OF y that] by (intro clock_update_no_fault)
    qed
  qed
  assume "bind_r (cluster e n v) (\<lambda>w. bind_r (pick_peer e osys w) (\<lambda>w. clock_update e (s_p (w_s w)) w)) = Inr w'"
  then obtain y z where yz: "cluster e n v = Inr y" "pick_peer e osys y = Inr z"
    "clock_update e (s_p (w_s z)) z = Inr w'"
    by (auto elim!: bind_r_E)
  note xx = x [OF yz(1,2)]
  from clock_update_run [OF yz(3) xx(1,2)] xx keeps_trans
  show "keeps v w' \<and> sys_ok w' \<and> (s_p (w_s w') = osys \<or> s_p (w_s w') = v_p (s_v (w_s v) ! 0))"
    by metis
qed

lemma clock_select_run:
  assumes "qsort_ok e" and "table_full w" and "sys_ok w"
  shows "no_fault (clock_select e w)"
    and "clock_select e w = Inr w' \<Longrightarrow> keeps w w' \<and> sys_ok w' \<and>
      (s_p (w_s w') = NULL \<or> s_p (w_s w') = s_p (w_s w) \<or> s_p (w_s w') \<in> set (w_peers w))"
proof -
  let ?w = "upd_s (\<lambda>s. s\<lparr>s_p := NULL\<rparr>) w" and ?C = "chime_list e w"
  obtain v low high S where cull: "cull e ?w = Inr (length ?C, v)"
    and int: "intersection e (int (length ?C)) v = Inr (low, high)"
    and S: "S = filter (in_interval low high) ?C"
    and surv: "survivors e (length ?C) low high v =
      Inr (upd_s (\<lambda>s. s\<lparr>s_p := NULL, s_m := ?C @ drop (length ?C) (s_m s),
             s_v := map (survivor w) S @ drop (length S) (s_v s), s_n := int (length S)\<rparr>) w)"
    (is "_ = Inr ?u")
    by (rule select_prefix [OF assms])
  have poll: "poll_ok w" using assms(3) by (simp add: sys_ok_def)
  note len = length_chime_list [OF assms(1,2) poll]
  note val = chime_list_valid [OF assms(1,2) poll]
  have lS: "length S \<le> 15" unfolding S using le_trans [OF length_filter_le len] .
  have su: "sys_ok ?u"
    by (rule survivors_sys_ok [OF assms(3)]) (use S val lS len in auto)
  have ou: "ptr_ok ?u (s_p (w_s w))" using assms(3) by (simp add: sys_ok_def)
  have select: "clock_select e w = (if int (length S) < NSANE then Inr ?u
      else bind_r (cluster e (length ?C) ?u) (\<lambda>x. bind_r (pick_peer e (s_p (w_s w)) x)
        (\<lambda>x. clock_update e (s_p (w_s x)) x)))"
    by (simp add: clock_select_def Let_def cull int surv)
  note tail = select_tail [OF su ou len, of e]
  have n: "0 \<le> s_n (w_s ?u)" "s_n (w_s ?u) \<le> 15" using lS by simp_all
  show "no_fault (clock_select e w)"
    unfolding select using tail(1) [OF n] by (simp only: no_fault_simps split: if_split) blast
  assume run: "clock_select e w = Inr w'"
  show "keeps w w' \<and> sys_ok w' \<and>
      (s_p (w_s w') = NULL \<or> s_p (w_s w') = s_p (w_s w) \<or> s_p (w_s w') \<in> set (w_peers w))"
  proof (cases "int (length S) < NSANE")
    case True
    with run select su show ?thesis by (auto simp: keeps_def)
  next
    case False
    then have ne: "S \<noteq> []" by auto
    then have "S ! 0 \<in> set ?C" using nth_mem [of 0 S] S by auto
    moreover have "s_v (w_s ?u) ! 0 = survivor w (S ! 0)" using ne by (simp add: nth_append)
    ultimately have first: "v_p (s_v (w_s ?u) ! 0) \<in> set (w_peers w)"
      using val by (simp add: survivor_def)
    have t: "keeps ?u w' \<and> sys_ok w' \<and>
      (s_p (w_s w') = s_p (w_s w) \<or> s_p (w_s w') = v_p (s_v (w_s ?u) ! 0))"
      by (rule tail(2) [OF n]) (use run False in \<open>simp only: select if_False\<close>)
    have k: "keeps w ?u" by (simp add: keeps_def)
    show ?thesis using t first keeps_trans [OF k conjunct1 [OF t]] by auto
  qed
qed

section \<open>Properties\<close>

text \<open>An association that passes fit() has a root distance between half the minimum dispersion
  and eight seconds, and its lower edge lies strictly below its midpoint.\<close>

theorem fit_distance_bounds:
  assumes "fit e w q" and "poll_ok w" and "peer_sane w q"
  shows "Fin (1 / 256) \<le> root_dist w q \<and> root_dist w q \<le> Fin 8 \<and>
    m_edge (lower_edge w p q) < m_edge (mid_point p q)"
  using root_dist_ge [OF assms(3)] fit_root_dist_le [OF assms] fit_edges(4) [OF assms]
  by (simp add: lower_edge_def mid_point_def)

text \<open>C11: cull() returns three chime entries for each fit association of the table and sorts them.
  On a full table of sane associations, the first n entries of s.m are a permutation of the lower
  edges, midpoints and upper edges of exactly the fit associations, in nondecreasing order of their
  edges, and nothing else changes.\<close>

theorem cull_sorts_truechimers:
  assumes "qsort_ok e" and "table_full w" and "length (s_m (w_s w)) = 25" and "poll_ok w"
  shows "\<exists>n ms. cull e w = Inr (n, upd_s (\<lambda>s. s\<lparr>s_m := ms\<rparr>) w) \<and>
    n = 3 * length (filter (\<lambda>p. fit e w (peer w p)) (w_peers w)) \<and> n \<le> 15 \<and>
    mset (take n ms) = mset (concat (map (\<lambda>p. [lower_edge w p (peer w p), mid_point p (peer w p),
        upper_edge w p (peer w p)]) (filter (\<lambda>p. fit e w (peer w p)) (w_peers w)))) \<and>
    sorted_wrt (\<lambda>a b. m_edge a \<le> m_edge b) (take n ms) \<and> drop n ms = drop n (s_m (w_s w))"
proof -
  note props = chime_list_props [OF assms(1,2,4)]
  have F: "fit_peers e w NMAX = filter (\<lambda>p. fit e w (peer w p)) (w_peers w)"
    using assms(2) by (simp add: fit_peers_def table_full_def)
  have "chimes w = (\<lambda>p. [lower_edge w p (peer w p), mid_point p (peer w p), upper_edge w p (peer w p)])"
    by (rule ext) (simp add: chimes_def)
  with cull_chime_list [OF assms] props length_chime_list [OF assms(1,2,4)] F show ?thesis
    by auto
qed

text \<open>The intersection. On a sorted chime list whose lower edges all come before the first
  midpoint, intersection() returns the greatest lower edge and the least upper edge: the common
  part of all correctness intervals.\<close>

theorem intersection_common_part:
  assumes "n \<le> length (s_m (w_s w))" and "n < 1000000"
    and "\<forall>i < n. m_type (s_m (w_s w) ! i) \<in> {- 1, 0, 1}"
    and "sorted_wrt (\<lambda>a b. m_edge a \<le> m_edge b) (take n (s_m (w_s w)))"
    and "0 < k" and "k < n" and "m_type (s_m (w_s w) ! k) = 0"
    and "\<forall>i < n. m_type (s_m (w_s w) ! i) = - 1 \<longleftrightarrow> i < k"
    and "j < n" and "m_type (s_m (w_s w) ! j) = 1"
  shows "\<exists>low high. intersection e (int n) w = Inr (low, high) \<and>
    (\<forall>i < n. m_type (s_m (w_s w) ! i) = - 1 \<longrightarrow> m_edge (s_m (w_s w) ! i) \<le> low) \<and>
    (\<exists>i < n. m_type (s_m (w_s w) ! i) = - 1 \<and> m_edge (s_m (w_s w) ! i) = low) \<and>
    (\<forall>i < n. m_type (s_m (w_s w) ! i) = 1 \<longrightarrow> high \<le> m_edge (s_m (w_s w) ! i)) \<and>
    (\<exists>i < n. m_type (s_m (w_s w) ! i) = 1 \<and> m_edge (s_m (w_s w) ! i) = high)"
proof -
  let ?m = "\<lambda>i. s_m (w_s w) ! i"
  have sorted: "m_edge (?m a) \<le> m_edge (?m b)" if "a < b" "b < n" for a b
    using sorted_wrt_nth_less [OF assms(4) that(1)] that assms(1) by simp
  have le: "m_edge (?m a) \<le> m_edge (?m b)" if "a \<le> b" "b < n" for a b
  proof (cases "a = b")
    case True
    have "m_edge (?m b) \<noteq> NaN"
      using sorted [of 0 b] sorted [of b "n - 1"] sorted [of 0 1] that assms(5,6)
      by (cases "b = 0"; cases "b = n - 1") auto
    with True show ?thesis by simp
  qed (use that sorted in simp)
  have pre: "m_type (?m i) \<noteq> 0" if "i < k" for i
  proof -
    have "i < n" using that assms(6) by simp
    with that assms(8) have "m_type (?m i) = - 1" by blast
    then show ?thesis by simp
  qed
  have "List.find (\<lambda>i. m_type (?m i) = 0) [0..<n] = Some k"
    using assms(6,7) pre by (auto simp: find_Some_iff intro!: exI [of _ k])
  moreover obtain h where h: "List.find (\<lambda>i. m_type (?m i) = 1) [0..<n] = Some h"
    using assms(9,10) by (cases "List.find (\<lambda>i. m_type (?m i) = 1) [0..<n]") (auto simp: find_None_iff)
  ultimately have run: "intersection e (int n) w = Inr (m_edge (?m (k - 1)), m_edge (?m h))"
    using intersection_find [OF assms(1,3,2), of e] assms(5) by (simp add: Let_def)
  have hn: "h < n" "m_type (?m h) = 1" "\<forall>i < h. m_type (?m i) \<noteq> 1"
    using h by (auto simp: find_Some_iff)
  have "m_edge (?m i) \<le> m_edge (?m (k - 1))" if "i < n" "m_type (?m i) = - 1" for i
    using that assms(5,6,8) by (intro le) auto
  moreover have "m_type (?m (k - 1)) = - 1" "k - 1 < n" using assms(5,6,8) by auto
  moreover have "m_edge (?m h) \<le> m_edge (?m i)" if "i < n" "m_type (?m i) = 1" for i
    using that hn by (intro le) (meson not_le)+
  ultimately show ?thesis using run hn by blast
qed

text \<open>C19: the number of allowed falsetickers and the number of midpoints have no effect on the
  intersection. Whatever value the unassigned variable found has, the result is that of one pass
  of the two scans; the loop over allow repeats the same pass.\<close>

theorem intersection_ignores_falsetickers:
  "intersection (e\<lparr>e_found := f\<rparr>) n w = intersection e n w \<and>
   (0 < n \<longrightarrow> intersection e n w =
      bind_r (scan_high (s_m (w_s w)) [0..<nat n] 0 0 (flt (- 2000000000))) (\<lambda>high.
      bind_r (scan_low (s_m (w_s w)) [0..<nat n] 0 0 (flt 2000000000)) (\<lambda>low. Inr (low, high))))"
proof (cases "0 < n")
  case True
  then show ?thesis by (simp add: intersection_def allow_loop_result)
next
  case False
  then show ?thesis by (simp add: intersection_def allow_loop.simps)
qed

text \<open>The sum of the cluster loop over at most fifteen entries whose offsets are below 2^31 is small
  enough for sqrt() to return.\<close>

lemma scaled_sum:
  assumes "\<bar>a\<bar> \<le> of_nat m * 2 ^ 64" and "\<bar>b\<bar> \<le> 2 ^ 64" and "m < 100"
  shows "\<exists>r. Fin a + Fin b = Fin r \<and> \<bar>r\<bar> \<le> of_nat (Suc m) * 2 ^ 64"
proof -
  let ?u = "of_int (int (Suc m)) * 2 powi 64 :: real"
  have "repr ?u" using assms(3) by (intro repr_scaled) simp_all
  then have u: "rnd ?u = ?u" by (simp only: repr_def)
  have eq: "?u = of_nat (Suc m) * 2 ^ 64" by (simp add: power_int_def)
  have "\<bar>a + b\<bar> \<le> ?u" unfolding eq using assms(1,2) by (simp add: algebra_simps)
  then have le: "\<bar>rnd (a + b)\<bar> \<le> ?u" by (rule b64.R_abs_upper [OF u])
  have "?u \<le> 100 * 2 ^ 64" unfolding eq using assms(3) by simp
  also have "\<dots> \<le> (2 :: real) ^ 100" by simp
  finally have "\<bar>rnd (a + b)\<bar> < ovf" using le by (intro small_lt_ovf) simp
  then have "flt (a + b) = Fin (rnd (a + b))" by (auto simp: flt_def Let_def)
  then show ?thesis using le unfolding eq by simp
qed

lemma pair_sum_returns:
  assumes "n \<le> 15" and "n \<le> length (s_v (w_s w))" and "bd 31 x"
    and "\<forall>j < n. \<exists>q. load e w (v_p (s_v (w_s w) ! j)) = Inr q \<and> bd 31 (p_offset q)"
  shows "\<exists>r. pair_sum e w n x = Inr (Fin r) \<and> \<bar>r\<bar> \<le> of_nat n * 2 ^ 64 \<and> repr r"
  using assms
proof (induction n)
  case 0
  then show ?case using repr_int [of 0] by (simp add: pair_sum_def)
next
  case (Suc n)
  then obtain r where r: "pair_sum e w n x = Inr (Fin r)" "\<bar>r\<bar> \<le> of_nat n * 2 ^ 64" by auto
  obtain q where q: "load e w (v_p (s_v (w_s w) ! n)) = Inr q" "bd 31 (p_offset q)" using Suc.prems(4) by auto
  have "bd 62 (p_offset q * x)" using bd_mult [OF q(2) Suc.prems(3)] by simp
  then have "bd 63 (x - p_offset q * x)" using bd_diff [of 62 x] bd_mono [OF Suc.prems(3), of 62] by simp
  then have "bd 64 (x - p_offset q * x - p_offset q)"
    using bd_diff [of 63 "x - p_offset q * x"] bd_mono [OF q(2), of 63] by simp
  then obtain b where b: "x - p_offset q * x - p_offset q = Fin b" "\<bar>b\<bar> \<le> 2 ^ 64" by (auto simp: bd_def)
  obtain s where s: "Fin r + Fin b = Fin s" "\<bar>s\<bar> \<le> of_nat (Suc n) * 2 ^ 64"
    using scaled_sum [OF r(2) b(2)] Suc.prems(1) by auto
  have "wfd (Fin r + Fin b)" by simp
  then have "repr s" unfolding s(1) by simp
  moreover have "pair_sum e w (Suc n) x = Inr (Fin s)"
    using r(1) q(1) b(1) s(1) Suc.prems(2) by (simp add: pair_sum_def foldr_r_append del: dbl_fin_ops)
  ultimately show ?case using s(2) by blast
qed

lemma cluster_stats_returns:
  assumes "n \<le> 15" and "n \<le> length (s_v (w_s w))" and "nat (s_n (w_s w)) \<le> length (s_v (w_s w))"
    and "\<forall>v \<in> set (s_v (w_s w)). \<exists>q. load e w (v_p v) = Inr q \<and> bd 31 (p_offset q)"
  shows "\<exists>mm. cluster_stats e w n = Inr mm"
  unfolding cluster_stats_def
proof (rule foldr_r_returns)
  fix i mm assume "i \<in> set [0..<nat (s_n (w_s w))]"
  then have i: "i < length (s_v (w_s w))" using assms(3) by simp
  then obtain q where q: "load e w (v_p (s_v (w_s w) ! i)) = Inr q" "bd 31 (p_offset q)" using assms(4) by force
  have "\<forall>j < n. \<exists>q. load e w (v_p (s_v (w_s w) ! j)) = Inr q \<and> bd 31 (p_offset q)" using assms(2,4) by force
  from pair_sum_returns [OF assms(1,2) q(2) this] obtain r
    where r: "pair_sum e w n (p_offset q) = Inr (Fin r)" "\<bar>r\<bar> \<le> of_nat n * 2 ^ 64" "repr r" by blast
  have "\<bar>r\<bar> \<le> 15 * 2 ^ 64" by (rule order_trans [OF r(2)]) (use assms(1) in simp)
  then have b: "bd 68 (Fin r)" and w: "wfd (Fin r)" using r(3) by (simp_all add: small_lt_ovf)
  from b w obtain x where "c_sqrt (Fin r) = Inr x" by (rule sqrt_returns) simp_all
  then show "\<exists>s'. cluster_step e w n i mm = Inr s'"
    using i q(1) r(1) by (cases mm) (simp add: cluster_step_def Let_def)
qed

lemma load_system [simp]: "load e (upd_s f w) p = load e w p"
  by (cases p) simp_all

lemma cluster_loop_returns:
  assumes "n \<le> 15" and "int k \<le> 2147483647" and "nat (s_n (w_s w)) \<le> k" and "n \<le> length (s_v (w_s w))"
    and "nat (s_n (w_s w)) \<le> length (s_v (w_s w))"
    and "\<forall>v \<in> set (s_v (w_s w)). \<exists>q. load e w (v_p v) = Inr q \<and> bd 31 (p_offset q)"
  shows "\<exists>j \<le> s_n (w_s w). cluster_loop e n w = Some (Inr (upd_s (\<lambda>s. s\<lparr>s_n := j\<rparr>) w)) \<and>
    (if int n \<le> NMIN then j = s_n (w_s w)
     else \<exists>mx mn. cluster_stats e (upd_s (\<lambda>s. s\<lparr>s_n := j\<rparr>) w) n = Inr (mx, mn) \<and> mx < mn)"
  using assms
proof (induction k arbitrary: w)
  case (0 w)
  have st: "cluster_stats e w n = Inr (flt (- 2000000000), flt 2000000000)"
    using "0.prems"(3) by (simp add: cluster_stats_def)
  have "flt (- 2000000000) < flt 2000000000" using flt_minus [of 2000000000] by simp
  with st show ?case by (subst cluster_loop.simps) (auto intro!: exI [of _ "s_n (w_s w)"])
next
  case (Suc k w)
  obtain mx mn where st: "cluster_stats e w n = Inr (mx, mn)"
    using cluster_stats_returns [OF Suc.prems(1,4,5,6)] by auto
  show ?case
  proof (cases "mx < mn \<or> int n \<le> NMIN")
    case True
    then show ?thesis using st by (subst cluster_loop.simps) (auto intro!: exI [of _ "s_n (w_s w)"])
  next
    case False
    let ?v = "upd_s (\<lambda>s. s\<lparr>s_n := i32 (s_n s - 1)\<rparr>) w"
    have "\<not> s_n (w_s w) \<le> 0"
    proof
      assume "s_n (w_s w) \<le> 0"
      then have "cluster_stats e w n = Inr (flt (- 2000000000), flt 2000000000)" by (simp add: cluster_stats_def)
      moreover have "flt (- 2000000000) < flt 2000000000" using flt_minus [of 2000000000] by simp
      ultimately show False using st False by auto
    qed
    then have dec: "i32 (s_n (w_s w) - 1) = s_n (w_s w) - 1" using Suc.prems by (intro i32_id) simp_all
    have "\<exists>j \<le> s_n (w_s ?v). cluster_loop e n ?v = Some (Inr (upd_s (\<lambda>s. s\<lparr>s_n := j\<rparr>) ?v)) \<and>
      (if int n \<le> NMIN then j = s_n (w_s ?v)
       else \<exists>mx mn. cluster_stats e (upd_s (\<lambda>s. s\<lparr>s_n := j\<rparr>) ?v) n = Inr (mx, mn) \<and> mx < mn)"
      by (rule Suc.IH) (use Suc.prems dec in auto)
    moreover have "cluster_loop e n w = cluster_loop e n ?v"
      using st False by (subst cluster_loop.simps) simp
    ultimately show ?thesis using False dec by fastforce
  qed
qed

text \<open>C20: the cluster loop ends. With at most fifteen chime entries (five associations) and
  associations behind the survivor list whose offsets are at most 2^31 s in size (for a null entry
  the offset is what the memory at address 0 holds), every sqrt() of the loop returns, each turn
  that does not stop discards one survivor, and with none left the maximum is below the minimum: the
  loop returns, with the number of survivors, and nothing else, changed. It ends at once when n, the
  number of chime entries, is at most NMIN, and else where the largest selection jitter is below the
  smallest peer jitter.\<close>

theorem cluster_loop_terminates:
  assumes "n \<le> 15" and "n \<le> length (s_v (w_s w))" and "nat (s_n (w_s w)) \<le> length (s_v (w_s w))"
    and "s_n (w_s w) \<le> 2147483647"
    and "\<forall>v \<in> set (s_v (w_s w)). \<exists>q. load e w (v_p v) = Inr q \<and> bd 31 (p_offset q)"
  shows "\<exists>j \<le> s_n (w_s w). cluster_loop e n w = Some (Inr (upd_s (\<lambda>s. s\<lparr>s_n := j\<rparr>) w)) \<and>
    (if int n \<le> NMIN then j = s_n (w_s w)
     else \<exists>mx mn. cluster_stats e (upd_s (\<lambda>s. s\<lparr>s_n := j\<rparr>) w) n = Inr (mx, mn) \<and> mx < mn)"
proof -
  have "nat (s_n (w_s w)) \<le> nat 2147483647" using assms(4) by (rule nat_mono)
  then show ?thesis using assms by (intro cluster_loop_returns [of n "nat 2147483647"]) simp_all
qed

text \<open>C7: clock_select() is safe. On a full table of sane associations and a sound system structure,
  with a qsort() that sorts by the total preorders it is given, its run can only return, exit on a
  panic, or hang in sqrt(): it never uses a freed association, stores through the null pointer or
  reaches an entry outside the association table, the chime list or the survivor list. (A load
  through the null pointer, which the target permits and the code does for a null old system peer
  and for unused survivor entries, reads what is at address 0 and is no fault.) When it returns,
  the heap, the table and the soundness of the system structure are kept, and the system peer is
  null, the old one, or an association of the table.\<close>

theorem clock_select_safe:
  assumes "qsort_ok e" and "table_full w" and "sys_ok w"
  shows "no_fault (clock_select e w) \<and>
    (\<forall>w'. clock_select e w = Inr w' \<longrightarrow> keeps w w' \<and> sys_ok w' \<and>
      (s_p (w_s w') = NULL \<or> s_p (w_s w') = s_p (w_s w) \<or> s_p (w_s w') \<in> set (w_peers w)))"
  using clock_select_run [OF assms] by blast

text \<open>with no fit association clock_select() gives up the system peer and touches neither the
  clock nor the other system variables.\<close>

theorem clock_select_no_truechimers:
  assumes "qsort_ok e" and "table_full w" and "sys_ok w"
    and "\<forall>p \<in> set (w_peers w). \<not> fit e w (peer w p)"
  shows "clock_select e w = Inr (upd_s (\<lambda>s. s\<lparr>s_p := NULL, s_n := 0\<rparr>) w)"
proof -
  have F: "fit_peers e w NMAX = []"
    using assms(4) by (auto simp: fit_peers_def filter_empty_conv dest: in_set_takeD)
  have poll: "poll_ok w" using assms(3) by (simp add: sys_ok_def)
  have C: "chime_list e w = []"
    using chime_list_props(3) [OF assms(1,2) poll] F by simp
  obtain v low high S where "cull e (upd_s (\<lambda>s. s\<lparr>s_p := NULL\<rparr>) w) = Inr (length (chime_list e w), v)"
    "intersection e (int (length (chime_list e w))) v = Inr (low, high)"
    "S = filter (in_interval low high) (chime_list e w)"
    "survivors e (length (chime_list e w)) low high v =
      Inr (upd_s (\<lambda>s. s\<lparr>s_p := NULL, s_m := chime_list e w @ drop (length (chime_list e w)) (s_m s),
             s_v := map (survivor w) S @ drop (length S) (s_v s), s_n := int (length S)\<rparr>) w)"
    by (rule select_prefix [OF assms(1-3)])
  then show ?thesis by (simp add: clock_select_def Let_def C)
qed

section \<open>The update of the system variables\<close>

lemma MINDISP_le_1: "MINDISP \<le> Fin 1"
  using flt_mono [of "1 / 100" 1] by (simp add: ntp_consts)

lemma SQUARE_bd30: "bd 30 x \<Longrightarrow> bd 60 (SQUARE x)"
  using bd_SQUARE [of 30 x] by simp

lemma sqrt_sum_returns:
  assumes "bd 30 x" and "bd 30 y"
  obtains r where "c_sqrt (SQUARE x + SQUARE y) = Inr r" and "r = NaN \<or> 0 \<le> r" and "r \<noteq> NaN"
proof -
  have b: "bd 61 (SQUARE x + SQUARE y)"
    using bd_add [OF SQUARE_bd30 [OF assms(1)] SQUARE_bd30 [OF assms(2)]] by simp
  then obtain n where n: "SQUARE x + SQUARE y = Fin n" "\<bar>n\<bar> \<le> 2 ^ 61" by (auto simp: bd_def)
  have "wfd (SQUARE x + SQUARE y)" by simp
  then have rep: "repr n" by (simp add: n(1))
  have "0 \<le> n"
  proof -
    obtain a b where ab: "x = Fin a" "y = Fin b" using assms by (auto simp: bd_def)
    have "0 \<le> SQUARE x + SQUARE y"
      unfolding SQUARE_def ab by (intro dadd_nonneg) (simp_all add: flt_nonneg)
    then show ?thesis by (simp add: n(1) zero_dbl_def)
  qed
  moreover have "n \<le> 2 ^ 68"
    using n(2) power_increasing [of 61 68 "2::real"] by linarith
  ultimately obtain r where "c_sqrt (Fin n) = Inr (Fin r)" "0 \<le> r"
    using c_sqrt_returns [OF rep] by blast
  then show thesis using that [of "Fin r"] by (simp add: n(1) zero_dbl_def)
qed

text \<open>C23: the system variables after a slew. With jitters of ordinary size (at most 2^30 s) and a
  peer dispersion that is a number, the branch returns, takes leap, stratum (plus one), reference
  id and time from the peer, adds the peer's delay to its root delay, and sets a root dispersion of
  at least the peer's root dispersion and at least the minimum dispersion MINDISP, which stops two
  servers from following each other. The clock and the associations do not change.\<close>

theorem system_slew_effect:
  assumes "valid w p" and "bd 30 (p_jitter (peer w p))" and "bd 30 (s_jitter (w_s w))"
    and "wfd (p_rootdisp (peer w p))" and "0 \<le> p_rootdisp (peer w p)"
    and "p_disp (peer w p) + PHI * LFP2D (dbl_of_int (subtract_uint64_t (c_t (w_c w)) (p_t (peer w p)))) +
           fabs (p_offset (peer w p)) \<noteq> NaN"
  shows "\<exists>w'. system_slew e p w = Inr w' \<and>
    (let q = peer w p; s = w_s w' in
       s_leap s = p_leap q \<and> s_stratum s = p_stratum q + 1 \<and> s_refid s = p_refid q \<and>
       s_reftime s = p_reftime q \<and> s_rootdelay s = p_rootdelay q + p_delay q \<and>
       p_rootdisp q \<le> s_rootdisp s \<and> MINDISP \<le> s_rootdisp s) \<and> w_c w' = w_c w \<and> w_heap w' = w_heap w"
proof -
  let ?q = "peer w p"
  obtain r where r: "c_sqrt (SQUARE (p_jitter ?q) + SQUARE (s_jitter (w_s w))) = Inr r" "0 \<le> r"
    using sqrt_sum_returns [OF assms(2,3)] by metis
  let ?x = "cmax (p_disp ?q + PHI * LFP2D (dbl_of_int (subtract_uint64_t (c_t (w_c w)) (p_t ?q))) +
      fabs (p_offset ?q)) MINDISP"
  obtain m where M: "MINDISP = Fin m" using ge_bound [OF MINDISP_pos MINDISP_le_1] by blast
  have "wfd (Fin m)" unfolding M [symmetric] MINDISP_def by (rule wfd_flt)
  note m = M this
  have x: "Fin m \<le> ?x" using cmax_ge_right [of MINDISP] assms(6) by (simp add: m(1))
  have "0 \<le> MINDISP" by (simp add: ntp_consts flt_nonneg)
  then have x0: "0 \<le> ?x" using x dbl_le_trans by (simp add: m(1))
  have rx: "0 \<le> r + ?x" using r(2) x0 by (rule dadd_nonneg)
  have comm: "r + ?x = ?x + r" using r(2) x0 by (elim dbl_nonneg_cases) (auto simp: plus_dbl_def add.commute)
  have rx1: "Fin m \<le> r + ?x" unfolding comm using m(2) x r(2) by (rule dadd_ge)
  let ?d = "p_rootdisp ?q + (r + ?x)"
  have "p_rootdisp ?q \<le> ?d"
    using assms(5)
  proof (cases rule: dbl_nonneg_cases)
    case (1 a)
    then show ?thesis using dadd_ge [of a "Fin a" "r + ?x"] assms(4) rx by auto
  next
    case 2
    then show ?thesis using rx by (elim dbl_nonneg_cases) (auto simp: plus_dbl_def less_eq_dbl_def)
  qed
  moreover have "?d = (r + ?x) + p_rootdisp ?q"
    using rx assms(5) by (elim dbl_nonneg_cases) (auto simp: plus_dbl_def add.commute)
  then have "MINDISP \<le> ?d" using dadd_ge [OF m(2) rx1 assms(5)] by (simp add: m(1))
  ultimately show ?thesis
    using assms(1) r(1) by (simp add: system_slew_def Let_def)
qed

text \<open>clock_update() on every branch. An update older than the last one changes nothing. Else
  the update time becomes the peer's, the survivors are combined, and the verdict of local_clock()
  decides: a panic ends the program with exit code 0, a step makes the system unsynchronised
  (stratum 16, poll exponent 6), an ignored sample leaves it as it is.\<close>

theorem clock_update_branches:
  assumes "valid w p"
  shows "(p_t (peer w p) < s_t (w_s w) \<longrightarrow> clock_update e p w = Inr w) \<and>
    (\<not> p_t (peer w p) < s_t (w_s w) \<longrightarrow>
      (\<forall>u r v. clock_combine e (upd_s (\<lambda>s. s\<lparr>s_t := p_t (peer w p)\<rparr>) w) = Inr u \<longrightarrow>
         local_clock e p (s_offset (w_s u)) u = Inr (r, v) \<longrightarrow>
         s_t (w_s u) = p_t (peer w p) \<and>
         (r = PANIC \<longrightarrow> clock_update e p w = Inl (Exit 0)) \<and>
         (r = STEP \<longrightarrow> (\<exists>w'. clock_update e p w = Inr w' \<and> s_stratum (w_s w') = 16 \<and> s_poll (w_s w') = 6)) \<and>
         (r = SLEW \<longrightarrow> clock_update e p w = system_slew e p v) \<and>
         (r = IGNORE \<longrightarrow> clock_update e p w = Inr v)))"
  using assms by (auto simp: clock_update_def dest!: clock_combine_run)

text \<open>C22: the clock state FREQ is a trap. clock_update() sets the update time to the peer's before it
  calls local_clock(), so the interval mu is always zero: until the stepout threshold has passed
  since the peer's sample, no update leaves the state FREQ or changes the frequency, the clock
  offset or the local time; the frequency measurement never ends.\<close>

theorem freq_state_trap:
  assumes "valid w p" and "c_state (w_c w) = FREQ" and "c_t (w_c w) - p_t (peer w p) < 900"
    and "\<not> p_t (peer w p) < s_t (w_s w)" and "clock_update e p w = Inr w'"
  shows "c_state (w_c w') = FREQ \<and> c_freq (w_c w') = c_freq (w_c w) \<and>
    c_offset (w_c w') = c_offset (w_c w) \<and> c_localTime (w_c w') = c_localTime (w_c w)"
proof -
  obtain u r v where u: "clock_combine e (upd_s (\<lambda>s. s\<lparr>s_t := p_t (peer w p)\<rparr>) w) = Inr u"
    and v: "local_clock e p (s_offset (w_s u)) u = Inr (r, v)" and rest: "clock_verdict e p (r, v) = Inr w'"
    using assms(1,4,5) by (auto simp: clock_update_def outcome_simps)
  from u obtain a b where u': "u = upd_s (\<lambda>s. s\<lparr>s_t := p_t (peer w p), s_offset := a, s_jitter := b\<rparr>) w"
    by (auto dest!: clock_combine_run)
  have f: "(r = IGNORE \<or> r = PANIC) \<and> c_state (w_c v) = FREQ \<and> c_freq (w_c v) = c_freq (w_c u) \<and>
    c_offset (w_c v) = c_offset (w_c u) \<and> c_localTime (w_c v) = c_localTime (w_c u) \<and>
    s_t (w_s v) = s_t (w_s u)"
    using assms(1-3) by (intro freq_state_ignores [OF _ _ _ _ v]) (simp_all add: u')
  then have "w' = v" using rest by (cases r) auto
  with f show ?thesis by (simp add: u')
qed

section \<open>Witnesses\<close>

text \<open>A world with a table of five equal associations and a sound system structure.\<close>

definition demo_world :: "ntp_p \<Rightarrow> world" where
  "demo_world q = boot_world\<lparr>w_heap := (\<lambda>a. if a < 5 then Some q else None), w_brk := 5,
     w_peers := [Addr 0, Addr 1, Addr 2, Addr 3, Addr 4], w_size := 5,
     w_s := zero_s\<lparr>s_poll := 6, s_precision := word_of_int PRECISION\<rparr>\<rparr>"

lemma demo_world_simps [simp]:
  "w_peers (demo_world q) = [Addr 0, Addr 1, Addr 2, Addr 3, Addr 4]" "w_size (demo_world q) = 5"
  "w_c (demo_world q) = zero_c" "w_s (demo_world q) = zero_s\<lparr>s_poll := 6, s_precision := word_of_int PRECISION\<rparr>"
  "a < 5 \<Longrightarrow> w_heap (demo_world q) a = Some q" "a < 5 \<Longrightarrow> peer (demo_world q) (Addr a) = q"
  by (simp_all add: demo_world_def boot_world_def peer_def)

lemma demo_poll_ok [simp]: "poll_ok (demo_world q)"
  by (simp add: poll_ok_def zero_s_def zero_c_def)

lemma demo_sys_ok [simp]: "sys_ok (demo_world q)"
  by (simp add: sys_ok_def zero_s_def zero_v_def ptr_ok_def)

lemma demo_table_full: "peer_sane (demo_world q) q \<Longrightarrow> table_full (demo_world q)"
  by (simp add: table_full_def table_ok_def)

lemma zero_peer_sane [simp]: "peer_sane (demo_world q) (zero_p\<lparr>p_stratum := st, p_reach := n\<rparr>)"
  by (simp add: peer_sane_def zero_p_def zero_dbl_def zero_c_def repr_def)

text \<open>An association of a stratum-1 server that was reached: it is fit.\<close>

definition good_peer :: ntp_p where
  "good_peer = zero_p\<lparr>p_stratum := 1, p_reach := 1\<rparr>"

lemma good_sane [simp]: "peer_sane (demo_world q) good_peer"
  by (simp add: good_peer_def)

lemma dadd_zero: "wfd x \<Longrightarrow> x + Fin 0 = x"
  by (cases x) (auto simp: plus_dbl_def repr_def intro!: flt_Fin)

lemma PHI_elapsed_zero: "PHI * LFP2D (dbl_of_int 0) = Fin 0"
proof -
  obtain f where f: "PHI = Fin f" using PHI_fin by blast
  show ?thesis unfolding f by (simp add: LFP2D_def dbl_of_int_exact)
qed

lemma good_root_dist: "root_dist (demo_world good_peer) good_peer \<le> Fin 1"
proof -
  have s: "subtract_uint64_t 0 0 = 0" by (simp add: subtract_uint64_t_eq)
  have z: "PHI * LFP2D (dbl_of_int 0) = Fin 0" by (rule PHI_elapsed_zero)
  obtain m where m: "MINDISP = Fin m" "1 / 128 \<le> m" "m \<le> 1"
    using ge_bound [OF MINDISP_pos MINDISP_le_1] by blast
  have "flt (m / 2) \<le> flt 1" using m by (intro flt_mono) simp
  then have "cmax MINDISP (Fin 0 + Fin 0) / flt 2 \<le> Fin 1"
    unfolding m(1) using m(2) by (simp add: cmax_def)
  moreover have "root_dist (demo_world good_peer) good_peer = cmax MINDISP (Fin 0 + Fin 0) / flt 2"
    using z by (simp add: root_dist_def good_peer_def zero_p_def zero_c_def s dadd_zero)
  ultimately show ?thesis by simp
qed

lemma good_fit: "fit demo_env (demo_world good_peer) good_peer"
proof -
  let ?T = "dbl_of_int MAXDIST + PHI * LOG2D (e_shl demo_env) (uint (s_poll (w_s (demo_world good_peer))))"
  obtain f where f: "PHI = Fin f" "0 \<le> f" using PHI_fin by blast
  have L: "LOG2D (e_shl demo_env) (uint (s_poll (w_s (demo_world good_peer)))) = Fin 64"
    using LOG2D_poll_range [of 6] by (simp add: zero_s_def)
  have "0 \<le> PHI * LOG2D (e_shl demo_env) (uint (s_poll (w_s (demo_world good_peer))))"
    unfolding f(1) L using f(2) by (intro dmul_nonneg_fin) simp_all
  then have "Fin 5 \<le> ?T"
    using repr_int [of 5] small_lt_ovf [of 5] by (intro dadd_ge) (simp_all add: dbl_of_int_exact)
  moreover have "root_dist (demo_world good_peer) good_peer < Fin 5"
    using good_root_dist dbl_le_less_trans [of _ "Fin 1" "Fin 5"] by simp
  ultimately have "\<not> ?T < root_dist (demo_world good_peer) good_peer"
    using dbl_less_le_trans dbl_less_not_sym by blast
  moreover have "p_leap good_peer = 0" "p_stratum good_peer = 1" "p_reach good_peer = 1"
    by (simp_all add: good_peer_def zero_p_def)
  ultimately show ?thesis by (simp add: fit_def word_le_nat_alt)
qed

theorem fit_distance_bounds_witness:
  "fit demo_env (demo_world good_peer) good_peer \<and> root_dist (demo_world good_peer) good_peer \<le> Fin 8"
  using fit_distance_bounds [OF good_fit] good_fit by simp

theorem cull_sorts_truechimers_witness:
  "\<exists>n w'. cull demo_env (demo_world good_peer) = Inr (n, w') \<and> n = 15"
  using cull_sorts_truechimers [OF demo_qsort_ok demo_table_full, of good_peer] good_fit
  by (auto simp: zero_s_def)

text \<open>A chime list of one association: lower edge, midpoint, upper edge.\<close>

definition demo_chimes :: world where
  "demo_chimes = upd_s (\<lambda>s. s\<lparr>s_m := [\<lparr>m_p = NULL, m_type = - 1, m_edge = Fin 1\<rparr>,
     \<lparr>m_p = NULL, m_type = 0, m_edge = Fin 2\<rparr>, \<lparr>m_p = NULL, m_type = 1, m_edge = Fin 3\<rparr>]\<rparr>) boot_world"

lemma less_3: "i < 3 \<longleftrightarrow> i = 0 \<or> i = 1 \<or> i = (2 :: nat)"
  by auto

theorem intersection_common_part_witness:
  "\<exists>low high. intersection demo_env 3 demo_chimes = Inr (low, high)"
proof -
  have m: "s_m (w_s demo_chimes) = [\<lparr>m_p = NULL, m_type = - 1, m_edge = Fin 1\<rparr>,
     \<lparr>m_p = NULL, m_type = 0, m_edge = Fin 2\<rparr>, \<lparr>m_p = NULL, m_type = 1, m_edge = Fin 3\<rparr>]"
    by (simp add: demo_chimes_def)
  show ?thesis
    using intersection_common_part [of 3 demo_chimes 1 2 demo_env]
    by (auto simp: m less_3 all_conj_distrib)
qed

theorem intersection_ignores_falsetickers_witness:
  "intersection (demo_env\<lparr>e_found := (\<lambda>w. 7)\<rparr>) 3 demo_chimes = intersection demo_env 3 demo_chimes"
  using intersection_ignores_falsetickers [where e = demo_env and f = "\<lambda>w. 7" and n = 3 and w = demo_chimes] by simp

theorem cluster_loop_terminates_witness:
  "\<exists>j \<le> 0. cluster_loop demo_env 15 boot_world = Some (Inr (upd_s (\<lambda>s. s\<lparr>s_n := j\<rparr>) boot_world))"
  using cluster_loop_terminates [of 15 boot_world demo_env]
  by (auto simp: boot_world_def zero_s_def zero_v_def demo_env_def zero_p_def)

theorem clock_select_safe_witness: "no_fault (clock_select demo_env (demo_world good_peer))"
  using clock_select_safe [OF demo_qsort_ok demo_table_full [OF good_sane] demo_sys_ok] by simp

lemma zero_not_fit: "\<not> fit e w zero_p"
  by (simp add: fit_def zero_p_def)

lemma zero_sane: "peer_sane (demo_world q) zero_p"
  by (simp add: peer_sane_def zero_p_def zero_dbl_def zero_c_def repr_def)

theorem clock_select_no_truechimers_witness:
  "\<exists>w'. clock_select demo_env (demo_world zero_p) = Inr w' \<and> s_p (w_s w') = NULL"
  using clock_select_no_truechimers [OF demo_qsort_ok demo_table_full [OF zero_sane] demo_sys_ok] zero_not_fit
  by simp

theorem system_slew_effect_witness:
  "\<exists>w'. system_slew demo_env (Addr 0) (demo_world good_peer) = Inr w' \<and> MINDISP \<le> s_rootdisp (w_s w')"
proof -
  have s: "subtract_uint64_t 0 0 = 0" by (simp add: subtract_uint64_t_eq)
  have z: "PHI * LFP2D (dbl_of_int 0) = Fin 0" by (rule PHI_elapsed_zero)
  show ?thesis
    using system_slew_effect [of "demo_world good_peer" "Addr 0" demo_env]
    by (auto simp: good_peer_def zero_p_def zero_s_def zero_c_def zero_dbl_def repr_def s z Let_def)
qed

theorem clock_update_branches_witness:
  "clock_update demo_env (Addr 0) (upd_s (\<lambda>s. s\<lparr>s_t := 1\<rparr>) (demo_world good_peer)) =
     Inr (upd_s (\<lambda>s. s\<lparr>s_t := 1\<rparr>) (demo_world good_peer))"
  using clock_update_branches [of "upd_s (\<lambda>s. s\<lparr>s_t := 1\<rparr>) (demo_world good_peer)" "Addr 0" demo_env]
  by (simp add: good_peer_def zero_p_def)

text \<open>The state FREQ with no survivors: the combined offset is not a number.\<close>

definition freq_world :: world where
  "freq_world = upd_c (\<lambda>c. c\<lparr>c_state := FREQ\<rparr>) (demo_world good_peer)"

lemma no_survivors_combine:
  assumes "v_p (s_v (w_s w) ! 0) = NULL" and "s_v (w_s w) \<noteq> []"
  shows "clock_combine e w = Inr (upd_s (\<lambda>s. s\<lparr>s_offset := NaN, s_jitter := NaN\<rparr>) w)"
proof -
  obtain v vs where "s_v (w_s w) = v # vs" "v_p v = NULL"
    using assms by (cases "s_v (w_s w)") auto
  moreover have "Fin 0 / Fin 0 = NaN" by (simp add: divide_dbl_def inf_sgn_def)
  ultimately show ?thesis by (simp add: clock_combine_def c_sqrt_NaN)
qed

lemma NaN_inlier_jitter:
  "inlier_jitter e NaN w = Inr (upd_c (\<lambda>c. c\<lparr>c_jitter := NaN\<rparr>) w)"
proof -
  have a: "NaN - x = NaN" for x :: dbl by (cases x) (simp_all add: minus_dbl_def)
  have b: "x + NaN = NaN" "x * NaN = NaN" "NaN / x = NaN" for x :: dbl
    by (cases x; simp add: plus_dbl_def times_dbl_def divide_dbl_def)+
  show ?thesis by (simp add: inlier_jitter_def a b SQUARE_def cmax_def c_sqrt_NaN Let_def)
qed

lemma freq_world_run: "\<exists>w'. clock_update demo_env (Addr 0) freq_world = Inr w'"
proof -
  let ?w = "upd_s (\<lambda>s. s\<lparr>s_t := 0\<rparr>) freq_world"
  have v: "v_p (s_v (w_s ?w) ! 0) = NULL" "s_v (w_s ?w) \<noteq> []"
    by (simp_all add: freq_world_def zero_s_def zero_v_def)
  have q: "w_heap freq_world 0 = Some good_peer" "p_t good_peer = 0" "s_t (w_s freq_world) = 0"
    by (simp_all add: freq_world_def good_peer_def zero_p_def zero_s_def)
  let ?u = "upd_s (\<lambda>s. s\<lparr>s_offset := NaN, s_jitter := NaN\<rparr>) ?w"
  have "inlier demo_env good_peer NaN mu ?u = Inr (Return IGNORE, upd_c (\<lambda>c. c\<lparr>c_jitter := NaN\<rparr>) ?u)" for mu
    unfolding inlier_def NaN_inlier_jitter by (simp add: freq_world_def zero_c_def)
  then have "local_clock demo_env (Addr 0) NaN ?u = Inr (IGNORE, upd_c (\<lambda>c. c\<lparr>c_jitter := NaN\<rparr>) ?u)"
    using q by (simp add: local_clock_def Let_def)
  then show ?thesis
    using no_survivors_combine [OF v, of demo_env] q by (simp add: clock_update_def)
qed

theorem freq_state_trap_witness:
  "\<exists>w'. clock_update demo_env (Addr 0) freq_world = Inr w' \<and> c_state (w_c w') = FREQ"
proof -
  obtain w' where w': "clock_update demo_env (Addr 0) freq_world = Inr w'"
    using freq_world_run by blast
  have "c_state (w_c w') = FREQ"
    using freq_state_trap [OF _ _ _ _ w']
    by (simp add: freq_world_def good_peer_def zero_p_def zero_s_def zero_c_def)
  with w' show ?thesis by blast
qed

end
