(* ===== verification/Peer.thy ===== *)
theory Peer
  imports Select_Props
begin

text \<open>
  The peer process of src/src/NTP_peer.c: the dispatch table, packet(), clock_filter(),
  fast_xmit(), access() and receive(), with poll_update() of src/src/NTP_poll.c, which packet()
  calls. receive() is split at its two stages: the dispatch on the modes, which ends the call or
  goes on with an association, and the timestamp checks, which end in packet().
\<close>

section \<open>The dispatch table\<close>

definition dispatch_table :: "dispatch list list" where
  "dispatch_table =
     [[NEWPS, DSCRD, FXMIT, MANY, NEWBC],
      [PROC, PROC, DSCRD, DSCRD, DSCRD],
      [PROC, ERR, DSCRD, DSCRD, DSCRD],
      [DSCRD, DSCRD, DSCRD, PROC, DSCRD],
      [DSCRD, DSCRD, DSCRD, DSCRD, DSCRD],
      [DSCRD, DSCRD, DSCRD, DSCRD, DSCRD],
      [DSCRD, DSCRD, DSCRD, DSCRD, PROC]]"

text \<open>table[(unsigned int)(p->hmode)][(unsigned int)(r->mode) - 1]; the subtraction wraps.\<close>

definition dispatch_code :: "u8 \<Rightarrow> u8 \<Rightarrow> dispatch outcome" where
  "dispatch_code hmode mode =
     bind_r (idx Dispatch_Table dispatch_table (unat hmode)) (\<lambda>row. idx Dispatch_Table row (unat (ucast mode - 1 :: u32)))"

text \<open>AUTH(x, y)\<close>

definition AUTH :: "bool \<Rightarrow> auth_code \<Rightarrow> bool" where
  "AUTH x y = (if x then y = A_OK else y = A_OK \<or> y = A_NONE)"

section \<open>poll_update()\<close>

text \<open>The comparison of an int with the 64-bit process time converts the int.\<close>

definition int_to_u64 :: "int \<Rightarrow> tstamp" where
  "int_to_u64 n = word_of_int n"

text \<open>The spreading of the poll times, with the static variable last_nextdate.\<close>

definition spread_nextdate :: "env \<Rightarrow> int \<Rightarrow> world \<Rightarrow> int \<times> world" where
  "spread_nextdate e nextdate w =
     (if nextdate \<le> i32 (nextdate + 5) \<and> w_last_nextdate w \<le> dbl_of_int (5 * int NMAX)
      then (dbl_to_i32 (e_d2i32 e) (dbl_of_int nextdate + w_last_nextdate w),
            w\<lparr>w_last_nextdate := w_last_nextdate w + dbl_of_int 5\<rparr>)
      else (nextdate, w))"

definition poll_update :: "env \<Rightarrow> ptr \<Rightarrow> int \<Rightarrow> world \<Rightarrow> world outcome" where
  "poll_update e p poll w =
     bind_r (modify e p (\<lambda>q. q\<lparr>p_hpoll := word_of_int (cmax (cmin MAXPOLL poll) MINPOLL)\<rparr>) w) (\<lambda>w.
     bind_r (load e w p) (\<lambda>q.
       if 0 < p_burst q \<and> int_to_u64 (p_nextdate q) \<noteq> c_t (w_c w) then Inr w
       else let nextdate =
                  (if 0 < p_burst q then i32 (p_nextdate q + BTIME)
                   else i32 (p_outdate q +
                     2 ^ nat (cmax (cmin (uint (p_ppoll q)) (uint (p_hpoll q))) MINPOLL)));
                (nextdate, w) = spread_nextdate e nextdate w
            in bind_r (if int_to_u64 nextdate \<le> c_t (w_c w)
                       then bind_r (add_int64_t (sint (c_t (w_c w))) 1) (\<lambda>n. Inr (i32 n))
                       else Inr nextdate) (\<lambda>nextdate.
               modify e p (\<lambda>q. q\<lparr>p_nextdate := nextdate\<rparr>) w)))"

section \<open>clock_filter()\<close>

text \<open>
  The shift of the filter stages: the loop goes up from stage 1 and copies the stage before,
  which the turn before has already overwritten.
\<close>

definition shift_stages :: "dbl \<Rightarrow> ntp_f list \<Rightarrow> ntp_f list" where
  "shift_stages tmpDisp f =
     fold (\<lambda>i f. f[i := (f ! (i - 1))\<lparr>f_disp := f_disp (f ! (i - 1)) + tmpDisp\<rparr>]) [1..<NSTAGE] f"

text \<open>The sums over the stages, added to the dispersion and jitter the association had.\<close>

definition stage_sums :: "ntp_f list \<Rightarrow> dbl \<times> dbl \<Rightarrow> dbl \<times> dbl" where
  "stage_sums f dj =
     fold (\<lambda>i (disp, jitter).
         (disp + f_disp (f ! i) / dbl_of_int (2 ^ (i + 1)),
          jitter + SQUARE (fabs (f_offset (f ! i) - f_offset (f ! 0)))))
       [0..<NSTAGE] dj"

definition filter_sample :: "env \<Rightarrow> world \<Rightarrow> ntp_p \<Rightarrow> dbl \<Rightarrow> dbl \<Rightarrow> dbl \<Rightarrow> ntp_p outcome" where
  "filter_sample e w q offset delay disp =
     (let tmpDisp = LFP2D (PHI * dbl_of_int (subtract_uint64_t (c_t (w_c w)) (p_t q)));
          f = (shift_stages tmpDisp (p_f q))
                [0 := \<lparr>f_t = c_t (w_c w), f_offset = offset, f_delay = delay, f_disp = disp\<rparr>];
          (d, j) = stage_sums f (p_disp q, p_jitter q)
      in bind_r (c_sqrt j) (\<lambda>r.
         Inr (q\<lparr>p_f := f, p_offset := offset, p_delay := delay, p_disp := d,
                p_jitter := cmax r (LOG2D (e_shl e) (sint (s_precision (w_s w))))\<rparr>)))"

definition clock_filter :: "env \<Rightarrow> ptr \<Rightarrow> dbl \<Rightarrow> dbl \<Rightarrow> dbl \<Rightarrow> world \<Rightarrow> world outcome" where
  "clock_filter e p offset delay disp w =
     bind_r (load e w p) (\<lambda>q0.
     bind_r (filter_sample e w q0 offset delay disp) (\<lambda>q.
     bind_r (store p q w) (\<lambda>w.
       let t0 = f_t (p_f q ! 0); age = subtract_uint64_t t0 (p_t q)
       in if age \<le> 0 \<and> s_leap (w_s w) \<noteq> word_of_int NOSYNC then Inr w
          else if SGATE * p_jitter q < fabs (p_offset q - p_offset q0) \<and>
                  age < 2 * uint (s_poll (w_s w)) then Inr w
          else bind_r (modify e p (\<lambda>q. q\<lparr>p_t := t0\<rparr>) w) (\<lambda>w.
               if p_burst q = 0
               then bind_r (assoc_table_update e p w) (clock_select e)
               else Inr w))))"

section \<open>packet()\<close>

text \<open>The header fields of the packet, copied to the association.\<close>

definition take_header :: "ntp_r \<Rightarrow> ntp_p \<Rightarrow> ntp_p" where
  "take_header r q =
     q\<lparr>p_leap := r_leap r,
       p_stratum := (if r_stratum r = 0 then word_of_int MAXSTRAT else r_stratum r),
       p_pmode := r_mode r, p_ppoll := r_poll r,
       p_rootdelay := FP2D (r_rootdelay r), p_rootdisp := FP2D (r_rootdisp r),
       p_refid := r_refid r, p_reftime := r_reftime r\<rparr>"

text \<open>Offset, delay and dispersion of the sample.\<close>

definition sample :: "env \<Rightarrow> world \<Rightarrow> ntp_p \<Rightarrow> ntp_r \<Rightarrow> (dbl \<times> dbl \<times> dbl) outcome" where
  "sample e w q r =
     (let lr = LOG2D (e_shl e) (sint (r_precision r));
          ls = LOG2D (e_shl e) (sint (s_precision (w_s w)))
      in if p_pmode q = word_of_int M_BCST
         then Inr (LFP2D (dbl_of_int (subtract_uint64_t (r_xmt r) (r_dst r))), BDELAY,
                   lr + ls + PHI * flt 2 * BDELAY)
         else bind_r (add_int64_t (subtract_uint64_t (r_rec r) (r_org r))
                        (subtract_uint64_t (r_dst r) (r_xmt r))) (\<lambda>sum.
              Inr (LFP2D (dbl_of_int sum) / flt 2,
                   cmax (LFP2D (dbl_of_int (subtract_uint64_t
                           (word_of_int (subtract_uint64_t (r_dst r) (r_org r)))
                           (word_of_int (subtract_uint64_t (r_rec r) (r_xmt r)))))) ls,
                   lr + ls + LFP2D (PHI * dbl_of_int (subtract_uint64_t (r_dst r) (r_org r))))))"

definition packet :: "env \<Rightarrow> ptr \<Rightarrow> ntp_r \<Rightarrow> world \<Rightarrow> world outcome" where
  "packet e p r w =
     bind_r (modify e p (take_header r) w) (\<lambda>w.
     bind_r (load e w p) (\<lambda>q.
       if p_leap q = word_of_int NOSYNC \<or> word_of_int MAXSTRAT \<le> p_stratum q then Inr w
       else if word_of_int MAXDISP \<le> r_rootdelay r div 2 + r_rootdisp r \<or> r_xmt r < p_reftime q
       then Inr w
       else bind_r (poll_update e p (uint (p_hpoll q)) w) (\<lambda>w.
            bind_r (modify e p (\<lambda>q. q\<lparr>p_reach := p_reach q OR 1\<rparr>) w) (\<lambda>w.
            bind_r (load e w p) (\<lambda>q.
            bind_r (sample e w q r) (\<lambda>(offset, delay, disp).
              clock_filter e p offset delay disp w))))))"

section \<open>fast_xmit() and access()\<close>

text \<open>The transmit structure is a local variable that is not initialised: the environment's.\<close>

definition fast_xmit :: "env \<Rightarrow> ntp_r \<Rightarrow> int \<Rightarrow> auth_code \<Rightarrow> world \<Rightarrow> world outcome" where
  "fast_xmit e r mode auth w =
     (let s = w_s w;
          x = (e_x e w)\<lparr>x_version := r_version r, x_srcaddr := r_dstaddr r, x_dstaddr := r_srcaddr r,
                x_leap := s_leap s, x_mode := word_of_int mode,
                x_stratum := (if s_stratum s = word_of_int MAXSTRAT then 0 else s_stratum s),
                x_poll := r_poll r, x_precision := s_precision s,
                x_rootdelay := D2FP (e_d2u32 e) (s_rootdelay s),
                x_rootdisp := D2FP (e_d2u32 e) (s_rootdisp s),
                x_refid := s_refid s, x_reftime := s_reftime s,
                x_org := r_xmt r, x_rec := r_dst r\<rparr>;
          w = gettime e 0 w;
          x = x\<lparr>x_xmt := c_localTime (w_c w)\<rparr>;
          x = (if auth \<noteq> A_NONE
               then if auth = A_CRYPTO then x\<lparr>x_keyid := 0\<rparr>
                    else x\<lparr>x_keyid := r_keyid r, x_dgst := md5 (r_keyid r)\<rparr>
               else x)
      in bind_r (xmit_packet e x w) (\<lambda>(x, w). Inr w))"

definition access :: "ntp_r \<Rightarrow> int" where
  "access r = 1"

section \<open>receive()\<close>

text \<open>The length of the MAC field is the constant zero.\<close>

definition authenticate :: "ntp_r \<Rightarrow> auth_code" where
  "authenticate r =
     (let has_mac = (0 :: int)
      in if has_mac = 0 then A_NONE
         else if has_mac = 4 then A_CRYPTO
         else if r_mac r \<noteq> md5 (r_keyid r) then A_ERROR
         else A_OK)"

text \<open>
  The switch on the dispatch code. \<open>None\<close> is a return from receive(), \<open>Some p\<close> goes on with the
  association p. The unicast branch of the case FXMIT is guarded by the constant 0.
\<close>

definition mobilize_for :: "env \<Rightarrow> ntp_r \<Rightarrow> int \<Rightarrow> world \<Rightarrow> (ptr option \<times> world) outcome" where
  "mobilize_for e r mode w =
     bind_r (mobilize e (r_srcaddr r) (r_dstaddr r) (uint (r_version r)) mode (r_keyid r) P_EPHEM w)
       (\<lambda>(p, w). Inr (Some p, w))"

definition dispatch_packet ::
    "env \<Rightarrow> ptr \<Rightarrow> ntp_r \<Rightarrow> auth_code \<Rightarrow> dispatch \<Rightarrow> world \<Rightarrow> (ptr option \<times> world) outcome" where
  "dispatch_packet e p r auth code w =
     (let stop = (\<lambda>w. (None :: ptr option, w))
      in case code of
        FXMIT \<Rightarrow>
          if s_leap (w_s w) = word_of_int NOSYNC \<or> r_stratum r < s_stratum (w_s w) then Inr (stop w)
          else bind_r (load e w p) (\<lambda>q.
               if AUTH (p_flags q AND P_NOTRUST \<noteq> 0) auth
               then bind_r (fast_xmit e r M_SERV auth w) (\<lambda>w. Inr (stop w))
               else Inr (stop w))
      | MANY \<Rightarrow>
          bind_r (load e w p) (\<lambda>q.
            if \<not> AUTH (p_flags q AND (P_NOTRUST OR P_NOPEER) \<noteq> 0) auth then Inr (stop w)
            else mobilize_for e r M_CLNT w)
      | NEWPS \<Rightarrow>
          bind_r (load e w p) (\<lambda>q.
            if \<not> AUTH (p_flags q AND P_NOTRUST \<noteq> 0) auth
            then if auth = A_ERROR
                 then bind_r (fast_xmit e r M_SACT A_CRYPTO w) (\<lambda>w. Inr (stop w))
                 else Inr (stop w)
            else if \<not> AUTH (p_flags q AND P_NOPEER \<noteq> 0) auth
            then bind_r (fast_xmit e r M_SACT auth w) (\<lambda>w. Inr (stop w))
            else mobilize_for e r M_PASV w)
      | NEWBC \<Rightarrow>
          bind_r (load e w p) (\<lambda>q.
            if \<not> AUTH (p_flags q AND (P_NOTRUST OR P_NOPEER) \<noteq> 0) auth then Inr (stop w)
            else if s_flags (w_s w) AND S_BCSTENAB = 0 then Inr (stop w)
            else mobilize_for e r M_BCLN w)
      | PROC \<Rightarrow> Inr (Some p, w)
      | ERR \<Rightarrow> bind_r (clear e p X_ERROR w) (\<lambda>w. Inr (stop w))
      | DSCRD \<Rightarrow> Inr (stop w))"

text \<open>The seconds of a timestamp since 1970, as the checks compute them.\<close>

definition unix_seconds :: "tstamp \<Rightarrow> tstamp" where
  "unix_seconds t = drop_bit 32 t - 2208988800"

definition is_zero_time :: "tstamp \<Rightarrow> bool" where
  "is_zero_time t \<longleftrightarrow> unix_seconds t = 0 \<and> lo32 t = 0"

text \<open>The origin check: false when the packet is unsynchronised or bogus.\<close>

definition synch :: "ntp_r \<Rightarrow> ntp_p \<Rightarrow> bool" where
  "synch r q =
     (if r_mode r \<noteq> word_of_int M_BCST
      then if is_zero_time (r_org r) then False
           else if unix_seconds (r_org r) \<noteq> unix_seconds (p_xmt q) \<and> lo32 (r_org r) \<noteq> lo32 (p_xmt q)
           then False
           else True
      else True)"

definition check_packet :: "env \<Rightarrow> ptr \<Rightarrow> ntp_r \<Rightarrow> auth_code \<Rightarrow> world \<Rightarrow> world outcome" where
  "check_packet e p r auth w =
     (if is_zero_time (r_xmt r) then Inr w
      else bind_r (load e w p) (\<lambda>q.
        if unix_seconds (r_xmt r) = unix_seconds (p_xmt q) \<and> lo32 (r_xmt r) = lo32 (p_xmt q) then Inr w
        else bind_r (modify e p (\<lambda>q. q\<lparr>p_org := r_xmt r, p_rec := r_dst r\<rparr>) w) (\<lambda>w.
             if \<not> synch r q then Inr w
             else if auth = A_CRYPTO then clear e p X_CRYPTO w
             else if \<not> AUTH (p_keyid q \<noteq> 0 \<or> p_flags q AND P_NOTRUST \<noteq> 0) auth then Inr w
             else packet e p r w)))"

definition receive :: "env \<Rightarrow> ntp_r \<Rightarrow> world \<Rightarrow> world outcome" where
  "receive e r w =
     (if access r = 0 then Inr w
      else if word_of_int VERSION < r_version r then Inr w
      else let auth = authenticate r
           in bind_r (find_assoc e r w) (\<lambda>p.
              bind_r (load e w p) (\<lambda>q.
              bind_r (dispatch_code (p_hmode q) (r_mode r)) (\<lambda>code.
              bind_r (dispatch_packet e p r auth code w) (\<lambda>(next, w).
                case next of None \<Rightarrow> Inr w | Some p \<Rightarrow> check_packet e p r auth w)))))"

end
