(* ===== verification/Poll.thy ===== *)
theory Poll
  imports Peer
begin

text \<open>
  The poll process of src/src/NTP_poll.c: poll(), with its broadcast, manycast, burst and ordinary
  branches, and peer_xmit(). The one-second timer clock_adjust() of src/src/NTP_vfo.c calls
  poll() for each association whose time has come, and then waits for the answer.
\<close>

section \<open>peer_xmit()\<close>

definition peer_xmit :: "env \<Rightarrow> ptr \<Rightarrow> world \<Rightarrow> world outcome" where
  "peer_xmit e p w =
     bind_r (load e w p) (\<lambda>q.
       let w = w\<lparr>w_ip := p_srcaddr q\<rparr>;
           s = w_s w;
           x = (e_x e w)\<lparr>x_srcaddr := p_srcaddr q, x_dstaddr := p_dstaddr q, x_leap := s_leap s,
                 x_version := p_version q, x_mode := p_hmode q,
                 x_stratum := (if s_stratum s = word_of_int MAXSTRAT then 0 else s_stratum s),
                 x_poll := p_hpoll q, x_precision := s_precision s,
                 x_rootdelay := D2FP (e_d2u32 e) (s_rootdelay s),
                 x_rootdisp := D2FP (e_d2u32 e) (s_rootdisp s),
                 x_refid := s_refid s, x_reftime := s_reftime s,
                 x_org := p_org q, x_rec := p_rec q\<rparr>;
           w = gettime e 0 w;
           x = x\<lparr>x_xmt := c_t (w_c w)\<rparr>
       in bind_r (modify e p (\<lambda>q. q\<lparr>p_xmt := x_xmt x\<rparr>) w) (\<lambda>w.
          bind_r (xmit_packet e x w) (\<lambda>(x, w). Inr w)))"

section \<open>poll()\<close>

text \<open>Broadcast mode.\<close>

definition poll_broadcast :: "env \<Rightarrow> ptr \<Rightarrow> int \<Rightarrow> world \<Rightarrow> world outcome" where
  "poll_broadcast e p hpoll w =
     bind_r (modify e p (\<lambda>q. q\<lparr>p_outdate := i32 (uint (c_t (w_c w)))\<rparr>) w) (\<lambda>w.
     bind_r (if s_p (w_s w) \<noteq> NULL then peer_xmit e p w else Inr w) (\<lambda>w.
       poll_update e p hpoll w))"

text \<open>Manycast client mode.\<close>

definition poll_manycast :: "env \<Rightarrow> ptr \<Rightarrow> int \<Rightarrow> world \<Rightarrow> world outcome" where
  "poll_manycast e p hpoll w =
     bind_r (modify e p (\<lambda>q. q\<lparr>p_outdate := i32 (uint (c_t (w_c w)))\<rparr>) w) (\<lambda>w.
     bind_r (load e w p) (\<lambda>q.
     bind_r (if BEACON < p_unreach q
             then bind_r (modify e p (\<lambda>q. q\<lparr>p_unreach := 0, p_ttl := 1\<rparr>) w) (peer_xmit e p)
             else if s_n (w_s w) < MINCLOCK
             then bind_r (modify e p (\<lambda>q. if p_ttl q < TTLMAX then q\<lparr>p_ttl := p_ttl q + 1\<rparr> else q) w)
                    (peer_xmit e p)
             else Inr w) (\<lambda>w.
     bind_r (modify e p (\<lambda>q. q\<lparr>p_unreach := i32 (p_unreach q + 1)\<rparr>) w) (\<lambda>w.
       poll_update e p hpoll w))))"

text \<open>Outside a burst: shift the reachability register, and act on what is left in it.\<close>

definition poll_unreachable :: "int \<Rightarrow> ntp_p \<Rightarrow> int \<times> ntp_p" where
  "poll_unreachable hpoll q =
     (let (hpoll, q) =
        (if p_flags q AND P_IBURST \<noteq> 0 \<and> p_unreach q = 0 then (hpoll, q\<lparr>p_burst := BCOUNT\<rparr>)
         else if p_unreach q < UNREACH then (hpoll, q\<lparr>p_unreach := p_unreach q + 1\<rparr>)
         else (hpoll + 1, q))
      in (hpoll, q\<lparr>p_unreach := i32 (p_unreach q + 1)\<rparr>))"

definition poll_reachable :: "env \<Rightarrow> world \<Rightarrow> ntp_p \<Rightarrow> int \<times> ntp_p" where
  "poll_reachable e w q =
     (let q = q\<lparr>p_unreach := 0\<rparr>
      in (uint (s_poll (w_s w)),
          if p_flags q AND P_BURST \<noteq> 0 \<and> fit e w q then q\<lparr>p_burst := BCOUNT\<rparr> else q))"

definition poll_quiet :: "env \<Rightarrow> ptr \<Rightarrow> int \<Rightarrow> world \<Rightarrow> (int \<times> world) outcome" where
  "poll_quiet e p hpoll w =
     bind_r (modify e p (\<lambda>q. q\<lparr>p_outdate := i32 (uint (c_t (w_c w))), p_reach := i32 (p_reach q * 2)\<rparr>) w) (\<lambda>w.
     bind_r (load e w p) (\<lambda>q.
     bind_r (if p_reach q AND 7 = 0
             then clock_filter e p (dbl_of_int 0) (dbl_of_int 0) (dbl_of_int MAXDISP) w
             else Inr w) (\<lambda>w.
     bind_r (load e w p) (\<lambda>q.
       let (hpoll, q) = (if p_reach q = 0 then poll_unreachable hpoll q else poll_reachable e w q)
       in bind_r (store p q w) (\<lambda>w. Inr (hpoll, w))))))"

definition poll :: "env \<Rightarrow> ptr \<Rightarrow> world \<Rightarrow> world outcome" where
  "poll e p w =
     bind_r (load e w p) (\<lambda>q.
       let hpoll = uint (p_hpoll q)
       in if p_hmode q = word_of_int M_BCST then poll_broadcast e p hpoll w
          else if p_hmode q = word_of_int M_CLNT \<and> p_flags q AND P_MANY \<noteq> 0
          then poll_manycast e p hpoll w
          else bind_r (if p_burst q = 0 then poll_quiet e p hpoll w
                       else bind_r (modify e p (\<lambda>q. q\<lparr>p_burst := i32 (p_burst q - 1)\<rparr>) w)
                              (\<lambda>w. Inr (hpoll, w))) (\<lambda>(hpoll, w).
               bind_r (load e w p) (\<lambda>q.
               bind_r (if p_hmode q \<noteq> word_of_int M_BCLN then peer_xmit e p w else Inr w) (\<lambda>w.
                 poll_update e p hpoll w))))"

section \<open>clock_adjust()\<close>

text \<open>The phase and frequency adjustment.\<close>

definition adjust_phase :: "env \<Rightarrow> world \<Rightarrow> world" where
  "adjust_phase e w =
     (let w = upd_c (\<lambda>c. c\<lparr>c_t := c_t c + 1\<rparr>) w;
          w = upd_s (\<lambda>s. s\<lparr>s_rootdisp := s_rootdisp s + PHI\<rparr>) w;
          dtemp = c_offset (w_c w) /
            (dbl_of_int PLL * cmin (LOG2D (e_shl e) (uint (s_poll (w_s w)))) (dbl_of_int ALLAN));
          w = upd_c (\<lambda>c. c\<lparr>c_offset := c_offset c - dtemp\<rparr>) w
      in adjust_time e (c_freq (w_c w) + dtemp) w)"

text \<open>
  One turn of the loop over the associations. The receive structure is the buffer r of the task;
  a turn that polls overwrites it.
\<close>

definition poll_turn :: "env \<Rightarrow> nat \<Rightarrow> ntp_r \<times> world \<Rightarrow> (ntp_r \<times> world) outcome" where
  "poll_turn e i rw =
     (case rw of (r, w) \<Rightarrow>
        bind_r (table_at w i) (\<lambda>assoc. bind_r (load e w assoc) (\<lambda>q.
          let c_t_low = lo32 (c_t (w_c w))
          in if (word_of_int (p_nextdate q) :: u32) \<le> c_t_low
             then bind_r (poll e assoc w) (\<lambda>w.
                  let (r, w) = recv_packet e w
                  in bind_r (receive e r w) (\<lambda>w. Inr (r, w)))
             else Inr (r, w))))"

definition clock_adjust :: "env \<Rightarrow> ntp_r \<Rightarrow> world \<Rightarrow> (ntp_r \<times> world) outcome" where
  "clock_adjust e r w = foldr_r (poll_turn e) [0..<NMAX] (r, adjust_phase e w)"

end
