(* ===== verification/Client.thy ===== *)
theory Client
  imports Poll
begin

text \<open>
  The invariant of the running client and its preservation by every operation of the polling loop:
  the association table stays full of live client associations of the configured servers, the
  values the selection relies on stay in range, and the only ways a run can stop are the ones a
  statement lists. The rules about \<open>outc\<close> are those of a Hoare logic for outcomes.
\<close>

section \<open>Outcomes that satisfy a postcondition\<close>

definition outc :: "stop set \<Rightarrow> ('a \<Rightarrow> bool) \<Rightarrow> 'a outcome \<Rightarrow> bool" where
  "outc S Q m \<longleftrightarrow> (case m of Inl er \<Rightarrow> er \<in> S | Inr x \<Rightarrow> Q x)"

lemma outc_simps [simp]: "outc S Q (Inr x) \<longleftrightarrow> Q x" "outc S Q (Inl er) \<longleftrightarrow> er \<in> S"
  by (simp_all add: outc_def)

lemma outc_bind: "outc S P m \<Longrightarrow> (\<And>x. P x \<Longrightarrow> outc S Q (f x)) \<Longrightarrow> outc S Q (bind_r m f)"
  by (cases m) simp_all

lemma outc_weaken: "outc S P m \<Longrightarrow> S \<subseteq> T \<Longrightarrow> (\<And>x. P x \<Longrightarrow> Q x) \<Longrightarrow> outc T Q m"
  by (cases m) auto

lemma outc_if: "(b \<Longrightarrow> outc S Q x) \<Longrightarrow> (\<not> b \<Longrightarrow> outc S Q y) \<Longrightarrow> outc S Q (if b then x else y)"
  by simp

lemma outc_foldr_r:
  assumes "P 0 w" and "\<And>i v. i < length xs \<Longrightarrow> P i v \<Longrightarrow> outc S (P (Suc i)) (f (xs ! i) v)"
  shows "outc S (P (length xs)) (foldr_r f xs w)"
  using assms
proof (induction xs arbitrary: w P)
  case (Cons x xs)
  have "outc S (P (Suc 0)) (f x w)" using Cons.prems(2) [of 0 w] Cons.prems(1) by simp
  then have "outc S (\<lambda>v. P (Suc (length xs)) v) (bind_r (f x w) (foldr_r f xs))"
  proof (rule outc_bind)
    fix v assume "P (Suc 0) v"
    then show "outc S (\<lambda>v. P (Suc (length xs)) v) (foldr_r f xs v)"
      using Cons.IH [of "\<lambda>i. P (Suc i)" v] Cons.prems(2) by fastforce
  qed
  then show ?case by simp
qed simp

lemma no_fault_outc: "no_fault m \<Longrightarrow> outc {Hang Sqrt_Loop, Exit 0} (\<lambda>x. m = Inr x) m"
  by (cases m) (auto simp: no_fault_def)

section \<open>The invariant\<close>

definition stage_ok :: "ntp_f \<Rightarrow> bool" where
  "stage_ok f \<longleftrightarrow> bd 31 (f_offset f) \<and> 0 \<le> f_disp f"

definition peer_ok :: "ntp_p \<Rightarrow> bool" where
  "peer_ok q \<longleftrightarrow> p_hmode q = word_of_int M_CLNT \<and> p_flags q = 0 \<and> p_keyid q = 0 \<and> p_burst q = 0 \<and>
     length (p_f q) = NSTAGE \<and> (\<forall>f \<in> set (p_f q). stage_ok f) \<and>
     0 \<le> p_rootdisp q \<and> 0 \<le> p_disp q \<and> 0 \<le> p_jitter q \<and> bd 36 (p_jitter q) \<and>
     bd 32 (p_rootdelay q) \<and> bd 32 (p_delay q) \<and> bd 31 (p_offset q) \<and> wfd (p_offset q) \<and>
     uint (p_t q) < 9223372036854775808"

definition client_ok :: "world \<Rightarrow> bool" where
  "client_ok w \<longleftrightarrow> sys_ok w \<and> table_ok w \<and> length (w_peers w) = NMAX \<and>
     sint (s_precision (w_s w)) = PRECISION \<and> (\<forall>p \<in> set (w_peers w). peer_ok (peer w p))"

text \<open>The addresses of the associations, in the order of the table.\<close>

definition addrs :: "world \<Rightarrow> u32 list" where
  "addrs w = map (\<lambda>p. p_srcaddr (peer w p)) (w_peers w)"

text \<open>The invariant with the process time at most b and the addresses of the table.\<close>

definition okay :: "int \<Rightarrow> u32 list \<Rightarrow> world \<Rightarrow> bool" where
  "okay b ips w \<longleftrightarrow> client_ok w \<and> uint (c_t (w_c w)) \<le> b \<and> addrs w = ips"

lemma peer_ok_sane:
  assumes "peer_ok q" and "uint (c_t (w_c w)) < 9223372036854775808"
  shows "peer_sane w q"
proof -
  have "\<bar>uint (c_t (w_c w)) - uint (p_t q)\<bar> < 9223372036854775808"
    using assms uint_ge_0 [of "c_t (w_c w)"] uint_ge_0 [of "p_t q"] unfolding peer_ok_def by linarith
  moreover have "bd 33 (p_rootdelay q + p_delay q)"
    using assms(1) bd_add [of 32 "p_rootdelay q" "p_delay q"] by (simp add: peer_ok_def)
  ultimately show ?thesis using assms(1) by (auto simp: peer_ok_def peer_sane_def dest: bd_not_NaN)
qed

lemma client_table_full:
  "client_ok w \<Longrightarrow> uint (c_t (w_c w)) < 9223372036854775808 \<Longrightarrow> table_full w"
  by (simp add: client_ok_def table_full_def peer_ok_sane)

lemma client_valid: "client_ok w \<Longrightarrow> p \<in> set (w_peers w) \<Longrightarrow> valid w p"
  by (simp add: client_ok_def table_ok_def list_all_iff)

lemma addrs_frame:
  "w_heap w' = w_heap w \<Longrightarrow> w_peers w' = w_peers w \<Longrightarrow> addrs w' = addrs w"
  using peer_frame [of w' w] by (simp add: addrs_def)

text \<open>The invariant depends on the heap, the table and the system structure.\<close>

lemma sys_ok_cong:
  assumes "w_heap w' = w_heap w" and "s_m (w_s w') = s_m (w_s w)" and "s_v (w_s w') = s_v (w_s w)"
    and "s_p (w_s w') = s_p (w_s w)" and "s_poll (w_s w') = s_poll (w_s w)"
    and "c_count (w_c w') = c_count (w_c w)"
  shows "sys_ok w' = sys_ok w"
  using assms by (simp add: sys_ok_def poll_ok_def ptr_ok_heap [OF assms(1)])

lemma table_ok_cong:
  "w_heap w' = w_heap w \<Longrightarrow> w_peers w' = w_peers w \<Longrightarrow> w_size w' = w_size w \<Longrightarrow> table_ok w' = table_ok w"
  using valid_frame [of w' w] by (simp add: table_ok_def list_all_iff)

lemma client_ok_cong:
  assumes "w_heap w' = w_heap w" and "w_peers w' = w_peers w" and "w_size w' = w_size w"
    and "sys_ok w' = sys_ok w" and "s_precision (w_s w') = s_precision (w_s w)"
  shows "client_ok w' = client_ok w"
  unfolding client_ok_def assms(2,4,5) table_ok_cong [OF assms(1-3)] peer_frame [OF assms(1)] ..

lemma client_keeps:
  assumes "client_ok w" and "keeps w w'" and "sys_ok w'"
  shows "client_ok w'" and "addrs w' = addrs w"
proof -
  note k = assms(2) [unfolded keeps_def]
  show "client_ok w'"
  proof -
    have h: "w_heap w' = w_heap w" and s: "w_size w' = w_size w" and p: "w_peers w' = w_peers w"
      and r: "s_precision (w_s w') = s_precision (w_s w)" using k by simp_all
    show ?thesis
      using assms(1,3) unfolding client_ok_def table_ok_cong [OF h p s] peer_frame [OF h] p r by blast
  qed
  show "addrs w' = addrs w" using k by (intro addrs_frame) simp_all
qed

text \<open>Writing a sound association of the same address back into the table.\<close>

lemma sys_ok_set_peer: "valid w p \<Longrightarrow> sys_ok w \<Longrightarrow> sys_ok (set_peer p q w)"
  by (simp add: sys_ok_def poll_ok_def ptr_ok_def)

lemma okay_set_peer:
  assumes "okay b ips w" and "p \<in> set (w_peers w)" and "peer_ok q" and "p_srcaddr q = p_srcaddr (peer w p)"
  shows "okay b ips (set_peer p q w)"
proof -
  have v: "valid w p" using assms(1,2) client_valid by (auto simp: okay_def)
  have g: "peer (set_peer p q w) r = (if r = p then q else peer w r)" for r
    using v by (rule heap.get_put)
  from g have "addrs (set_peer p q w) = addrs w"
    using assms(4) by (simp add: addrs_def)
  moreover have "\<forall>r \<in> set (w_peers w). peer_ok (peer (set_peer p q w) r)"
    using assms(1,3) by (simp add: g okay_def client_ok_def)
  ultimately show ?thesis
    using assms(1) v by (simp add: okay_def client_ok_def sys_ok_set_peer set_peer_same_cell)
qed

section \<open>The clock filter\<close>

lemma fold_list_invariant:
  assumes "\<And>i f. i \<in> set is \<Longrightarrow> length f = n \<Longrightarrow> (\<forall>x \<in> set f. P x) \<Longrightarrow> length (h i f) = n \<and> (\<forall>x \<in> set (h i f). P x)"
    and "length f = n" and "\<forall>x \<in> set f. P x"
  shows "length (fold h is f) = n \<and> (\<forall>x \<in> set (fold h is f). P x)"
  using assms
proof (induction "is" arbitrary: f)
  case (Cons i "is")
  have "length (h i f) = n \<and> (\<forall>x \<in> set (h i f). P x)"
    using Cons.prems(2,3) by (intro Cons.prems(1)) simp_all
  then have "length (fold h is (h i f)) = n \<and> (\<forall>x \<in> set (fold h is (h i f)). P x)"
    by (intro Cons.IH Cons.prems(1)) simp_all
  then show ?case by simp
qed simp

lemma shift_stages_ok:
  assumes "length f = NSTAGE" and "\<forall>x \<in> set f. stage_ok x" and "0 \<le> d"
  shows "length (shift_stages d f) = NSTAGE \<and> (\<forall>x \<in> set (shift_stages d f). stage_ok x)"
  unfolding shift_stages_def
proof (rule fold_list_invariant [OF _ assms(1,2)])
  fix i and g :: "ntp_f list"
  assume i: "i \<in> set [1..<NSTAGE]" and len: "length g = NSTAGE" and ok: "\<forall>x \<in> set g. stage_ok x"
  let ?x = "(g ! (i - 1))\<lparr>f_disp := f_disp (g ! (i - 1)) + d\<rparr>"
  have "g ! (i - 1) \<in> set g" using i len by (intro nth_mem) auto
  with ok assms(3) have "stage_ok ?x" by (simp add: stage_ok_def dadd_nonneg)
  then show "length (g[i := ?x]) = NSTAGE \<and> (\<forall>x \<in> set (g[i := ?x]). stage_ok x)"
    using len ok by (auto dest!: set_update_subset_insert [THEN subsetD])
qed

text \<open>The sum of the squared offset differences: at most nine times 2^64.\<close>

lemma add_scaled:
  assumes "\<exists>r. x = Fin r \<and> 0 \<le> r \<and> r \<le> of_nat m * 2 ^ 64"
    and "\<exists>r. y = Fin r \<and> 0 \<le> r \<and> r \<le> 2 ^ 64" and "m < 100"
  shows "\<exists>r. x + y = Fin r \<and> 0 \<le> r \<and> r \<le> of_nat (Suc m) * 2 ^ 64"
proof -
  obtain a b where ab: "x = Fin a" "0 \<le> a" "a \<le> of_nat m * 2 ^ 64" "y = Fin b" "0 \<le> b" "b \<le> 2 ^ 64"
    using assms(1,2) by blast
  let ?u = "of_int (int (Suc m)) * 2 powi 64 :: real"
  have u: "repr ?u" using assms(3) by (intro repr_scaled) simp_all
  have "?u = of_nat (Suc m) * 2 ^ 64" by (simp add: power_int_def)
  with ab have le: "a + b \<le> ?u" by (simp add: algebra_simps)
  have "rnd (a + b) \<le> rnd ?u" using le by (rule rnd_mono)
  then have up: "rnd (a + b) \<le> ?u" using u by (simp add: repr_def)
  have "rnd 0 \<le> rnd (a + b)" using ab by (intro rnd_mono) simp
  then have lo: "0 \<le> rnd (a + b)" using repr_int [of 0] by (simp add: repr_def)
  have "?u \<le> 100 * 2 ^ 64" using assms(3) by (simp add: power_int_def)
  also have "\<dots> \<le> (2 :: real) ^ 100" by simp
  finally have "\<bar>rnd (a + b)\<bar> \<le> 2 ^ 100" using up lo by simp
  then have "\<bar>rnd (a + b)\<bar> < ovf" by (rule small_lt_ovf)
  then have "flt (a + b) = Fin (rnd (a + b))" by (auto simp: flt_def Let_def)
  with ab up lo show ?thesis by (auto simp: power_int_def)
qed

lemma square_diff_bound:
  assumes "bd 31 x" and "bd 31 y"
  shows "\<exists>r. SQUARE (fabs (x - y)) = Fin r \<and> 0 \<le> r \<and> r \<le> 2 ^ 64"
proof -
  have "bd 32 (fabs (x - y))" using bd_fabs [OF bd_diff [OF assms]] by simp
  then have b: "bd 64 (SQUARE (fabs (x - y)))" using bd_SQUARE [of 32] by simp
  obtain a where a: "fabs (x - y) = Fin a" using \<open>bd 32 _\<close> by (auto simp: bd_def)
  have "0 \<le> SQUARE (fabs (x - y))" by (simp add: SQUARE_def a flt_nonneg)
  with b show ?thesis by (auto simp: bd_def zero_dbl_def)
qed

lemma disp_share_nonneg:
  assumes "0 \<le> x" and "1 \<le> k" and "k < 2 ^ 53"
  shows "0 \<le> x / dbl_of_int k"
proof -
  have d: "dbl_of_int k = Fin (of_int k)" using assms by (intro dbl_of_int_exact) simp
  from assms(1) show ?thesis
  proof (cases rule: dbl_nonneg_cases)
    case (1 r)
    with assms(2) show ?thesis by (simp add: d flt_nonneg)
  next
    case 2
    then show ?thesis using assms(2) by (simp add: d divide_dbl_def zero_dbl_def less_eq_dbl_def)
  qed
qed

lemma stage_sums_ok:
  assumes f: "length f = NSTAGE" "\<forall>x \<in> set f. stage_ok x"
    and d: "0 \<le> d" and j: "\<exists>r. j = Fin r \<and> 0 \<le> r \<and> r \<le> 2 ^ 64"
    and sums: "stage_sums f (d, j) = (d', j')"
  shows "0 \<le> d'" and "\<exists>r. j' = Fin r \<and> 0 \<le> r \<and> r \<le> 9 * 2 ^ 64" and "wfd j'"
proof -
  have st: "stage_ok (f ! i)" if "i < NSTAGE" for i using f that by simp
  let ?h = "\<lambda>i (disp, jitter). (disp + f_disp (f ! i) / dbl_of_int (2 ^ (i + 1)),
      jitter + SQUARE (fabs (f_offset (f ! i) - f_offset (f ! 0))))"
  have inv: "0 \<le> fst (fold ?h [0..<k] (d, j)) \<and>
      (\<exists>r. snd (fold ?h [0..<k] (d, j)) = Fin r \<and> 0 \<le> r \<and> r \<le> of_nat (Suc k) * 2 ^ 64)" if "k \<le> NSTAGE" for k
    using that
  proof (induction k)
    case 0
    then show ?case using d j by simp
  next
    case (Suc k)
    obtain dd jj where fk: "fold ?h [0..<k] (d, j) = (dd, jj)" by fastforce
    have "(2 :: int) ^ (k + 1) \<le> 2 ^ 8" using Suc.prems by (intro power_increasing) simp_all
    then have "(2 :: int) ^ (k + 1) < 2 ^ 53" "(1 :: int) \<le> 2 ^ (k + 1)" by (simp_all del: power_Suc)
    then have sh: "0 \<le> f_disp (f ! k) / dbl_of_int (2 ^ (k + 1))"
      using st [of k] Suc.prems by (intro disp_share_nonneg) (simp_all add: stage_ok_def)
    have sq: "\<exists>r. SQUARE (fabs (f_offset (f ! k) - f_offset (f ! 0))) = Fin r \<and> 0 \<le> r \<and> r \<le> 2 ^ 64"
      using st [of k] st [of 0] Suc.prems by (intro square_diff_bound) (simp_all add: stage_ok_def)
    have IH: "0 \<le> dd" "\<exists>r. jj = Fin r \<and> 0 \<le> r \<and> r \<le> of_nat (Suc k) * 2 ^ 64"
      using Suc fk by simp_all
    have "fold ?h [0..<Suc k] (d, j) = ?h k (dd, jj)" using fk by simp
    moreover have "\<exists>r. jj + SQUARE (fabs (f_offset (f ! k) - f_offset (f ! 0))) = Fin r \<and> 0 \<le> r \<and>
        r \<le> of_nat (Suc (Suc k)) * 2 ^ 64"
      using IH(2) sq Suc.prems by (intro add_scaled) simp_all
    ultimately show ?case using dadd_nonneg [OF IH(1) sh] by simp
  qed
  have eq: "fold ?h [0..<NSTAGE] (d, j) = (d', j')" using sums by (simp only: stage_sums_def)
  from inv [of NSTAGE] show "0 \<le> d'" "\<exists>r. j' = Fin r \<and> 0 \<le> r \<and> r \<le> 9 * 2 ^ 64" unfolding eq by simp_all
  have "fold ?h [0..<NSTAGE] (d, j) = ?h 7 (fold ?h [0..<7] (d, j))"
  proof -
    have "[0..<NSTAGE] = [0..<7] @ [7]" by (simp add: upt_rec)
    then show ?thesis by (simp only: fold_append o_apply fold_simps)
  qed
  then show "wfd j'" unfolding eq by (cases "fold ?h [0..<7] (d, j)") simp
qed

text \<open>The square root of at most nine times 2^64 is found, and it is below 2^36.\<close>

lemma sqrt_small:
  assumes "j = Fin n" and "0 \<le> n" and "n \<le> 9 * 2 ^ 64" and "wfd j"
  shows "\<exists>r. c_sqrt j = Inr r \<and> 0 \<le> r \<and> bd 36 r"
proof -
  have "repr n" "n \<le> 2 ^ 68" using assms by simp_all
  then obtain r l h where r: "c_sqrt (Fin n) = Inr (Fin r)" "0 \<le> l" "l \<le> r" "r \<le> h" "l * l \<le> n"
    "h \<le> 2 ^ 69" "\<not> sqrt_precision < Fin h - Fin l"
    using c_sqrt_brackets [of n] assms(2) by blast
  have "l \<le> 2 ^ 34"
  proof (rule ccontr)
    assume "\<not> l \<le> 2 ^ 34"
    then have "2 ^ 34 * 2 ^ 34 < l * l" by (intro mult_strict_mono) simp_all
    with r(5) assms(3) show False by simp
  qed
  moreover have "\<bar>h - l\<bar> \<le> 2 ^ 100" using r by simp
  then have "h - l \<le> 1 / 99999" by (rule exit_width [OF r(7)])
  ultimately have "r \<le> 2 ^ 36" using r by simp
  then show ?thesis using r assms(1) by (simp add: zero_dbl_def)
qed

lemma bd_difference: "bd 63 (dbl_of_int (subtract_uint64_t x y))"
proof -
  have "\<bar>subtract_uint64_t x y\<bar> \<le> 2 ^ 63"
    using sint_ge [of "if x < y then y - x else x - y"] sint_lt [of "if x < y then y - x else x - y"]
    by (auto simp: subtract_uint64_t_eq)
  then have "\<bar>of_int (subtract_uint64_t x y) :: real\<bar> \<le> 2 ^ 63"
    by (metis of_int_abs of_int_le_numeral_power_cancel_iff)
  then show ?thesis unfolding dbl_of_int_def by (rule bd_flt) simp
qed

lemma PHI_elapsed_ok:
  assumes "uint x < 9223372036854775808" and "uint y < 9223372036854775808"
  shows "0 \<le> LFP2D (PHI * dbl_of_int (subtract_uint64_t x y))"
proof -
  have "\<bar>uint x - uint y\<bar> < 9223372036854775808"
    using assms uint_ge_0 [of x] uint_ge_0 [of y] by linarith
  then have "0 \<le> subtract_uint64_t x y" by (simp add: subtract_nonneg)
  then show ?thesis
    by (intro LFP2D_nonneg PHI_elapsed_nonneg [OF _ bd_difference] dbl_of_int_nonneg)
qed

lemma filter_sample_ok:
  assumes q: "peer_ok q" and t: "uint (c_t (w_c w)) < 9223372036854775808"
    and prec: "sint (s_precision (w_s w)) = PRECISION"
    and "bd 31 offset" "wfd offset" "bd 32 delay" "0 \<le> disp"
  shows "\<exists>q'. filter_sample e w q offset delay disp = Inr q' \<and> peer_ok q' \<and> p_srcaddr q' = p_srcaddr q \<and>
    p_t q' = p_t q \<and> f_t (p_f q' ! 0) = c_t (w_c w)"
proof -
  define d where "d = LFP2D (PHI * dbl_of_int (subtract_uint64_t (c_t (w_c w)) (p_t q)))"
  define x where "x = \<lparr>f_t = c_t (w_c w), f_offset = offset, f_delay = delay, f_disp = disp\<rparr>"
  define f where "f = (shift_stages d (p_f q))[0 := x]"
  have d: "0 \<le> d" using q t by (auto simp: d_def peer_ok_def intro!: PHI_elapsed_ok)
  have sh: "length (shift_stages d (p_f q)) = NSTAGE" "\<forall>x \<in> set (shift_stages d (p_f q)). stage_ok x"
    using shift_stages_ok [OF _ _ d, of "p_f q"] q by (simp_all add: peer_ok_def)
  have "stage_ok x" using assms by (simp add: x_def stage_ok_def)
  with sh have f: "length f = NSTAGE" "\<forall>x \<in> set f. stage_ok x" "f ! 0 = x"
    by (auto simp: f_def dest!: set_update_subset_insert [THEN subsetD])
  obtain d' j' where dj: "stage_sums f (p_disp q, p_jitter q) = (d', j')" by fastforce
  have j0: "\<exists>r. p_jitter q = Fin r \<and> 0 \<le> r \<and> r \<le> 2 ^ 64"
    using q by (auto simp: peer_ok_def bd_def zero_dbl_def)
  note sums = stage_sums_ok [OF f(1,2) _ j0 dj]
  have d': "0 \<le> d'" and "wfd j'" and "\<exists>r. j' = Fin r \<and> 0 \<le> r \<and> r \<le> 9 * 2 ^ 64"
    using sums q by (simp_all add: peer_ok_def)
  then obtain r where r: "c_sqrt j' = Inr r" "0 \<le> r" "bd 36 r" using sqrt_small by metis
  have L: "LOG2D (e_shl e) (sint (s_precision (w_s w))) = Fin (1 / 262144)" using prec by simp
  have j: "0 \<le> cmax r (Fin (1 / 262144))" "bd 36 (cmax r (Fin (1 / 262144)))"
    using r by (auto simp: cmax_def zero_dbl_def)
  show ?thesis
    using q assms(4-7) f d' r(1) j
    by (simp add: filter_sample_def Let_def d_def [symmetric] x_def [symmetric] f_def [symmetric] dj L
        peer_ok_def)
      (simp add: x_def)
qed

section \<open>Selection\<close>

text \<open>The process time moves by at most one in local_clock(): rstclock() counts it.\<close>

lemma outlier_c_t:
  "outlier e q offset mu w = (x, w') \<Longrightarrow>
    c_t (w_c w') = c_t (w_c w) \<or> c_t (w_c w') = c_t (w_c w) + 1"
  by (auto simp: outlier_def outlier_step_def step_time_def Let_def split: if_splits)

lemma inlier_c_t:
  "inlier e q offset mu w = Inr (x, w') \<Longrightarrow>
    c_t (w_c w') = c_t (w_c w) \<or> c_t (w_c w') = c_t (w_c w) + 1"
  by (auto simp: inlier_def outcome_simps dest!: inlier_jitter_run split: if_splits)

lemma local_clock_c_t:
  assumes "local_clock e p offset w = Inr (r, w')"
  shows "c_t (w_c w') = c_t (w_c w) \<or> c_t (w_c w') = c_t (w_c w) + 1"
  using assms
  by (cases rule: local_clock_run)
    (auto split: if_splits dest!: update_freq_run outlier_c_t inlier_c_t)

lemma clock_update_c_t:
  assumes "clock_update e p w = Inr w'"
  shows "c_t (w_c w') = c_t (w_c w) \<or> c_t (w_c w') = c_t (w_c w) + 1"
proof -
  obtain q where q: "load e w p = Inr q" using assms by (auto simp: clock_update_def outcome_simps)
  show ?thesis
  proof (cases "p_t q < s_t (w_s w)")
    case True
    with assms q show ?thesis by (simp add: clock_update_def)
  next
    case False
    then obtain u rv v where u: "clock_combine e (upd_s (\<lambda>s. s\<lparr>s_t := p_t q\<rparr>) w) = Inr u"
      and v: "local_clock e p (s_offset (w_s u)) u = Inr (rv, v)" and x: "clock_verdict e p (rv, v) = Inr w'"
      using assms q by (auto simp: clock_update_def outcome_simps)
    have "w_c w' = w_c v" using x by (cases rv) (auto simp: system_slew_def Let_def outcome_simps)
    moreover have "w_c u = w_c w" using clock_combine_run [OF u] by auto
    ultimately show ?thesis using local_clock_c_t [OF v] by simp
  qed
qed

lemma clock_select_c_t:
  assumes "qsort_ok e" and "table_full w" and "sys_ok w" and run: "clock_select e w = Inr w'"
  shows "c_t (w_c w') = c_t (w_c w) \<or> c_t (w_c w') = c_t (w_c w) + 1"
proof -
  let ?w = "upd_s (\<lambda>s. s\<lparr>s_p := NULL\<rparr>) w" and ?C = "chime_list e w"
  obtain v low high S where pre: "cull e ?w = Inr (length ?C, v)"
    "intersection e (int (length ?C)) v = Inr (low, high)"
    "S = filter (in_interval low high) ?C"
    "survivors e (length ?C) low high v =
      Inr (upd_s (\<lambda>s. s\<lparr>s_p := NULL, s_m := ?C @ drop (length ?C) (s_m s),
             s_v := map (survivor w) S @ drop (length S) (s_v s), s_n := int (length S)\<rparr>) w)"
    (is "_ = Inr ?u")
    by (rule select_prefix [OF assms(1-3)])
  show ?thesis
  proof (cases "int (length S) < NSANE")
    case True
    with run pre show ?thesis by (auto simp: clock_select_def Let_def)
  next
    case False
    then obtain y z where y: "cluster e (length ?C) ?u = Inr y" and z: "pick_peer e (s_p (w_s w)) y = Inr z"
      and x: "clock_update e (s_p (w_s z)) z = Inr w'"
      using run pre by (auto simp: clock_select_def Let_def outcome_simps)
    have "poll_ok w" using assms(3) by (simp add: sys_ok_def)
    then have "length ?C \<le> 15" by (rule length_chime_list [OF assms(1,2)])
    moreover have "length S \<le> length ?C" unfolding pre(3) by (rule length_filter_le)
    ultimately have "length S < 2147483648" by simp
    then have "\<exists>j. y = upd_s (\<lambda>s. s\<lparr>s_n := j\<rparr>) ?u"
      using y cluster_loop_ends [of "length S" ?u e "length ?C"] by (auto simp: cluster_def)
    then have "w_c y = w_c w" by auto
    moreover have "w_c z = w_c y" using z by (auto simp: pick_peer_def outcome_simps)
    ultimately show ?thesis using clock_update_c_t [OF x] by simp
  qed
qed

lemma uint_step: "x' = x \<or> x' = x + 1 \<Longrightarrow> uint x \<le> b \<Longrightarrow> uint (x' :: tstamp) \<le> b + 1"
  using zmod_le_nonneg_dividend [of "uint x + 1" "2 ^ 64"] by (auto simp: uint_word_ariths)

lemma select_okay:
  assumes "okay b ips w" and "qsort_ok e" and "b < 9223372036854775808"
  shows "outc {Hang Sqrt_Loop, Exit 0} (\<lambda>w'. okay (b + 1) ips w' \<and> w_peers w' = w_peers w) (clock_select e w)"
proof -
  have c: "client_ok w" and t: "uint (c_t (w_c w)) \<le> b" and a: "addrs w = ips"
    using assms(1) by (simp_all add: okay_def)
  have full: "table_full w" and sys: "sys_ok w"
    using client_table_full [OF c] t assms(3) c by (simp_all add: client_ok_def)
  note run = clock_select_run [OF assms(2) full sys]
  from run(1) show ?thesis
  proof (rule outc_weaken [OF no_fault_outc])
    fix w' assume r: "clock_select e w = Inr w'"
    note k = run(2) [OF r]
    have "w_peers w' = w_peers w" using k by (simp add: keeps_def)
    with k show "okay (b + 1) ips w' \<and> w_peers w' = w_peers w"
      using client_keeps [OF c] a uint_step [OF clock_select_c_t [OF assms(2) full sys r] t]
      by (simp add: okay_def)
  qed simp
qed

section \<open>The peer process\<close>

text \<open>assoc_table_update() writes an entry of the same address and host mode: nothing moves.\<close>

lemma assoc_table_update_okay:
  assumes ok: "okay b ips w" and p: "p \<in> set (w_peers w)"
  shows "outc {} (\<lambda>w'. okay b ips w' \<and> p \<in> set (w_peers w')) (assoc_table_update e p w)"
proof -
  have c: "client_ok w" and tab: "table_ok w" using ok by (simp_all add: okay_def client_ok_def)
  have v: "valid w p" using client_valid [OF c p] .
  let ?P = "\<lambda>q. p_srcaddr q = p_srcaddr (peer w p) \<and> p_hmode q = p_hmode (peer w p)"
  have s: "find_r (\<lambda>i. bind_r (table_at w i) (\<lambda>a. bind_r (load e w a) (\<lambda>q. bind_r (load e w p) (\<lambda>r.
        Inr (p_srcaddr q = p_srcaddr r \<and> p_hmode q = p_hmode r))))) [0..<nat (w_size w)] =
      Inr (List.find (\<lambda>i. ?P (peer w (w_peers w ! i))) [0..<length (w_peers w)])"
    using table_search [OF tab, of e ?P] v by simp
  show ?thesis
  proof (cases "List.find (\<lambda>i. ?P (peer w (w_peers w ! i))) [0..<length (w_peers w)]")
    case None
    with ok p show ?thesis by (simp add: assoc_table_update_def s)
  next
    case (Some i)
    note h = find_SomeD [OF Some]
    let ?w = "w\<lparr>w_peers := (w_peers w)[i := p]\<rparr>"
    have i: "i < length (w_peers w)" and a: "p_srcaddr (peer w (w_peers w ! i)) = p_srcaddr (peer w p)"
      using h by simp_all
    have sub: "set ((w_peers w)[i := p]) \<subseteq> set (w_peers w)"
      using p by (meson insert_subset set_update_subset_insert subset_trans order_refl)
    have "map (\<lambda>p. p_srcaddr (peer w p)) ((w_peers w)[i := p]) = map (\<lambda>p. p_srcaddr (peer w p)) (w_peers w)"
      using i a by (simp add: map_update list_update_same_conv)
    then have "addrs ?w = addrs w" by (simp add: addrs_def)
    moreover have "client_ok ?w"
      using c sub by (auto simp: client_ok_def sys_ok_def poll_ok_def ptr_ok_def table_ok_def list_all_iff)
    ultimately have "okay b ips ?w" using ok by (simp add: okay_def)
    moreover have "p \<in> set (w_peers ?w)" using i by (simp add: set_update_memI)
    ultimately show ?thesis using Some by (simp add: assoc_table_update_def s)
  qed
qed

text \<open>The process time is small enough for the comparisons of dates with it.\<close>

abbreviation (input) t_max :: int where "t_max \<equiv> 2147483647"

lemma okay_mono: "okay b ips w \<Longrightarrow> b \<le> b' \<Longrightarrow> okay b' ips w"
  by (simp add: okay_def)

lemma okayD:
  assumes "okay b ips w" and "p \<in> set (w_peers w)"
  shows "valid w p" and "peer_ok (peer w p)"
  using assms client_valid by (auto simp: okay_def client_ok_def)

lemma clock_filter_okay:
  assumes ok: "okay b ips w" and p: "p \<in> set (w_peers w)" and e: "qsort_ok e" and b: "b < t_max"
    and args: "bd 31 offset" "wfd offset" "bd 32 delay" "0 \<le> disp"
  shows "outc {Hang Sqrt_Loop, Exit 0} (\<lambda>w'. okay (b + 1) ips w' \<and> p \<in> set (w_peers w'))
    (clock_filter e p offset delay disp w)"
proof -
  have c: "client_ok w" and t: "uint (c_t (w_c w)) \<le> b" using ok by (simp_all add: okay_def)
  note v = okayD [OF ok p]
  have tt: "uint (c_t (w_c w)) < 9223372036854775808" using t b by simp
  have prec: "sint (s_precision (w_s w)) = PRECISION" using c by (simp add: client_ok_def)
  obtain q where q: "filter_sample e w (peer w p) offset delay disp = Inr q" "peer_ok q"
    "p_srcaddr q = p_srcaddr (peer w p)" "p_t q = p_t (peer w p)" "f_t (p_f q ! 0) = c_t (w_c w)"
    using filter_sample_ok [OF v(2) tt prec args] by blast
  let ?w = "set_peer p q w" and ?q = "q\<lparr>p_t := c_t (w_c w)\<rparr>"
  have w1: "okay b ips ?w" by (rule okay_set_peer [OF ok p q(2,3)])
  have "peer_ok ?q" using q(2) tt by (simp add: peer_ok_def)
  then have w2: "okay b ips (set_peer p ?q ?w)"
    using v(1) p q(3) by (intro okay_set_peer [OF w1]) simp_all
  have sel: "outc {Hang Sqrt_Loop, Exit 0} (\<lambda>w'. okay (b + 1) ips w' \<and> p \<in> set (w_peers w'))
      (bind_r (assoc_table_update e p (set_peer p ?q ?w)) (clock_select e))"
  proof (rule outc_bind [OF outc_weaken [OF assoc_table_update_okay [OF w2]]])
    fix u assume u: "okay b ips u \<and> p \<in> set (w_peers u)"
    show "outc {Hang Sqrt_Loop, Exit 0} (\<lambda>w'. okay (b + 1) ips w' \<and> p \<in> set (w_peers w')) (clock_select e u)"
      by (rule outc_weaken [OF select_okay [of b ips u]]) (use u b e in auto)
  qed (use p in auto)
  have b1: "okay (b + 1) ips u" if "okay b ips u" for u using okay_mono [OF that] by simp
  show ?thesis
    using v(1) q(1,5) sel b1 [OF w1] b1 [OF w2] p by (auto simp: clock_filter_def Let_def)
qed

text \<open>Rewriting fields of an association that the invariant does not constrain.\<close>

lemma okay_modify:
  assumes ok: "okay b ips w" and p: "p \<in> set (w_peers w)"
    and f: "\<And>q. peer_ok q \<Longrightarrow> peer_ok (f q)" "\<And>q. p_srcaddr (f q) = p_srcaddr q"
  shows "outc {} (\<lambda>w'. okay b ips w' \<and> w' = set_peer p (f (peer w p)) w \<and> p \<in> set (w_peers w'))
    (modify e p f w)"
proof -
  note v = okayD [OF ok p]
  have "okay b ips (set_peer p (f (peer w p)) w)"
    using f v(2) by (intro okay_set_peer [OF ok p]) simp_all
  then show ?thesis using v(1) p by simp
qed

lemma okay_last_nextdate [simp]: "okay b ips (w\<lparr>w_last_nextdate := d\<rparr>) = okay b ips w"
proof -
  have "sys_ok (w\<lparr>w_last_nextdate := d\<rparr>) = sys_ok w" by (rule sys_ok_cong) simp_all
  then have "client_ok (w\<lparr>w_last_nextdate := d\<rparr>) = client_ok w" by (intro client_ok_cong) simp_all
  then show ?thesis by (simp add: okay_def addrs_def)
qed

lemma poll_update_okay:
  assumes ok: "okay b ips w" and p: "p \<in> set (w_peers w)" and b: "b < t_max"
  shows "outc {} (\<lambda>w'. okay b ips w' \<and> w_ip w' = w_ip w \<and> w_peers w' = w_peers w) (poll_update e p hpoll w)"
proof -
  let ?f = "\<lambda>q. q\<lparr>p_hpoll := word_of_int (cmax (cmin MAXPOLL hpoll) MINPOLL)\<rparr>"
  let ?w = "set_peer p (?f (peer w p)) w"
  note v = okayD [OF ok p]
  have w1: "okay b ips ?w" by (rule okay_set_peer [OF ok p]) (use v(2) in \<open>simp_all add: peer_ok_def\<close>)
  have burst: "p_burst (peer w p) = 0" using v(2) by (simp add: peer_ok_def)
  define nd where "nd = i32 (p_outdate (peer w p) +
      2 ^ nat (max (min (uint (p_ppoll (peer w p))) (uint (word_of_int (max (min MAXPOLL hpoll) MINPOLL) :: u8))) MINPOLL))"
  obtain nd' u where u: "spread_nextdate e nd ?w = (nd', u)" by fastforce
  then have u': "okay b ips u" "w_ip u = w_ip w" "w_peers u = w_peers w" "valid u p" "peer u p = ?f (peer w p)"
    "c_t (w_c u) = c_t (w_c w)"
    using w1 v(1) by (auto simp: spread_nextdate_def split: if_splits)
  have t: "uint (c_t (w_c w)) \<le> b" using ok by (simp add: okay_def)
  then have "uint (c_t (w_c w)) < 2147483647" using b by simp
  then have "sint (c_t (w_c w)) = uint (c_t (w_c w))"
    using uint_ge_0 [of "c_t (w_c w)"] unfolding sint_i64 by (intro i64_id) linarith+
  then obtain n where n: "add_int64_t (sint (c_t (w_c w))) 1 = Inr n"
    using add_int64_t_small [of "uint (c_t (w_c w))"] t b by auto
  have fin: "okay b ips (set_peer p ((peer u p)\<lparr>p_nextdate := m\<rparr>) u)" for m
    using p u'(3) v(2) by (intro okay_set_peer [OF u'(1)]) (simp_all add: u'(5) peer_ok_def)
  have eq: "poll_update e p hpoll w =
      bind_r (if int_to_u64 nd' \<le> c_t (w_c u) then bind_r (add_int64_t (sint (c_t (w_c u))) 1) (\<lambda>n. Inr (i32 n))
              else Inr nd') (\<lambda>nd. modify e p (\<lambda>q. q\<lparr>p_nextdate := nd\<rparr>) u)"
    using v(1) burst u by (simp add: poll_update_def nd_def [symmetric] Let_def)
  have c: "c_t (w_c u) = c_t (w_c w)" by (rule u'(6))
  show ?thesis
    unfolding eq c using n fin u'(2-4) by simp
qed

lemma FP2D_ok: "0 \<le> FP2D x" "bd 32 (FP2D x)"
proof -
  have d: "dbl_of_int (uint x) = Fin (of_int (uint x))"
    using uint_lt2p [of x] by (intro dbl_of_int_exact) simp
  have "(of_int (uint x) :: real) \<le> of_int 4294967296" unfolding of_int_le_iff using uint_lt2p [of x] by simp
  then have le: "\<bar>of_int (uint x) / 65536 :: real\<bar> \<le> 2 ^ 32" by (simp del: of_int_uint)
  show "0 \<le> FP2D x" by (simp add: FP2D_def d flt_nonneg del: of_int_uint)
  show "bd 32 (FP2D x)" using bd_flt [OF le] by (simp add: FP2D_def d)
qed

lemma take_header_ok: "peer_ok q \<Longrightarrow> peer_ok (take_header r q)"
  by (simp add: peer_ok_def take_header_def FP2D_ok)

text \<open>A packet whose precision and origin timestamp give a nonnegative dispersion.\<close>

definition packet_sane :: "env \<Rightarrow> ntp_r \<Rightarrow> bool" where
  "packet_sane e r \<longleftrightarrow> 0 \<le> LOG2D (e_shl e) (sint (r_precision r)) \<and>
     0 \<le> subtract_uint64_t (r_dst r) (r_org r)"

lemma add_int64_t_magnitude:
  assumes "- 9223372036854775808 \<le> x" "x < 9223372036854775808"
    and "- 9223372036854775808 \<le> y" "y < 9223372036854775808" and "add_int64_t x y = Inr z"
  shows "\<bar>z\<bar> \<le> 2 ^ 64"
proof -
  have "z = (let low = i32 (x mod 4294967296) + i32 (y mod 4294967296) in if 0 \<le> low then x + y else low)"
    using assms by (intro add_int64_t_result) simp_all
  then show ?thesis
    using assms i32_range [of "x mod 4294967296"] i32_range [of "y mod 4294967296"]
    by (simp add: Let_def split: if_splits)
qed

lemma difference_range:
  "- 9223372036854775808 \<le> subtract_uint64_t x y" "subtract_uint64_t x y < 9223372036854775808"
  using sint_ge [of "if x < y then y - x else x - y"] sint_lt [of "if x < y then y - x else x - y"]
  by (auto simp: subtract_uint64_t_eq)

lemma LFP2D_bd: "bd k x \<Longrightarrow> 32 \<le> k \<Longrightarrow> k \<le> 100 \<Longrightarrow> bd (k - 32) (LFP2D x)"
proof -
  assume k: "bd k x" "32 \<le> k" "k \<le> 100"
  then obtain a where a: "x = Fin a" "\<bar>a\<bar> \<le> 2 ^ k" by (auto simp: bd_def)
  have "(2 :: real) ^ k = 2 ^ 32 * 2 ^ (k - 32)" using k(2) by (simp only: power_add [symmetric]) simp
  with a have "\<bar>a / 4294967296\<bar> \<le> 2 ^ (k - 32)" by (simp add: field_simps)
  then show ?thesis using k(3) bd_flt [of "a / 4294967296" "k - 32"] by (simp add: LFP2D_def a)
qed

lemma sample_ok:
  assumes prec: "sint (s_precision (w_s w)) = PRECISION" and r: "packet_sane e r"
  shows "outc {Signed_Overflow}
    (\<lambda>(offset, delay, disp). bd 31 offset \<and> wfd offset \<and> bd 32 delay \<and> 0 \<le> disp) (sample e w q r)"
proof -
  have ls: "LOG2D (e_shl e) (sint (s_precision (w_s w))) = Fin (1 / 262144)" using prec by simp
  have lr: "0 \<le> LOG2D (e_shl e) (sint (r_precision r))" and d: "0 \<le> subtract_uint64_t (r_dst r) (r_org r)"
    using r by (simp_all add: packet_sane_def)
  have sum: "0 \<le> LOG2D (e_shl e) (sint (r_precision r)) + Fin (1 / 262144)"
    using lr by (rule dadd_nonneg) (simp add: zero_dbl_def)
  have elapsed: "0 \<le> LFP2D (PHI * dbl_of_int (subtract_uint64_t (r_dst r) (r_org r)))"
    using d by (intro LFP2D_nonneg PHI_elapsed_nonneg [OF _ bd_difference] dbl_of_int_nonneg)
  have half: "bd k (flt 2) \<Longrightarrow> Fin 1 \<le> flt 2" for k by simp
  show ?thesis
  proof (cases "p_pmode q = word_of_int M_BCST")
    case True
    have B: "0 \<le> BDELAY" "bd 0 BDELAY" by (simp_all add: ntp_consts flt_nonneg bd_flt)
    have "0 \<le> PHI * flt 2" using PHI_elapsed_nonneg [of "Fin 2" 1] by (simp add: zero_dbl_def)
    moreover have "PHI * flt 2 \<noteq> PInf"
      using PHI_fin bd_mult [of 0 PHI 1 "flt 2"] bd_flt [of "15 / 1000000" 0] by (auto simp: ntp_consts bd_def)
    moreover have "BDELAY \<noteq> PInf" using B(2) by (auto simp: bd_def)
    ultimately have "0 \<le> PHI * flt 2 * BDELAY" by (rule dbl_mult_nonneg [OF _ B(1)])
    then have "0 \<le> LOG2D (e_shl e) (sint (r_precision r)) + Fin (1 / 262144) + PHI * flt 2 * BDELAY"
      by (rule dadd_nonneg [OF sum])
    then show ?thesis
      using True ls B(2) bd_elapsed [of "r_xmt r" "r_dst r"] bd_mono [of 0 BDELAY 32]
      by (simp add: sample_def Let_def LFP2D_def)
  next
    case False
    let ?x = "subtract_uint64_t (r_rec r) (r_org r)" and ?y = "subtract_uint64_t (r_dst r) (r_xmt r)"
    let ?d = "LFP2D (dbl_of_int (subtract_uint64_t (word_of_int (subtract_uint64_t (r_dst r) (r_org r)))
        (word_of_int (subtract_uint64_t (r_rec r) (r_xmt r)))))"
    have "outc {Signed_Overflow} (\<lambda>z. \<bar>z\<bar> \<le> 2 ^ 64) (add_int64_t ?x ?y)"
    proof (cases "add_int64_t ?x ?y")
      case (Inl er)
      then show ?thesis
        by (auto simp: add_int64_t_def Let_def bind_r_Inl_conv add32_def split: if_splits)
    next
      case (Inr z)
      with add_int64_t_magnitude [OF difference_range difference_range Inr] show ?thesis by simp
    qed
    then have "outc {Signed_Overflow}
        (\<lambda>(offset, delay, disp). bd 31 offset \<and> wfd offset \<and> bd 32 delay \<and> 0 \<le> disp)
        (bind_r (add_int64_t ?x ?y) (\<lambda>sum. Inr (LFP2D (dbl_of_int sum) / flt 2, cmax ?d (Fin (1 / 262144)),
           LOG2D (e_shl e) (sint (r_precision r)) + Fin (1 / 262144) +
           LFP2D (PHI * dbl_of_int (subtract_uint64_t (r_dst r) (r_org r))))))"
    proof (rule outc_bind)
      fix z :: int assume z: "\<bar>z\<bar> \<le> 2 ^ 64"
      then have "\<bar>of_int z :: real\<bar> \<le> 2 ^ 64" by (metis of_int_abs of_int_le_numeral_power_cancel_iff)
      then have "bd 64 (dbl_of_int z)" unfolding dbl_of_int_def by (rule bd_flt) simp
      then have "bd 32 (LFP2D (dbl_of_int z))" using LFP2D_bd [of 64] by simp
      then obtain a where a: "LFP2D (dbl_of_int z) = Fin a" "\<bar>a\<bar> \<le> 2 ^ 32" by (auto simp: bd_def)
      then have "bd 31 (flt (a / 2))" by (intro bd_flt) simp_all
      moreover have "bd 32 ?d" using bd_elapsed bd_mono [of 31 ?d 32] by simp
      then have "bd 32 (cmax ?d (Fin (1 / 262144)))" by (rule bd_cmax) simp
      ultimately show "outc {Signed_Overflow}
          (\<lambda>(offset, delay, disp). bd 31 offset \<and> wfd offset \<and> bd 32 delay \<and> 0 \<le> disp)
          (Inr (LFP2D (dbl_of_int z) / flt 2, cmax ?d (Fin (1 / 262144)),
           LOG2D (e_shl e) (sint (r_precision r)) + Fin (1 / 262144) +
           LFP2D (PHI * dbl_of_int (subtract_uint64_t (r_dst r) (r_org r)))))"
        using dadd_nonneg [OF sum elapsed] a(1) by simp
    qed
    then show ?thesis using False by (simp add: sample_def Let_def ls)
  qed
qed

lemma packet_okay:
  assumes ok: "okay b ips w" and p: "p \<in> set (w_peers w)" and e: "qsort_ok e" and b: "b < t_max"
    and r: "packet_sane e r"
  shows "outc {Hang Sqrt_Loop, Exit 0, Signed_Overflow} (okay (b + 1) ips) (packet e p r w)"
  unfolding packet_def
proof (rule outc_bind [OF outc_weaken [OF okay_modify [OF ok p, of "take_header r"]]])
  fix w1 assume w1: "okay b ips w1 \<and> w1 = set_peer p (take_header r (peer w p)) w \<and> p \<in> set (w_peers w1)"
  then have ok1: "okay b ips w1" and p1: "p \<in> set (w_peers w1)" by blast+
  note v1 = okayD [OF ok1 p1]
  have b1: "okay (b + 1) ips w1" using okay_mono [OF ok1] by simp
  have tail: "outc {Hang Sqrt_Loop, Exit 0, Signed_Overflow} (okay (b + 1) ips)
      (bind_r (poll_update e p h w1) (\<lambda>w. bind_r (modify e p (\<lambda>q. q\<lparr>p_reach := p_reach q OR 1\<rparr>) w) (\<lambda>w.
        bind_r (load e w p) (\<lambda>q. bind_r (sample e w q r) (\<lambda>(offset, delay, disp).
          clock_filter e p offset delay disp w)))))" for h
  proof (rule outc_bind [OF outc_weaken [OF poll_update_okay]])
    fix w2 assume w2: "okay b ips w2 \<and> w_ip w2 = w_ip w1 \<and> w_peers w2 = w_peers w1"
    then have ok2: "okay b ips w2" and p2: "p \<in> set (w_peers w2)" using p1 by simp_all
    show "outc {Hang Sqrt_Loop, Exit 0, Signed_Overflow} (okay (b + 1) ips)
        (bind_r (modify e p (\<lambda>q. q\<lparr>p_reach := p_reach q OR 1\<rparr>) w2) (\<lambda>w.
          bind_r (load e w p) (\<lambda>q. bind_r (sample e w q r) (\<lambda>(offset, delay, disp).
            clock_filter e p offset delay disp w))))"
    proof (rule outc_bind [OF outc_weaken [OF okay_modify [OF ok2 p2, of "\<lambda>q. q\<lparr>p_reach := p_reach q OR 1\<rparr>"]]])
      fix w3 assume "okay b ips w3 \<and> w3 = set_peer p ((peer w2 p)\<lparr>p_reach := p_reach (peer w2 p) OR 1\<rparr>) w2 \<and>
        p \<in> set (w_peers w3)"
      then have ok3: "okay b ips w3" and p3: "p \<in> set (w_peers w3)" by blast+
      note v3 = okayD [OF ok3 p3]
      have prec: "sint (s_precision (w_s w3)) = PRECISION" using ok3 by (simp add: okay_def client_ok_def)
      have "outc {Hang Sqrt_Loop, Exit 0, Signed_Overflow} (okay (b + 1) ips)
          (bind_r (sample e w3 (peer w3 p) r) (\<lambda>(offset, delay, disp). clock_filter e p offset delay disp w3))"
      proof (rule outc_bind [OF outc_weaken [OF sample_ok [OF prec r]]])
        fix x :: "dbl \<times> dbl \<times> dbl"
        assume "case x of (offset, delay, disp) \<Rightarrow> bd 31 offset \<and> wfd offset \<and> bd 32 delay \<and> 0 \<le> disp"
        then show "outc {Hang Sqrt_Loop, Exit 0, Signed_Overflow} (okay (b + 1) ips)
            (case x of (offset, delay, disp) \<Rightarrow> clock_filter e p offset delay disp w3)"
          by (cases x) (auto intro: outc_weaken [OF clock_filter_okay [OF ok3 p3 e b]])
      qed auto
      then show "outc {Hang Sqrt_Loop, Exit 0, Signed_Overflow} (okay (b + 1) ips)
          (bind_r (load e w3 p) (\<lambda>q. bind_r (sample e w3 q r) (\<lambda>(offset, delay, disp).
            clock_filter e p offset delay disp w3)))"
        using v3(1) by simp
    qed (simp_all add: peer_ok_def)
  qed (use ok1 p1 b in simp_all)
  show "outc {Hang Sqrt_Loop, Exit 0, Signed_Overflow} (okay (b + 1) ips)
      (bind_r (load e w1 p) (\<lambda>q.
       if p_leap q = word_of_int NOSYNC \<or> word_of_int MAXSTRAT \<le> p_stratum q then Inr w1
       else if word_of_int MAXDISP \<le> r_rootdelay r div 2 + r_rootdisp r \<or> r_xmt r < p_reftime q
       then Inr w1
       else bind_r (poll_update e p (uint (p_hpoll q)) w1) (\<lambda>w.
            bind_r (modify e p (\<lambda>q. q\<lparr>p_reach := p_reach q OR 1\<rparr>) w) (\<lambda>w.
            bind_r (load e w p) (\<lambda>q.
            bind_r (sample e w q r) (\<lambda>(offset, delay, disp).
              clock_filter e p offset delay disp w))))))"
    using v1(1) b1 tail by simp
qed (simp_all add: take_header_ok, simp add: take_header_def)

text \<open>The dispatch of a packet to a client association.\<close>

lemma dispatch_client:
  "dispatch_code (word_of_int M_CLNT) m =
    (if m = word_of_int M_SERV then Inr PROC
     else if m \<in> {1, 2, 3, 5} then Inr DSCRD else Inl (Index_OOB Dispatch_Table))"
proof -
  have "unat (ucast m - 1 :: u32) = (if m = 0 then 4294967295 else unat m - 1)"
  proof (cases "m = 0")
    case False
    then have "1 \<le> unat m" "unat m < 256" using unsigned_less [where 'a = nat, of m] by (simp_all add: Suc_leI unat_gt_0)
    then have "unat (ucast m :: u32) = unat m" by (simp add: unsigned_ucast_eq take_bit_nat_eq_self)
    then show ?thesis using False \<open>1 \<le> unat m\<close>
      by (simp add: unat_sub_if' word_le_nat_alt)
  qed (simp add: unsigned_minus_1_eq_mask mask_eq_exp_minus_1)
  then have row: "dispatch_code (word_of_int M_CLNT) m =
      idx Dispatch_Table [DSCRD, DSCRD, DSCRD, PROC, DSCRD] (if m = 0 then 4294967295 else unat m - 1)"
    by (simp add: dispatch_code_def dispatch_table_def idx_def)
  show ?thesis
  proof (cases "m = 0 \<or> 5 < unat m")
    case True
    then have "m \<noteq> 1" "m \<noteq> 2" "m \<noteq> 3" "m \<noteq> 4" "m \<noteq> 5" by auto
    with True show ?thesis unfolding row by (auto simp: idx_def)
  next
    case False
    then have "0 < unat m" "unat m \<le> 5" by (simp_all add: unat_gt_0)
    then have "unat m = 1 \<or> unat m = 2 \<or> unat m = 3 \<or> unat m = 4 \<or> unat m = 5" by linarith
    then have "m = 1 \<or> m = 2 \<or> m = 3 \<or> m = 4 \<or> m = 5"
      by (simp add: word_unat_eq_iff)
    then show ?thesis unfolding row by auto
  qed
qed

lemma dispatch_bad_mode:
  assumes "m \<notin> {1, 2, 3, 4, 5}"
  shows "dispatch_code h m = Inl (Index_OOB Dispatch_Table)"
proof -
  have "dispatch_code (word_of_int M_CLNT) m = Inl (Index_OOB Dispatch_Table)"
    unfolding dispatch_client using assms by auto
  then have "5 \<le> unat (ucast m - 1 :: u32)"
    by (simp add: dispatch_code_def dispatch_table_def idx_def split: if_splits)
  moreover have "length row = 5" if "row \<in> set dispatch_table" for row
    using that by (auto simp: dispatch_table_def)
  ultimately have "idx Dispatch_Table row (unat (ucast m - 1 :: u32)) = Inl (Index_OOB Dispatch_Table)" if "row \<in> set dispatch_table" for row
    using that by (simp add: idx_def)
  then show ?thesis by (simp add: dispatch_code_def idx_def [of Dispatch_Table dispatch_table])
qed

lemma check_packet_okay:
  assumes ok: "okay b ips w" and p: "p \<in> set (w_peers w)" and e: "qsort_ok e" and b: "b < t_max"
    and r: "packet_sane e r" and S: "{Hang Sqrt_Loop, Exit 0, Signed_Overflow} \<subseteq> S"
  shows "outc S (okay (b + 1) ips) (check_packet e p r A_NONE w)"
proof (cases "is_zero_time (r_xmt r) \<or>
    unix_seconds (r_xmt r) = unix_seconds (p_xmt (peer w p)) \<and> lo32 (r_xmt r) = lo32 (p_xmt (peer w p))")
  case True
  then show ?thesis using okayD [OF ok p] okay_mono [OF ok] by (auto simp: check_packet_def)
next
  case False
  let ?f = "\<lambda>q. q\<lparr>p_org := r_xmt r, p_rec := r_dst r\<rparr>"
  let ?w = "set_peer p (?f (peer w p)) w"
  note v = okayD [OF ok p]
  have w1: "okay b ips ?w" by (rule okay_set_peer [OF ok p]) (use v(2) in \<open>simp_all add: peer_ok_def\<close>)
  have p1: "p \<in> set (w_peers ?w)" using p by simp
  have auth: "AUTH (p_keyid (peer w p) \<noteq> 0 \<or> p_flags (peer w p) AND P_NOTRUST \<noteq> 0) A_NONE"
    using v(2) by (simp add: peer_ok_def AUTH_def)
  have "outc S (okay (b + 1) ips) (packet e p r ?w)"
    using outc_weaken [OF packet_okay [OF w1 p1 e b r] S] by blast
  then show ?thesis using False v(1) auth okay_mono [OF w1, of "b + 1"] by (auto simp: check_packet_def)
qed

lemma receive_okay:
  assumes ok: "okay b ips w" and e: "qsort_ok e" and b: "b < t_max"
    and r: "r_mode r = word_of_int M_SERV \<Longrightarrow> packet_sane e r"
    and known: "r_mode r \<in> {1, 2, 3, 4, 5} \<Longrightarrow> r_srcaddr r \<in> set ips"
  shows "outc ({Hang Sqrt_Loop, Exit 0, Signed_Overflow} \<union> (if r_mode r \<in> {1, 2, 3, 4, 5} then {} else {Index_OOB Dispatch_Table}))
    (okay (b + 1) ips) (receive e r w)" (is "outc ?S ?Q _")
proof -
  have c: "client_ok w" and tab: "table_ok w" and a: "addrs w = ips"
    using ok by (simp_all add: okay_def client_ok_def)
  have b1: "okay (b + 1) ips w" using okay_mono [OF ok] by simp
  define p where "p = (case List.find (\<lambda>p. p_srcaddr (peer w p) = r_srcaddr r) (w_peers w) of
    None \<Rightarrow> NULL | Some p \<Rightarrow> p)"
  have find: "find_assoc e r w = Inr p" using find_assoc_list [OF tab] by (simp add: p_def)
  show ?thesis
  proof (cases "r_version r > word_of_int VERSION")
    case True
    then show ?thesis using b1 by (simp add: receive_def access_def)
  next
    case version: False
    have eq: "receive e r w = bind_r (load e w p) (\<lambda>q. bind_r (dispatch_code (p_hmode q) (r_mode r)) (\<lambda>code.
        bind_r (dispatch_packet e p r A_NONE code w) (\<lambda>(next, w).
          case next of None \<Rightarrow> Inr w | Some p \<Rightarrow> check_packet e p r A_NONE w)))"
      using version find by (simp add: receive_def access_def authenticate_def)
    show ?thesis
    proof (cases "r_mode r \<in> {1, 2, 3, 4, 5}")
      case False
      have "p = NULL \<or> p \<in> set (w_peers w)"
        using find_assoc_valid [OF tab find] by blast
      then obtain q where q: "load e w p = Inr q" using client_valid [OF c] by fastforce
      have "dispatch_code (p_hmode q) (r_mode r) = Inl (Index_OOB Dispatch_Table)" using False by (rule dispatch_bad_mode)
      then show ?thesis using False q by (simp add: eq)
    next
      case True
      have "r_srcaddr r \<in> set (map (\<lambda>p. p_srcaddr (peer w p)) (w_peers w))"
        using known [OF True] a by (simp add: addrs_def)
      then have p: "p \<in> set (w_peers w)"
        by (auto simp: p_def find_None_iff split: option.split dest: find_SomeD)
      note v = okayD [OF ok p]
      have hm: "p_hmode (peer w p) = word_of_int M_CLNT" using v(2) by (simp add: peer_ok_def)
      show ?thesis
      proof (cases "r_mode r = word_of_int M_SERV")
        case serv: True
        have "outc ?S ?Q (check_packet e p r A_NONE w)" by (rule check_packet_okay [OF ok p e b r [OF serv]]) simp
        then show ?thesis using serv v(1) hm
          by (simp add: eq dispatch_client [simplified] dispatch_packet_def)
      next
        case False
        then show ?thesis using True v(1) hm b1
          by (auto simp: eq dispatch_client [simplified] dispatch_packet_def)
      qed
    qed
  qed
qed

section \<open>Exchanges\<close>

lemma okay_frame:
  assumes "w_heap w' = w_heap w" and "w_peers w' = w_peers w" and "w_size w' = w_size w"
    and "s_m (w_s w') = s_m (w_s w)" and "s_v (w_s w') = s_v (w_s w)" and "s_p (w_s w') = s_p (w_s w)"
    and "s_poll (w_s w') = s_poll (w_s w)" and "s_precision (w_s w') = s_precision (w_s w)"
    and "c_count (w_c w') = c_count (w_c w)" and "uint (c_t (w_c w')) \<le> b" and "okay b0 ips w"
  shows "okay b ips w'"
proof -
  have "sys_ok w' = sys_ok w" by (rule sys_ok_cong) (rule assms)+
  then have "client_ok w' = client_ok w" by (intro client_ok_cong) (rule assms | assumption)+
  moreover have "addrs w' = addrs w" by (rule addrs_frame) (rule assms)+
  ultimately show ?thesis using assms(10,11) by (simp add: okay_def)
qed

lemma okay_gettime [simp]: "okay b ips w \<Longrightarrow> okay b ips (gettime e v w)"
  by (rule okay_frame) (simp_all add: okay_def)

lemma recv_packet_count: "c_count (w_c (snd (recv_packet e w))) = c_count (w_c w)"
  by (auto simp: recv_packet_def prv_create_ntp_r_def Let_def split: prod.splits)

lemma recv_okay: "okay b ips w \<Longrightarrow> okay b ips (snd (recv_packet e w))"
  by (rule okay_frame) (simp_all add: recv_packet_frame recv_packet_count okay_def)

lemma recv_source:
  "r_mode (fst (recv_packet e w)) \<in> {1, 2, 3, 4, 5} \<Longrightarrow> r_srcaddr (fst (recv_packet e w)) = w_ip w"
  by (auto simp: recv_packet_def prv_create_ntp_r_def zero_r_def Let_def split: prod.splits if_splits)

text \<open>If the packet received next is a server's answer, its dispersion is sane.\<close>

definition answer_sane :: "env \<Rightarrow> world \<Rightarrow> bool" where
  "answer_sane e w \<longleftrightarrow> (r_mode (fst (recv_packet e w)) = word_of_int M_SERV \<longrightarrow>
     packet_sane e (fst (recv_packet e w)))"

lemma exchange_okay:
  assumes "okay b ips w" and "qsort_ok e" and "b < t_max" and "answer_sane e w" and "w_ip w \<in> set ips"
  shows "outc {Hang Sqrt_Loop, Exit 0, Signed_Overflow, Index_OOB Dispatch_Table} (okay (b + 1) ips)
    (receive e (fst (recv_packet e w)) (snd (recv_packet e w)))"
  by (rule outc_weaken [OF receive_okay [OF recv_okay [OF assms(1)] assms(2,3)]])
    (use assms(4,5) recv_source [of e w] in \<open>auto simp: answer_sane_def\<close>)

lemma xmit_okay:
  assumes ok: "okay b ips w"
  shows "outc {} (\<lambda>(x', w'). okay b ips w' \<and> w_ip w' = w_ip w \<and> w_peers w' = w_peers w) (xmit_packet e x w)"
proof -
  let ?v = "gettime e 0 (w\<lparr>w_dest := w_ip w\<rparr>)"
  have d: "okay b ips (w\<lparr>w_dest := w_ip w\<rparr>)" using ok by (rule okay_frame [rotated -1]) (use ok in \<open>simp_all add: okay_def\<close>)
  then have v: "okay b ips ?v" by simp
  have tab: "table_ok ?v" using v by (simp add: okay_def client_ok_def)
  have sent: "okay b ips (u\<lparr>w_sent := l\<rparr>)" if "okay b ips u" for u l
    using that by (rule okay_frame [rotated -1]) (use that in \<open>simp_all add: okay_def\<close>)
  let ?f = "\<lambda>m. List.find (\<lambda>p. p_srcaddr (peer ?v p) = w_ip w \<and> p_hmode (peer ?v p) = m) (w_peers ?v)"
  show ?thesis
  proof (cases "?f (x_mode x)")
    case None
    then show ?thesis using assoc_table_add_list [OF tab] sent [OF v] by (simp add: xmit_packet_def Let_def)
  next
    case (Some p)
    then have p: "p \<in> set (w_peers ?v)" by (blast dest: find_SomeD)
    have "okay b ips (set_peer p ((peer ?v p)\<lparr>p_xmt := t\<rparr>) ?v)" for t
      using okayD(2) [OF v p] by (intro okay_set_peer [OF v p]) (simp_all add: peer_ok_def)
    then show ?thesis using Some assoc_table_add_list [OF tab] sent by (simp add: xmit_packet_def Let_def)
  qed
qed

lemma peer_xmit_okay:
  assumes ok: "okay b ips w" and p: "p \<in> set (w_peers w)"
  shows "outc {} (\<lambda>w'. okay b ips w' \<and> w_ip w' \<in> set ips \<and> w_peers w' = w_peers w) (peer_xmit e p w)"
proof -
  let ?w = "w\<lparr>w_ip := p_srcaddr (peer w p)\<rparr>"
  let ?g = "gettime e 0 ?w" and ?f = "\<lambda>q. q\<lparr>p_xmt := c_t (w_c w)\<rparr>"
  note v = okayD [OF ok p]
  have ip: "p_srcaddr (peer w p) \<in> set ips" using ok p by (auto simp: okay_def addrs_def)
  have "okay b ips ?w" using ok by (rule okay_frame [rotated -1]) (use ok in \<open>simp_all add: okay_def\<close>)
  then have g: "okay b ips ?g" by simp
  have pg: "p \<in> set (w_peers ?g)" using p by simp
  have u: "okay b ips (set_peer p (?f (peer w p)) ?g)"
    using v(2) by (intro okay_set_peer [OF g pg]) (simp_all add: peer_ok_def)
  have x: "outc {} (\<lambda>(x', w'). okay b ips w' \<and> w_ip w' = p_srcaddr (peer w p) \<and> w_peers w' = w_peers w)
      (xmit_packet e x (set_peer p (?f (peer w p)) ?g))" for x
    using xmit_okay [OF u, of e x] by simp
  have "outc {} (\<lambda>w'. okay b ips w' \<and> w_ip w' \<in> set ips \<and> w_peers w' = w_peers w)
      (bind_r (xmit_packet e x (set_peer p (?f (peer w p)) ?g)) (\<lambda>(x, w). Inr w))" for x
    by (rule outc_bind [OF x]) (use ip in auto)
  then show ?thesis using v(1) by (simp add: peer_xmit_def Let_def)
qed

section \<open>Polling\<close>

lemma poll_quiet_okay:
  assumes ok: "okay b ips w" and p: "p \<in> set (w_peers w)" and e: "qsort_ok e" and b: "b < t_max"
  shows "outc {Hang Sqrt_Loop, Exit 0} (\<lambda>(h, w'). okay (b + 1) ips w' \<and> p \<in> set (w_peers w')) (poll_quiet e p hpoll w)"
proof -
  let ?f = "\<lambda>q. q\<lparr>p_outdate := i32 (uint (c_t (w_c w))), p_reach := i32 (p_reach q * 2)\<rparr>"
  let ?w = "set_peer p (?f (peer w p)) w"
  note v = okayD [OF ok p]
  have w1: "okay b ips ?w" by (rule okay_set_peer [OF ok p]) (use v(2) in \<open>simp_all add: peer_ok_def\<close>)
  have p1: "p \<in> set (w_peers ?w)" using p by simp
  note v1 = okayD [OF w1 p1]
  have filter: "outc {Hang Sqrt_Loop, Exit 0} (\<lambda>w'. okay (b + 1) ips w' \<and> p \<in> set (w_peers w'))
      (if p_reach (peer ?w p) AND 7 = 0
       then clock_filter e p (dbl_of_int 0) (dbl_of_int 0) (dbl_of_int MAXDISP) ?w else Inr ?w)"
    using clock_filter_okay [OF w1 p1 e b, of "dbl_of_int 0" "dbl_of_int 0" "dbl_of_int MAXDISP"]
      okay_mono [OF w1, of "b + 1"] p
    by (simp add: dbl_of_int_exact zero_dbl_def repr_def)
  have last: "outc {Hang Sqrt_Loop, Exit 0} (\<lambda>(h, w'). okay (b + 1) ips w' \<and> p \<in> set (w_peers w'))
      (bind_r (load e u p) (\<lambda>q.
         let (hpoll, q) = (if p_reach q = 0 then poll_unreachable hpoll q else poll_reachable e u q)
         in bind_r (store p q u) (\<lambda>w. Inr (hpoll, w))))"
    if u: "okay (b + 1) ips u \<and> p \<in> set (w_peers u)" for u
  proof -
    have uo: "okay (b + 1) ips u" and up: "p \<in> set (w_peers u)" using u by simp_all
    note vu = okayD [OF uo up]
    obtain h q where q: "(if p_reach (peer u p) = 0 then poll_unreachable hpoll (peer u p)
        else poll_reachable e u (peer u p)) = (h, q)" by fastforce
    have "peer_ok q \<and> p_srcaddr q = p_srcaddr (peer u p)"
      using q vu(2)
      by (auto simp: poll_unreachable_def poll_reachable_def peer_ok_def Let_def split: if_splits)
    then have "okay (b + 1) ips (set_peer p q u)" by (intro okay_set_peer [OF uo up]) simp_all
    then show ?thesis using vu(1) up by (simp add: q)
  qed
  have eq: "poll_quiet e p hpoll w = bind_r (if p_reach (peer ?w p) AND 7 = 0
       then clock_filter e p (dbl_of_int 0) (dbl_of_int 0) (dbl_of_int MAXDISP) ?w else Inr ?w) (\<lambda>u.
      bind_r (load e u p) (\<lambda>q.
         let (hpoll, q) = (if p_reach q = 0 then poll_unreachable hpoll q else poll_reachable e u q)
         in bind_r (store p q u) (\<lambda>w. Inr (hpoll, w))))"
    using v(1) by (simp add: poll_quiet_def)
  show ?thesis unfolding eq by (rule outc_bind [OF filter last])
qed

lemma poll_okay:
  assumes ok: "okay b ips w" and p: "p \<in> set (w_peers w)" and e: "qsort_ok e" and b: "b + 1 < t_max"
  shows "outc {Hang Sqrt_Loop, Exit 0} (\<lambda>w'. okay (b + 1) ips w' \<and> w_ip w' \<in> set ips) (poll e p w)"
proof -
  note v = okayD [OF ok p]
  have h: "p_hmode (peer w p) = 3" "p_flags (peer w p) = 0" "p_burst (peer w p) = 0"
    using v(2) by (simp_all add: peer_ok_def)
  have eq: "poll e p w = bind_r (poll_quiet e p (uint (p_hpoll (peer w p))) w) (\<lambda>(hpoll, w).
      bind_r (load e w p) (\<lambda>q. bind_r (if p_hmode q \<noteq> word_of_int M_BCLN then peer_xmit e p w else Inr w)
        (\<lambda>w. poll_update e p hpoll w)))"
    using v(1) h by (simp add: poll_def Let_def)
  have "b < t_max" using b by simp
  note quiet = poll_quiet_okay [OF ok p e this]
  show ?thesis
    unfolding eq
  proof (rule outc_bind [OF quiet])
    fix x :: "int \<times> world" assume x: "case x of (h, w') \<Rightarrow> okay (b + 1) ips w' \<and> p \<in> set (w_peers w')"
    obtain hp u where hu: "x = (hp, u)" by (cases x)
    with x have uo: "okay (b + 1) ips u" and up: "p \<in> set (w_peers u)" by simp_all
    note vu = okayD [OF uo up]
    have "p_hmode (peer u p) = 3" using vu(2) by (simp add: peer_ok_def)
    moreover have "outc {Hang Sqrt_Loop, Exit 0} (\<lambda>w'. okay (b + 1) ips w' \<and> w_ip w' \<in> set ips)
        (bind_r (peer_xmit e p u) (\<lambda>w. poll_update e p hp w))"
    proof (rule outc_bind [OF outc_weaken [OF peer_xmit_okay [OF uo up]]])
      fix y assume y: "okay (b + 1) ips y \<and> w_ip y \<in> set ips \<and> w_peers y = w_peers u"
      then have yo: "okay (b + 1) ips y" and yp: "p \<in> set (w_peers y)" using up by simp_all
      show "outc {Hang Sqrt_Loop, Exit 0} (\<lambda>w'. okay (b + 1) ips w' \<and> w_ip w' \<in> set ips) (poll_update e p hp y)"
        by (rule outc_weaken [OF poll_update_okay [OF yo yp b]]) (use y in auto)
    qed auto
    ultimately show "outc {Hang Sqrt_Loop, Exit 0} (\<lambda>w'. okay (b + 1) ips w' \<and> w_ip w' \<in> set ips)
      (case x of (hpoll, w) \<Rightarrow> bind_r (load e w p) (\<lambda>q.
        bind_r (if p_hmode q \<noteq> word_of_int M_BCLN then peer_xmit e p w else Inr w) (\<lambda>w. poll_update e p hpoll w)))"
      using vu(1) by (simp add: hu)
  qed
qed

text \<open>The polls of a turn lead to a sane answer.\<close>

definition turn_sane :: "env \<Rightarrow> nat \<Rightarrow> world \<Rightarrow> bool" where
  "turn_sane e i w \<longleftrightarrow> (case poll e (w_peers w ! i) w of Inl er \<Rightarrow> True | Inr u \<Rightarrow> answer_sane e u)"

lemma poll_turn_okay:
  assumes ok: "okay b ips w" and i: "i < NMAX" and e: "qsort_ok e" and b: "b + 2 < t_max"
    and sane: "turn_sane e i w"
  shows "outc {Hang Sqrt_Loop, Exit 0, Signed_Overflow, Index_OOB Dispatch_Table} (\<lambda>(r', w'). okay (b + 2) ips w') (poll_turn e i (r, w))"
proof -
  let ?p = "w_peers w ! i"
  let ?S = "{Hang Sqrt_Loop, Exit 0, Signed_Overflow, Index_OOB Dispatch_Table}"
  have len: "length (w_peers w) = NMAX" using ok by (simp add: okay_def client_ok_def)
  then have p: "?p \<in> set (w_peers w)" using i by simp
  note v = okayD [OF ok p]
  have b1: "b + 1 < t_max" using b by simp
  have mono: "okay (b + 2) ips w" using okay_mono [OF ok] by simp
  have "outc ?S (\<lambda>(r', w'). okay (b + 2) ips w')
      (bind_r (poll e ?p w) (\<lambda>w. let (r, w) = recv_packet e w in bind_r (receive e r w) (\<lambda>w. Inr (r, w))))"
  proof (cases "poll e ?p w")
    case (Inl er)
    then show ?thesis using poll_okay [OF ok p e b1] by auto
  next
    case (Inr u)
    then have u: "okay (b + 1) ips u" "w_ip u \<in> set ips" and s: "answer_sane e u"
      using poll_okay [OF ok p e b1] sane by (simp_all add: turn_sane_def)
    have x: "outc ?S (okay (b + 1 + 1) ips) (receive e (fst (recv_packet e u)) (snd (recv_packet e u)))"
      using exchange_okay [OF u(1) e b1 s u(2)] .
    have "outc ?S (\<lambda>(r', w'). okay (b + 2) ips w')
        (bind_r (receive e (fst (recv_packet e u)) (snd (recv_packet e u))) (\<lambda>w. Inr (fst (recv_packet e u), w)))"
      by (rule outc_bind [OF x]) (simp add: add.assoc)
    then show ?thesis using Inr by (simp add: case_prod_beta Let_def)
  qed
  then show ?thesis using v(1) i len mono by (simp add: poll_turn_def table_at_def Let_def)
qed

lemma adjust_phase_okay:
  assumes "okay b ips w"
  shows "okay (b + 1) ips (adjust_phase e w)"
proof (rule okay_frame [OF _ _ _ _ _ _ _ _ _ _ assms])
  have "uint (c_t (w_c w) + 1) \<le> b + 1"
    using assms by (intro uint_step [of _ "c_t (w_c w)"]) (simp_all add: okay_def)
  then show "uint (c_t (w_c (adjust_phase e w))) \<le> b + 1" by (simp add: adjust_phase_def Let_def adjust_time_def)
qed (simp_all add: adjust_phase_def Let_def adjust_time_def)

section \<open>Properties\<close>

text \<open>C2: receive() is safe. On a sound client whose process time is below 2^31 - 1, for a packet
  that comes, when its mode is one of the five packet modes, from a configured server, and whose
  dispersion is not negative, when it is a server's answer, receive() either returns a sound client (the table still holds the same
  servers, every pointer is live, the values are in range, and the process time moved by at most
  one), or it stops by a panic exit, by a sqrt() that does not return or by the signed overflow of
  the offset sum, or, exactly for a mode outside 1 to 5, by the access outside the dispatch table.
  It never stores through null nor uses a freed association.\<close>

theorem receive_safe:
  assumes "okay b ips w" and "qsort_ok e" and "b < 2147483647"
    and "r_mode r = 4 \<Longrightarrow> packet_sane e r"
    and "r_mode r \<in> {1, 2, 3, 4, 5} \<Longrightarrow> r_srcaddr r \<in> set ips"
  shows "case receive e r w of
      Inr w' \<Rightarrow> okay (b + 1) ips w'
    | Inl er \<Rightarrow> er \<in> {Hang Sqrt_Loop, Exit 0, Signed_Overflow} \<or> er = Index_OOB Dispatch_Table \<and> r_mode r \<notin> {1, 2, 3, 4, 5}"
  using receive_okay [of b ips w e r] assms by (auto simp: outc_def split: sum.splits if_splits)

text \<open>A sound client: five unsynchronised associations of one server, in client mode.\<close>

definition client_peer :: ntp_p where
  "client_peer = zero_p\<lparr>p_hmode := 3, p_srcaddr := 7, p_leap := 3, p_stratum := 16\<rparr>"

lemma client_world_okay: "okay 0 [7, 7, 7, 7, 7] (demo_world client_peer)"
  by (simp add: okay_def client_ok_def addrs_def peer_ok_def stage_ok_def client_peer_def zero_p_def
      zero_f_def zero_dbl_def repr_def table_ok_def zero_c_def zero_s_def)

theorem receive_safe_witness:
  "case receive demo_env (zero_r\<lparr>r_mode := 4, r_srcaddr := 7, r_xmt := 9\<rparr>) (demo_world client_peer) of
      Inr w' \<Rightarrow> okay 1 [7, 7, 7, 7, 7] w'
    | Inl er \<Rightarrow> er \<in> {Hang Sqrt_Loop, Exit 0, Signed_Overflow}"
proof -
  have "packet_sane demo_env (zero_r\<lparr>r_mode := 4, r_srcaddr := 7, r_xmt := 9\<rparr>)"
    by (simp add: packet_sane_def zero_r_def LOG2D_nonneg_exp zero_dbl_def subtract_uint64_t_eq)
  from receive_safe [OF client_world_okay demo_qsort_ok _ this] show ?thesis
    by (simp add: zero_r_def split: sum.splits)
qed

end
