(* ===== verification/Loop.thy ===== *)
theory Loop
  imports Client
begin

text \<open>
  The loops of the client as transition systems. A loop is a function \<open>next\<close> from a state to the
  outcome of one step; \<open>runs next n s t\<close> says that n steps lead from s to t. The locale
  \<open>timed_machine\<close> is the interface of a loop whose steps keep an invariant with a clock bound, and
  it is interpreted on the polling loop of clock_adjust() (src/src/NTP_vfo.c), called for ever by
  the client task, with one step for each phase adjustment and one for each association.
\<close>

section \<open>Runs\<close>

inductive runs :: "('s \<Rightarrow> 's outcome) \<Rightarrow> nat \<Rightarrow> 's \<Rightarrow> 's \<Rightarrow> bool" for next_of where
  none: "runs next_of 0 s s"
| more: "runs next_of n s t \<Longrightarrow> next_of t = Inr u \<Longrightarrow> runs next_of (Suc n) s u"

inductive_simps runs_0 [simp]: "runs f 0 s t"
inductive_simps runs_Suc: "runs f (Suc n) s t"

lemma runs_Suc_left: "runs f (Suc n) s t \<longleftrightarrow> (\<exists>u. f s = Inr u \<and> runs f n u t)"
proof (induction n arbitrary: t)
  case (Suc n)
  show ?case by (subst runs_Suc, subst Suc) (auto simp: runs_Suc)
qed (auto simp: runs_Suc)

lemma runs_add: "runs f (m + n) s t \<longleftrightarrow> (\<exists>u. runs f m s u \<and> runs f n u t)"
  by (induction m arbitrary: s) (auto simp: runs_Suc_left)

text \<open>A run of a deterministic loop is determined by its length.\<close>

lemma runs_determ: "runs f n s t \<Longrightarrow> runs f n s u \<Longrightarrow> t = u"
proof (induction arbitrary: u rule: runs.induct)
  case (more n s t v)
  from more.prems obtain t' where "runs f n s t'" "f t' = Inr u" by (auto simp: runs_Suc)
  with more.IH more.hyps(2) show ?case by auto
qed simp

text \<open>A for loop is the run of its counter.\<close>

definition counted :: "(nat \<Rightarrow> 's \<Rightarrow> 's outcome) \<Rightarrow> nat \<times> 's \<Rightarrow> (nat \<times> 's) outcome" where
  "counted f = (\<lambda>(i, s). bind_r (f i s) (\<lambda>s. Inr (Suc i, s)))"

lemma counted_index: "runs (counted f) n (i, s) u \<Longrightarrow> fst u = i + n"
  by (induction n arbitrary: u) (auto simp: runs_Suc counted_def bind_r_Inr_conv)

lemma foldr_r_runs:
  "foldr_r f [i..<i + n] s = Inr t \<longleftrightarrow> runs (counted f) n (i, s) (i + n, t)"
proof (induction n arbitrary: i s)
  case (Suc n)
  have "[i..<i + Suc n] = i # [Suc i..<Suc i + n]" by (simp add: upt_rec)
  then show ?case using Suc [of "Suc i"]
    by (auto simp: runs_Suc_left counted_def bind_r_Inr_conv)
qed auto

lemma foldr_r_stops:
  "foldr_r f [i..<i + n] s = Inl er \<Longrightarrow> \<exists>m < n. \<exists>t. runs (counted f) m (i, s) t \<and> counted f t = Inl er"
proof (induction n arbitrary: i s)
  case (Suc n)
  have "[i..<i + Suc n] = i # [Suc i..<Suc i + n]" by (simp add: upt_rec)
  with Suc.prems have run: "bind_r (f i s) (foldr_r f [Suc i..<Suc i + n]) = Inl er" by simp
  show ?case
  proof (cases "f i s")
    case (Inl er')
    then show ?thesis using run by (intro exI [of _ 0]) (simp add: counted_def)
  next
    case (Inr u)
    with run Suc.IH [of "Suc i" u] obtain m t where "m < n" "runs (counted f) m (Suc i, u) t" "counted f t = Inl er"
      by auto
    moreover have "counted f (i, s) = Inr (Suc i, u)" using Inr by (simp add: counted_def)
    ultimately show ?thesis by (intro exI [of _ "Suc m"] conjI exI [of _ t]) (auto simp: runs_Suc_left)
  qed
qed simp

section \<open>The interface\<close>

text \<open>
  One step of the loop takes at most \<open>cost\<close> seconds of process time, stops only for the reasons
  S, and keeps the invariant, as long as the clock bound is below the limit and the input of the
  step is sane.
\<close>

locale timed_machine =
  fixes next_of :: "'s \<Rightarrow> 's outcome"
    and inv :: "int \<Rightarrow> 's \<Rightarrow> bool"
    and sane :: "'s \<Rightarrow> bool"
    and S :: "stop set"
    and cost :: int and limit :: int
  assumes step_inv: "inv b s \<Longrightarrow> b + cost \<le> limit \<Longrightarrow> sane s \<Longrightarrow> outc S (inv (b + cost)) (next_of s)"
    and cost_nonneg: "0 \<le> cost"
begin

lemma run_inv:
  assumes "runs next_of n s t" and "inv b s" and "b + int n * cost \<le> limit"
    and "\<And>m u. m < n \<Longrightarrow> runs next_of m s u \<Longrightarrow> sane u"
  shows "inv (b + int n * cost) t"
  using assms
proof (induction rule: runs.induct)
  case (more n s t u)
  have le: "b + int n * cost + cost \<le> limit" using more.prems(2) by (simp add: algebra_simps)
  then have "b + int n * cost \<le> limit" using cost_nonneg by linarith
  then have "inv (b + int n * cost) t" by (rule more.IH [OF more.prems(1)]) (rule more.prems(3), rule less_SucI)
  moreover have "sane t" using more.prems(3) [OF lessI more.hyps(1)] .
  ultimately have "outc S (inv (b + int n * cost + cost)) (next_of t)" using le by (intro step_inv)
  then show ?case using more.hyps(2) by (simp add: algebra_simps)
qed simp

lemma run_step:
  assumes "runs next_of n s t" and "inv b s" and "b + int n * cost + cost \<le> limit"
    and "\<And>m u. m \<le> n \<Longrightarrow> runs next_of m s u \<Longrightarrow> sane u"
  shows "inv (b + int n * cost) t \<and> outc S (inv (b + int n * cost + cost)) (next_of t)"
proof -
  have "inv (b + int n * cost) t"
    by (rule run_inv [OF assms(1,2)]) (use assms(3) cost_nonneg in simp, rule assms(4), rule less_imp_le)
  then show ?thesis using step_inv [OF _ assms(3) assms(4) [OF order_refl assms(1)]] by simp
qed

end

section \<open>The polling loop\<close>

text \<open>The place in the loop: before the next adjustment, or before the turn of association i.\<close>

datatype loop_pc = Tick | Turn nat

type_synonym loop_state = "loop_pc \<times> ntp_r \<times> world"

fun loop_next :: "env \<Rightarrow> loop_state \<Rightarrow> loop_state outcome" where
  "loop_next e (Tick, r, w) = Inr (Turn 0, r, adjust_phase e w)"
| "loop_next e (Turn i, r, w) =
     bind_r (poll_turn e i (r, w)) (\<lambda>rw. Inr (if Suc i < NMAX then Turn (Suc i) else Tick, rw))"

fun loop_inv :: "env \<Rightarrow> u32 list \<Rightarrow> int \<Rightarrow> loop_state \<Rightarrow> bool" where
  "loop_inv e ips b (pc, r, w) \<longleftrightarrow>
     qsort_ok e \<and> okay b ips w \<and> (case pc of Tick \<Rightarrow> True | Turn i \<Rightarrow> i < NMAX)"

text \<open>If the step is a turn that polls, the answer it receives is sane.\<close>

fun loop_sane :: "env \<Rightarrow> loop_state \<Rightarrow> bool" where
  "loop_sane e (Tick, r, w) = True"
| "loop_sane e (Turn i, r, w) = turn_sane e i w"

lemma loop_next_inv:
  assumes "loop_inv e ips b st" and "b + 2 \<le> 2147483646" and "loop_sane e st"
  shows "outc {Hang Sqrt_Loop, Exit 0, Signed_Overflow, Index_OOB Dispatch_Table} (loop_inv e ips (b + 2)) (loop_next e st)"
proof -
  obtain pc r w where st: "st = (pc, r, w)" by (cases st)
  have ok: "okay b ips w" and e: "qsort_ok e" using assms(1) by (simp_all add: st)
  show ?thesis
  proof (cases pc)
    case Tick
    then show ?thesis using okay_mono [OF adjust_phase_okay [OF ok]] e by (simp add: st)
  next
    case (Turn i)
    then have "outc {Hang Sqrt_Loop, Exit 0, Signed_Overflow, Index_OOB Dispatch_Table} (\<lambda>(r', w'). okay (b + 2) ips w') (poll_turn e i (r, w))"
      using assms by (intro poll_turn_okay [OF ok _ e]) (simp_all add: st)
    then show ?thesis unfolding st Turn loop_next.simps by (rule outc_bind) (use e in auto)
  qed
qed

interpretation loop: timed_machine "loop_next e" "loop_inv e ips" "loop_sane e"
    "{Hang Sqrt_Loop, Exit 0, Signed_Overflow, Index_OOB Dispatch_Table}" 2 2147483646 for e ips
  by unfold_locales (simp_all add: loop_next_inv)

lemma turns_foldr_r:
  assumes "k + n = NMAX" and "0 < n"
  shows "foldr_r (poll_turn e) [k..<NMAX] rw = Inr rw' \<longleftrightarrow> runs (loop_next e) n (Turn k, rw) (Tick, rw')"
  using assms
proof (induction n arbitrary: k rw)
  case (Suc n)
  have "[k..<NMAX] = k # [Suc k..<NMAX]" using Suc.prems by (simp add: upt_rec)
  moreover have "Suc k < NMAX \<longleftrightarrow> 0 < n" using Suc.prems by linarith
  moreover have "[Suc k..<NMAX] = []" if "n = 0" using Suc.prems that by simp
  ultimately show ?case using Suc.IH [of "Suc k"] Suc.prems
    by (cases rw; cases "n = 0") (auto simp: runs_Suc_left bind_r_Inr_conv)
qed simp

lemma clock_adjust_runs:
  "clock_adjust e r w = Inr rw' \<longleftrightarrow> runs (loop_next e) 6 (Tick, r, w) (Tick, rw')"
proof -
  have "runs (loop_next e) 6 (Tick, r, w) (Tick, rw') \<longleftrightarrow>
      runs (loop_next e) 5 (Turn 0, r, adjust_phase e w) (Tick, rw')"
    using runs_Suc_left [of "loop_next e" 5] by simp
  then show ?thesis using turns_foldr_r [of 0 5 e "(r, adjust_phase e w)"] by (simp add: clock_adjust_def)
qed

text \<open>
  Six steps after an adjustment comes the next one.
\<close>

lemma six_steps_tick:
  assumes "runs (loop_next e) 6 (Tick, r, w) (pc, rw')"
  shows "pc = Tick"
proof -
  have "(6 :: nat) = Suc (Suc (Suc (Suc (Suc (Suc 0)))))" by simp
  from assms [unfolded this] show ?thesis
    by (auto simp: runs_Suc_left bind_r_Inr_conv)
qed

text \<open>The endless loop: \<open>n\<close> turns of clock_adjust().\<close>

fun task_loop :: "env \<Rightarrow> nat \<Rightarrow> ntp_r \<times> world \<Rightarrow> (ntp_r \<times> world) outcome" where
  "task_loop e 0 rw = Inr rw"
| "task_loop e (Suc n) rw = bind_r (clock_adjust e (fst rw) (snd rw)) (task_loop e n)"

text \<open>n rounds of clock_adjust() give a result exactly when 6n steps of the polling loop, one
  adjustment and five turns in each round, lead to it.\<close>

lemma task_loop_runs:
  "task_loop e n (r, w) = Inr rw' \<longleftrightarrow> runs (loop_next e) (6 * n) (Tick, r, w) (Tick, rw')"
proof (induction n arbitrary: r w)
  case (Suc n)
  have "task_loop e (Suc n) (r, w) = Inr rw' \<longleftrightarrow>
      (\<exists>r1 w1. runs (loop_next e) 6 (Tick, r, w) (Tick, r1, w1) \<and>
        runs (loop_next e) (6 * n) (Tick, r1, w1) (Tick, rw'))"
    using Suc by (auto simp: bind_r_Inr_conv clock_adjust_runs)
  also have "\<dots> \<longleftrightarrow> runs (loop_next e) (6 + 6 * n) (Tick, r, w) (Tick, rw')"
    using six_steps_tick [of e r w] by (fastforce simp: runs_add)
  finally show ?case by simp
qed auto

section \<open>Properties\<close>

text \<open>C1: the running client is safe at every step. Take a sound client (five live client
  associations of the configured servers, values in range) and any number n of steps of the
  polling loop whose clock bound stays below 2^31 - 1, with a qsort() that sorts by the total
  preorders it is given, and with server answers that are sane: the precision exponent gives a power
  of two that is not negative, and the origin timestamp is less than 2^31 s from the arrival. The
  client is sound again; its process time has advanced by at most two seconds a step; and the next
  step also leads to a sound client or stops in a panic exit, in a sqrt() that does not return, in the
  overflow of the offset sum or at the access outside the dispatch table. No other stop is possible:
  no store through null, no use of a freed association, no index outside the association table, the
  chime list, the survivor list or the server addresses, and no other endless loop.\<close>

theorem client_loop_safe:
  assumes "qsort_ok e" and "okay b ips w" and "b + int n * 2 + 2 \<le> 2147483646"
    and "runs (loop_next e) n (Tick, r, w) (pc, r', w')"
    and "\<And>m u. m \<le> n \<Longrightarrow> runs (loop_next e) m (Tick, r, w) u \<Longrightarrow> loop_sane e u"
  shows "okay (b + int n * 2) ips w' \<and>
    (case loop_next e (pc, r', w') of
       Inr (pc2, r2, w2) \<Rightarrow> okay (b + int n * 2 + 2) ips w2
     | Inl er \<Rightarrow> er \<in> {Hang Sqrt_Loop, Exit 0, Signed_Overflow, Index_OOB Dispatch_Table})"
proof -
  have "loop_inv e ips b (Tick, r, w)" using assms(1,2) by simp
  from loop.run_step [OF assms(4) this assms(3,5)] show ?thesis
    by (auto simp: outc_def split: sum.splits prod.splits)
qed

text \<open>A socket that times out delivers sane packets.\<close>

lemma demo_answers: "answer_sane demo_env w"
  by (simp add: answer_sane_def recv_packet_def demo_env_def zero_r_def)

lemma demo_loop_sane: "loop_sane demo_env st"
  by (cases "(demo_env, st)" rule: loop_sane.cases) (simp_all add: turn_sane_def demo_answers split: sum.splits)

theorem client_loop_safe_witness:
  "okay 2 [7, 7, 7, 7, 7] (adjust_phase demo_env (demo_world client_peer)) \<and>
    (case loop_next demo_env (Turn 0, zero_r, adjust_phase demo_env (demo_world client_peer)) of
       Inr (pc2, r2, w2) \<Rightarrow> okay 4 [7, 7, 7, 7, 7] w2
     | Inl er \<Rightarrow> er \<in> {Hang Sqrt_Loop, Exit 0, Signed_Overflow, Index_OOB Dispatch_Table})"
proof -
  have run: "runs (loop_next demo_env) 1 (Tick, zero_r, demo_world client_peer)
      (Turn 0, zero_r, adjust_phase demo_env (demo_world client_peer))"
    by (simp add: runs_Suc)
  have num: "(0 :: int) + int 1 * 2 = 2" "(2 :: int) + 2 = 4" "(4 :: int) \<le> 2147483646" by simp_all
  show ?thesis
    using client_loop_safe [OF demo_qsort_ok client_world_okay _ run demo_loop_sane, unfolded num, OF num(3)] .
qed

end
