(* ===== verification/Task.thy ===== *)
theory Task
  imports Loop
begin

text \<open>
  The client task of src/src/NTPTask.c: the name resolution with its retries, the initialisation
  of the transmit structure, the system and clock structures and the association table, the first
  setting of the time, one exchange with each server, and the endless loop of clock_adjust().
  The record \<open>net_api\<close> holds what the network stack supplies: whether the socket is created, the
  answers of FreeRTOS_gethostbyname() (one per call, by number and name), the byte-order macro
  FreeRTOS_htons and two constants of its headers.
\<close>

section \<open>Name resolution\<close>

record sockaddr =
  sin_family :: int
  sin_port :: "16 word"
  sin_len :: int

record net_api =
  n_socket :: bool
  n_gethostbyname :: "nat \<Rightarrow> string \<Rightarrow> u32"
  n_htons :: "16 word \<Rightarrow> 16 word"
  n_AF_INET4 :: int
  n_sizeof_sockaddr :: int

definition host_names :: "string list" where
  "host_names = [''sth1.ntp.se'', ''sth2.ntp.se'', ''svl1.ntp.se'', ''mmo1.ntp.se'', ''lul1.ntp.se'']"

text \<open>The retries for one host: \<open>tries\<close> are left, \<open>n\<close> counts the calls. Zero is a failed lookup.\<close>

fun lookup_host :: "(nat \<Rightarrow> string \<Rightarrow> u32) \<Rightarrow> string \<Rightarrow> nat \<Rightarrow> nat \<Rightarrow> u32 \<times> bool \<times> nat" where
  "lookup_host dns name 0 n = (0, False, n)"
| "lookup_host dns name (Suc tries) n =
     (let ip = dns n name
      in if ip = 0 then lookup_host dns name tries (Suc n) else (ip, True, Suc n))"

text \<open>The loop over the hosts; a host that fails ten times ends the function at once.\<close>

fun lookup_all :: "(nat \<Rightarrow> string \<Rightarrow> u32) \<Rightarrow> string list \<Rightarrow> nat \<Rightarrow> u32 list \<Rightarrow> u32 list \<times> bool" where
  "lookup_all dns [] n ips = (ips, True)"
| "lookup_all dns (name # names) n ips =
     (case lookup_host dns name 10 n of (ip, found, n) \<Rightarrow>
        if found then lookup_all dns names n (ips @ [ip]) else (ips @ [ip], False))"

text \<open>
  A socket that cannot be created fails the assertion, which loops for ever. The array of the
  addresses starts with zeros; the destination is set up only when every host was found.
\<close>

definition init_network_and_DNS ::
    "net_api \<Rightarrow> string list \<Rightarrow> (u32 list \<times> sockaddr option) outcome" where
  "init_network_and_DNS api pcHostNames =
     (if \<not> n_socket api then Inl (Hang Assert_Loop)
      else case lookup_all (n_gethostbyname api) pcHostNames 0 [] of (ips, found) \<Rightarrow>
        Inr (ips @ replicate (NMAX - length ips) 0,
             if found
             then Some \<lparr>sin_family = n_AF_INET4 api, sin_port = n_htons api 123,
                    sin_len = n_sizeof_sockaddr api\<rparr>
             else None))"

section \<open>Initialisation\<close>

definition init_x :: ntp_x where
  "init_x = zero_x\<lparr>x_version := word_of_int VERSION, x_mode := word_of_int MODE,
     x_stratum := word_of_int MAXSTRAT, x_poll := word_of_int MINPOLL, x_precision := - 18\<rparr>"

definition init_s :: ntp_s where
  "init_s = zero_s\<lparr>s_leap := word_of_int NOSYNC, s_stratum := word_of_int MAXSTRAT,
     s_poll := word_of_int MINPOLL, s_precision := - 18\<rparr>"

text \<open>
  FREQ_EXISTS is 1: the frequency is set to the tick rate and the clock starts in the state FSET.
\<close>

definition init_clock :: "env \<Rightarrow> world \<Rightarrow> world" where
  "init_clock e w =
     (let w = w\<lparr>w_s := init_s, w_c := zero_c\<lparr>c_lastTimeStampTick := 0\<rparr>\<rparr>;
          w = upd_c (\<lambda>c. c\<lparr>c_freq := dbl_of_int 1000\<rparr>) w;
          w = rstclock FSET 0 (Fin 0) w
      in upd_c (\<lambda>c. c\<lparr>c_jitter := LOG2D (e_shl e) (sint (s_precision (w_s w)))\<rparr>) w)"

text \<open>malloc() or calloc() of a packet structure: whether it succeeds.\<close>

definition alloc :: "env \<Rightarrow> world \<Rightarrow> bool \<times> world" where
  "alloc e w = (e_calloc e (w_brk w), w\<lparr>w_brk := Suc (w_brk w)\<rparr>)"

definition task_init :: "env \<Rightarrow> u32 list \<Rightarrow> world \<Rightarrow> (bool \<times> world) outcome" where
  "task_init e ips w =
     (let (r_ok, w) = alloc e w; (x_ok, w) = alloc e w
      in if \<not> x_ok then Inl Null_Store
         else bind_r (assoc_table_init e ips (init_clock e w)) (\<lambda>w. Inr (r_ok, w)))"

text \<open>
  The first exchange, with the first server: the local time becomes the server's transmit
  timestamp. recv_packet() clears the receive structure, through a null pointer if its malloc()
  failed.
\<close>

definition first_time ::
    "env \<Rightarrow> u32 list \<Rightarrow> bool \<Rightarrow> ntp_x \<Rightarrow> world \<Rightarrow> (ntp_x \<times> ntp_r \<times> world) outcome" where
  "first_time e ips r_ok x w =
     bind_r (idx Server_IPs ips 0) (\<lambda>ip.
       let w = w\<lparr>w_ip := ip, w_dest := ip\<rparr>;
           x = x\<lparr>x_srcaddr := ip\<rparr>;
           (x, w) = prep_xmit e x w
       in bind_r (xmit_packet e x w) (\<lambda>(x, w).
          if \<not> r_ok then Inl Null_Store
          else let (r, w) = recv_packet e w;
                   x = x\<lparr>x_xmt := r_xmt r\<rparr>;
                   w = settime e (x_xmt x) w;
                   w = gettime e 1 w
               in Inr (x, r, w)))"

text \<open>One turn of the synchronisation loop: the request, then the answer and the algorithms.\<close>

definition sync_request :: "env \<Rightarrow> u32 list \<Rightarrow> nat \<Rightarrow> ntp_x \<Rightarrow> world \<Rightarrow> (ntp_x \<times> world) outcome" where
  "sync_request e ips i x w =
     bind_r (idx Server_IPs ips i) (\<lambda>ip.
       let w = w\<lparr>w_ip := ip\<rparr>; (x, w) = prep_xmit e x w in xmit_packet e x w)"

definition sync_turn :: "env \<Rightarrow> u32 list \<Rightarrow> nat \<Rightarrow> ntp_x \<times> ntp_r \<times> world \<Rightarrow> (ntp_x \<times> ntp_r \<times> world) outcome" where
  "sync_turn e ips i xrw =
     (case xrw of (x, r, w) \<Rightarrow>
        bind_r (sync_request e ips i x w) (\<lambda>(x, w).
          let (r, w) = recv_packet e w
          in bind_r (receive e r w) (\<lambda>w. Inr (x, r, w))))"

text \<open>
  vNTPTask() up to its endless loop: \<open>task_start\<close> goes as far as the first setting of the time
  and gives the addresses and the three structures; then comes the synchronisation loop, which
  leaves the receive structure and the world the endless loop starts with.
\<close>

definition task_start ::
    "env \<Rightarrow> net_api \<Rightarrow> world \<Rightarrow> (u32 list \<times> ntp_x \<times> ntp_r \<times> world) outcome" where
  "task_start e api w =
     bind_r (init_network_and_DNS api host_names) (\<lambda>(ips, dest).
     bind_r (task_init e ips w) (\<lambda>(r_ok, w).
     bind_r (first_time e ips r_ok init_x w) (\<lambda>xrw. Inr (ips, xrw))))"

definition vNTPTask ::
    "env \<Rightarrow> net_api \<Rightarrow> world \<Rightarrow> (ntp_r \<times> world) outcome" where
  "vNTPTask e api w =
     bind_r (task_start e api w) (\<lambda>(ips, xrw).
     bind_r (foldr_r (sync_turn e ips) [0..<NMAX] xrw) (\<lambda>(x, r, w). Inr (r, w)))"

section \<open>The addresses\<close>

lemma lookup_host_result:
  "lookup_host dns name tries n = (ip, found, n') \<Longrightarrow> found = (ip \<noteq> 0)"
  by (induction dns name tries n rule: lookup_host.induct) (auto simp: Let_def split: if_splits)

lemma lookup_all_result:
  assumes "lookup_all dns names n ips = (ips', ok)" and "0 \<notin> set ips"
  shows "\<exists>k. length ips' = k \<and> k \<le> length ips + length names \<and>
    (if ok then k = length ips + length names \<and> 0 \<notin> set ips'
     else ips' \<noteq> [] \<and> last ips' = 0 \<and> 0 \<notin> set (butlast ips'))"
  using assms
proof (induction names arbitrary: n ips)
  case (Cons name names)
  obtain ip found n' where h: "lookup_host dns name 10 n = (ip, found, n')" by (metis prod_cases3)
  note f = lookup_host_result [OF h]
  show ?case
  proof (cases found)
    case True
    with Cons.prems f h Cons.IH [of n' "ips @ [ip]"] show ?thesis by simp
  next
    case False
    with Cons.prems f h show ?thesis by auto
  qed
qed auto

lemma length_host_names [simp]: "length host_names = NMAX"
  by (simp add: host_names_def)

lemma dns_result:
  assumes "n_socket api"
  shows "\<exists>ips dest k. init_network_and_DNS api host_names = Inr (ips, dest) \<and> length ips = NMAX \<and>
    k \<le> NMAX \<and> (\<forall>j < k. ips ! j \<noteq> 0) \<and> (\<forall>j. k \<le> j \<longrightarrow> j < NMAX \<longrightarrow> ips ! j = 0) \<and>
    dest = (if k = NMAX
      then Some \<lparr>sin_family = n_AF_INET4 api, sin_port = n_htons api 123, sin_len = n_sizeof_sockaddr api\<rparr>
      else None)"
proof -
  obtain l ok where r: "lookup_all (n_gethostbyname api) host_names 0 [] = (l, ok)" by fastforce
  note f = lookup_all_result [OF r, simplified]
  let ?ips = "l @ replicate (NMAX - length l) 0"
  show ?thesis
  proof (cases ok)
    case True
    with f have "\<forall>j < NMAX. ?ips ! j \<noteq> 0" by (auto simp: nth_append) (metis nth_mem)
    with True f r assms show ?thesis
      by (intro exI [of _ ?ips] exI [of _ NMAX]) (simp add: init_network_and_DNS_def)
  next
    case False
    with f have l: "l \<noteq> []" "last l = 0" "0 \<notin> set (butlast l)" "length l \<le> NMAX" by simp_all
    then obtain xs where xs: "l = xs @ [0]" "0 \<notin> set xs" by (metis append_butlast_last_id)
    have "?ips ! j \<noteq> 0" if "j < length xs" for j using that xs by (auto simp: nth_append) (metis nth_mem)
    moreover have "?ips ! j = 0" if "length xs \<le> j" "j < NMAX" for j using that xs by (simp add: nth_append nth_Cons')
    ultimately show ?thesis using False l r assms xs
      by (intro exI [of _ ?ips] exI [of _ "None"] exI [of _ "length xs"]) (simp add: init_network_and_DNS_def)
  qed
qed

section \<open>Start-up keeps the invariant\<close>

lemma init_clock_fields:
  "w_s (init_clock e w) = init_s" "c_t (w_c (init_clock e w)) = 1" "c_count (w_c (init_clock e w)) = 0"
  "w_heap (init_clock e w) = w_heap w" "w_brk (init_clock e w) = w_brk w"
  by (simp_all add: init_clock_def rstclock_def init_s_def zero_s_def zero_c_def Let_def)

lemma fresh_peer_ok:
  assumes "w_s w = init_s" and "c_t (w_c w) = 1"
  shows "peer_ok (fresh_p e w a d v MODE KEYID P_FLAGS rand)"
  using assms
  by (simp add: fresh_p_def cleared_def zero_p_def zero_f_def peer_ok_def stage_ok_def init_s_def zero_s_def
      zero_dbl_def repr_def MAXDISPAlg_def flt_nonneg [unfolded zero_dbl_def] Let_def)

lemma init_table_okay:
  assumes "heap_ok w" and "\<And>n. e_calloc e n" and "length ips = NMAX"
    and s: "w_s w = init_s" and t: "c_t (w_c w) = 1" and n: "c_count (w_c w) = 0"
  shows "outc {} (okay 1 ips) (assoc_table_init e ips w)"
proof -
  let ?v = "w\<lparr>w_brk := Suc (w_brk w)\<rparr>"
  obtain w' where w': "assoc_table_init e ips w = Inr w'" "init_upto e ips ?v NMAX w'"
    using assoc_table_init_ok [OF assms(1-3)] by blast
  note tab = init_upto_table [OF w'(2)]
  have k: "w_s w' = init_s" "w_c w' = w_c w" using w'(2) s by (simp_all add: init_upto_def)
  have p: "\<forall>p \<in> set (w_peers w'). peer_ok (peer w' p)"
    using tab(3,4) fresh_peer_ok [of ?v] s t by (auto simp: in_set_conv_nth)
  have a: "addrs w' = ips"
    by (rule nth_equalityI) (use tab(3,4) assms(3) in \<open>simp_all add: addrs_def fresh_p_fields\<close>)
  have "sys_ok w'" using k n by (simp add: sys_ok_def poll_ok_def init_s_def zero_s_def zero_v_def ptr_ok_def)
  with k p a tab t show ?thesis
    by (simp add: w'(1) okay_def client_ok_def init_s_def)
qed

lemma task_init_okay:
  assumes "heap_ok w" and "\<And>n. e_calloc e n" and "length ips = NMAX"
  shows "outc {} (\<lambda>(r_ok, w'). r_ok \<and> okay 1 ips w') (task_init e ips w)"
proof -
  let ?v = "init_clock e (snd (alloc e (snd (alloc e w))))"
  have "heap_ok ?v"
    using assms(1)
    by (auto simp: heap_ok_def alloc_def init_clock_fields init_s_def zero_s_def split: ptr.splits)
  then have "outc {} (okay 1 ips) (assoc_table_init e ips ?v)"
    by (rule init_table_okay [OF _ assms(2,3)]) (simp_all add: init_clock_fields)
  then have "outc {} (\<lambda>(r_ok, w'). r_ok \<and> okay 1 ips w')
      (bind_r (assoc_table_init e ips ?v) (\<lambda>w. Inr (True, w)))" by (rule outc_bind) simp
  with assms(2) show ?thesis by (simp add: task_init_def alloc_def Let_def)
qed


lemma prep_xmit_okay: "okay b ips w \<Longrightarrow> okay b ips (snd (prep_xmit e x w))"
  by (simp add: prep_xmit_def Let_def)

lemma okay_server: "okay b ips w \<Longrightarrow> okay b ips (w\<lparr>w_ip := ip\<rparr>) \<and> okay b ips (w\<lparr>w_ip := ip, w_dest := ip'\<rparr>)"
  using okay_frame [of "w\<lparr>w_ip := ip\<rparr>" w b b ips] okay_frame [of "w\<lparr>w_ip := ip, w_dest := ip'\<rparr>" w b b ips]
  by (simp add: okay_def)

lemma settime_okay: "okay b ips w \<Longrightarrow> okay (b + 1) ips (settime e t w)"
proof (rule okay_frame)
  assume "okay b ips w"
  then show "uint (c_t (w_c (settime e t w))) \<le> b + 1"
    by (intro uint_step [of _ "c_t (w_c w)"]) (simp_all add: okay_def settime_def read_tick_def Let_def)
qed (simp_all add: settime_def read_tick_def Let_def)

lemma first_time_okay:
  assumes ok: "okay b ips w" and ips: "length ips = NMAX"
  shows "outc {} (\<lambda>(x, r, w'). okay (b + 1) ips w') (first_time e ips True x w)"
proof -
  let ?x = "x\<lparr>x_srcaddr := ips ! 0\<rparr>"
  let ?p = "prep_xmit e ?x (w\<lparr>w_ip := ips ! 0, w_dest := ips ! 0\<rparr>)"
  have "okay b ips (snd ?p)" using ok okay_server prep_xmit_okay by blast
  then have x: "outc {} (\<lambda>(x', w'). okay b ips w' \<and> w_ip w' = w_ip (snd ?p) \<and> w_peers w' = w_peers (snd ?p))
      (xmit_packet e (fst ?p) (snd ?p))" by (rule xmit_okay)
  have "outc {} (\<lambda>(x, r, w'). okay (b + 1) ips w') (bind_r (xmit_packet e (fst ?p) (snd ?p)) (\<lambda>(x, w).
      let (r, w) = recv_packet e w; x = x\<lparr>x_xmt := r_xmt r\<rparr>; w = settime e (x_xmt x) w; w = gettime e 1 w
      in Inr (x, r, w)))"
    by (rule outc_bind [OF x]) (auto simp: Let_def case_prod_beta intro!: settime_okay recv_okay okay_gettime)
  then show ?thesis using ips by (simp add: first_time_def Let_def case_prod_beta)
qed

section \<open>The synchronisation loop\<close>

lemma sync_request_okay:
  assumes ok: "okay b ips w" and i: "i < length ips"
  shows "outc {} (\<lambda>(x', w'). okay b ips w' \<and> w_ip w' \<in> set ips) (sync_request e ips i x w)"
proof -
  let ?p = "prep_xmit e x (w\<lparr>w_ip := ips ! i\<rparr>)"
  have "okay b ips (snd ?p)" using ok okay_server prep_xmit_okay by blast
  from xmit_okay [OF this, of e "fst ?p"] i show ?thesis
    by (auto simp: sync_request_def Let_def case_prod_beta prep_xmit_def elim!: outc_weaken)
qed

text \<open>The answer of a turn is sane.\<close>

fun sync_sane :: "env \<Rightarrow> u32 list \<Rightarrow> nat \<times> ntp_x \<times> ntp_r \<times> world \<Rightarrow> bool" where
  "sync_sane e ips (i, x, r, w) =
     (case sync_request e ips i x w of Inl er \<Rightarrow> True | Inr (x, w) \<Rightarrow> answer_sane e w)"

fun sync_inv :: "env \<Rightarrow> u32 list \<Rightarrow> int \<Rightarrow> nat \<times> ntp_x \<times> ntp_r \<times> world \<Rightarrow> bool" where
  "sync_inv e ips b (i, x, r, w) \<longleftrightarrow> qsort_ok e \<and> okay b ips w"

lemma sync_turn_okay:
  assumes "sync_inv e ips b st" and "b + 1 \<le> 2147483647" and "fst st < length ips \<and> sync_sane e ips st"
  shows "outc {Hang Sqrt_Loop, Exit 0, Signed_Overflow, Index_OOB Dispatch_Table} (sync_inv e ips (b + 1))
    (counted (sync_turn e ips) st)"
proof -
  let ?S = "{Hang Sqrt_Loop, Exit 0, Signed_Overflow, Index_OOB Dispatch_Table}"
  obtain i x r w where st: "st = (i, x, r, w)" by (cases st)
  have ok: "okay b ips w" and e: "qsort_ok e" using assms(1) by (simp_all add: st)
  have b: "b < t_max" using assms(2) by simp
  have i: "i < length ips" using assms(3) by (simp add: st)
  obtain x' u where req: "sync_request e ips i x w = Inr (x', u)" and u: "okay b ips u" "w_ip u \<in> set ips"
    using sync_request_okay [OF ok i, of e x] by (auto simp: outc_def split: sum.splits)
  have "answer_sane e u" using assms(3) by (simp add: st req)
  from exchange_okay [OF u(1) e b this u(2)]
  have "outc ?S (\<lambda>(x, r, w'). okay (b + 1) ips w') (sync_turn e ips i (x, r, w))"
    by (auto simp: sync_turn_def req Let_def case_prod_beta intro: outc_bind)
  then have "outc ?S (sync_inv e ips (b + 1)) (bind_r (sync_turn e ips i (x, r, w)) (\<lambda>s. Inr (Suc i, s)))"
    by (rule outc_bind) (use e in auto)
  then show ?thesis by (simp add: st counted_def)
qed

interpretation sync: timed_machine "counted (sync_turn e ips)" "sync_inv e ips"
    "\<lambda>st. fst st < length ips \<and> sync_sane e ips st"
    "{Hang Sqrt_Loop, Exit 0, Signed_Overflow, Index_OOB Dispatch_Table}" 1 2147483647 for e ips
  by unfold_locales (simp_all add: sync_turn_okay)


lemma sync_loop_okay:
  assumes ok: "okay b ips w" and e: "qsort_ok e" and b: "b + int n \<le> 2147483647" and n: "n \<le> length ips"
    and sane: "\<And>m u. m < n \<Longrightarrow> runs (counted (sync_turn e ips)) m (0, x, r, w) u \<Longrightarrow> sync_sane e ips u"
  shows "outc {Hang Sqrt_Loop, Exit 0, Signed_Overflow, Index_OOB Dispatch_Table} (\<lambda>(x, r, w). okay (b + int n) ips w)
    (foldr_r (sync_turn e ips) [0..<n] (x, r, w))"
proof (cases "foldr_r (sync_turn e ips) [0..<n] (x, r, w)")
  case (Inl er)
  then have "foldr_r (sync_turn e ips) [0..<0 + n] (x, r, w) = Inl er" by simp
  from foldr_r_stops [OF this] obtain m t where m: "m < n" "runs (counted (sync_turn e ips)) m (0, x, r, w) t"
      "counted (sync_turn e ips) t = Inl er" by blast
  have inv: "sync_inv e ips b (0, x, r, w)" using ok e by simp
  have le: "b + int m * 1 + 1 \<le> 2147483647" using m(1) b by simp
  have "fst u < length ips \<and> sync_sane e ips u" if "k \<le> m" "runs (counted (sync_turn e ips)) k (0, x, r, w) u" for k u
    using that m(1) n counted_index [OF that(2)] by (auto intro: sane [of k])
  from sync.run_step [OF m(2) inv le this] show ?thesis using m(3) Inl by simp
next
  case (Inr s)
  then have "foldr_r (sync_turn e ips) [0..<0 + n] (x, r, w) = Inr s" by simp
  then have run: "runs (counted (sync_turn e ips)) n (0, x, r, w) (n, s)" unfolding foldr_r_runs by simp
  have inv: "sync_inv e ips b (0, x, r, w)" using ok e by simp
  have le: "b + int n * 1 \<le> 2147483647" using b by simp
  have "fst u < length ips \<and> sync_sane e ips u" if "m < n" "runs (counted (sync_turn e ips)) m (0, x, r, w) u" for m u
    using that n counted_index [OF that(2)] sane by simp
  from sync.run_inv [OF run inv le this] show ?thesis using Inr by (cases s) simp
qed

lemma task_start_okay:
  assumes "n_socket api" and "heap_ok w" and "\<And>n. e_calloc e n"
  shows "\<exists>ips x r w'. task_start e api w = Inr (ips, x, r, w') \<and> length ips = NMAX \<and> okay 2 ips w'"
proof -
  obtain ips dest where dns: "init_network_and_DNS api host_names = Inr (ips, dest)" "length ips = NMAX"
    using dns_result [OF assms(1)] by blast
  obtain u where init: "task_init e ips w = Inr (True, u)" "okay 1 ips u"
    using task_init_okay [OF assms(2,3) dns(2)] by (auto simp: outc_def split: sum.splits)
  obtain x r v where "first_time e ips True init_x u = Inr (x, r, v)" "okay 2 ips v"
    using first_time_okay [OF init(2) dns(2), of e init_x] by (auto simp: outc_def split: sum.splits)
  then show ?thesis using dns init by (simp add: task_start_def)
qed

section \<open>Properties\<close>

text \<open>Name resolution. With a socket, init_network_and_DNS() returns and gives an array of
  five addresses. The hosts before some index k, and only they, have a non-zero address: the first
  host whose ten lookups fail ends the loop, and it and every host after it keep the address 0.
  The destination (family, port 123, length) is set up only when no lookup failed.\<close>

theorem dns_addresses:
  assumes "n_socket api"
  shows "\<exists>ips dest k. init_network_and_DNS api host_names = Inr (ips, dest) \<and> length ips = NMAX \<and>
    k \<le> NMAX \<and> (\<forall>j < NMAX. ips ! j \<noteq> 0 \<longleftrightarrow> j < k) \<and>
    dest = (if k = NMAX
      then Some \<lparr>sin_family = n_AF_INET4 api, sin_port = n_htons api 123, sin_len = n_sizeof_sockaddr api\<rparr>
      else None)"
  using dns_result [OF assms] by (metis not_le)

text \<open>A resolver that does not know the third host.\<close>

definition demo_api :: net_api where
  "demo_api = \<lparr>n_socket = True, n_gethostbyname = (\<lambda>n name. if name = ''svl1.ntp.se'' then 0 else 7),
     n_htons = (\<lambda>x. x), n_AF_INET4 = 2, n_sizeof_sockaddr = 16\<rparr>"

theorem dns_addresses_witness:
  "\<exists>ips dest k. init_network_and_DNS demo_api host_names = Inr (ips, dest) \<and> length ips = 5 \<and>
    (\<forall>j < NMAX. ips ! j \<noteq> 0 \<longleftrightarrow> j < k)"
  using dns_addresses [of demo_api] by (auto simp: demo_api_def)

text \<open>C3: start-up is safe. With a socket, allocations that succeed, a heap whose free part is
  free, and a qsort() that sorts by the total preorders it is given, vNTPTask() reaches its first
  setting of the time whatever the name servers and the first server answer: the table then holds five
  live client associations with exactly the resolved addresses and the process time is at most 2. The
  synchronisation loop, when the server answers it gets are sane (the precision exponent gives a power
  of two that is not negative, the origin timestamp is less than 2^31 s from the arrival), ends in a
  sound client at process time at most 7, from which the polling loop starts, or stops in a panic exit,
  a sqrt() that does not return, the overflow of the offset sum or the access outside the dispatch
  table, and for no other reason: not outside the server addresses, the association table, the chime
  list or the survivor list, nor in an assertion.\<close>

theorem task_start_safe:
  assumes "n_socket api" and "heap_ok w" and "\<And>n. e_calloc e n" and "qsort_ok e"
    and "\<And>ips xrw m u. task_start e api w = Inr (ips, xrw) \<Longrightarrow> m < NMAX \<Longrightarrow>
      runs (counted (sync_turn e ips)) m (0, xrw) u \<Longrightarrow> sync_sane e ips u"
  shows "\<exists>ips x r v. task_start e api w = Inr (ips, x, r, v) \<and> length ips = NMAX \<and> okay 2 ips v \<and>
    (case vNTPTask e api w of
       Inr (r', w') \<Rightarrow> okay 7 ips w'
     | Inl er \<Rightarrow> er \<in> {Hang Sqrt_Loop, Exit 0, Signed_Overflow, Index_OOB Dispatch_Table})"
proof -
  obtain ips x r v where s: "task_start e api w = Inr (ips, x, r, v)" "length ips = NMAX" "okay 2 ips v"
    using task_start_okay [OF assms(1-3)] by blast
  have "outc {Hang Sqrt_Loop, Exit 0, Signed_Overflow, Index_OOB Dispatch_Table} (\<lambda>(x, r, w). okay 7 ips w)
      (foldr_r (sync_turn e ips) [0..<NMAX] (x, r, v))"
    using sync_loop_okay [OF s(3) assms(4), of NMAX x r] assms(5) [OF s(1)] s(2) by simp
  then have "outc {Hang Sqrt_Loop, Exit 0, Signed_Overflow, Index_OOB Dispatch_Table} (\<lambda>(r, w). okay 7 ips w) (vNTPTask e api w)"
    unfolding vNTPTask_def s(1) bind_r.simps prod.case by (rule outc_bind) auto
  with s show ?thesis by (auto simp: outc_def split: sum.splits)
qed

theorem task_start_safe_witness:
  "\<exists>ips x r v. task_start demo_env demo_api boot_world = Inr (ips, x, r, v) \<and> length ips = 5 \<and>
    okay 2 ips v \<and> (case vNTPTask demo_env demo_api boot_world of
       Inr (r', w') \<Rightarrow> okay 7 ips w'
     | Inl er \<Rightarrow> er \<in> {Hang Sqrt_Loop, Exit 0, Signed_Overflow, Index_OOB Dispatch_Table})"
proof -
  have "sync_sane demo_env ips u" for ips u
    by (cases u) (simp add: demo_answers split: sum.splits)
  then show ?thesis
    using task_start_safe [OF _ boot_heap_ok demo_calloc demo_qsort_ok, of demo_api] by (simp add: demo_api_def)
qed

end
