(* ===== verification/Frames.thy ===== *)
theory Frames
  imports Client
begin

text \<open>
  What the operations on an association leave alone. The operations of a turn of the polling loop
  change the poll time of one association only, keep the table and the process time, up to its
  advance, and add to the packets sent. Which fields of an association they keep is stated for a
  projection G of the association: the locale \<open>packet_fields\<close> is the interface of a projection
  that packet() keeps, \<open>turn_fields\<close> extends it to a whole turn. The server's address is of the
  second kind, the identity of an association with its key and timestamps of the first.
\<close>

section \<open>What an operation on one association leaves alone\<close>

definition frame :: "(ntp_p \<Rightarrow> 'a) \<Rightarrow> ptr \<Rightarrow> world \<Rightarrow> world \<Rightarrow> bool" where
  "frame G p w w' \<longleftrightarrow> w_peers w' = w_peers w \<and> uint (c_t (w_c w)) \<le> uint (c_t (w_c w')) \<and>
     (\<exists>l. w_sent w' = w_sent w @ l) \<and>
     (\<forall>q. valid w q \<longrightarrow> valid w' q \<and> G (peer w' q) = G (peer w q) \<and>
        (q \<noteq> p \<longrightarrow> p_nextdate (peer w' q) = p_nextdate (peer w q)))"

lemma frame_refl [simp]: "frame G p w w"
  by (simp add: frame_def)

lemma frame_trans: "frame G p w u \<Longrightarrow> frame G p u v \<Longrightarrow> frame G p w v"
  unfolding frame_def by (elim conjE exE) (auto intro: order_trans)

lemma frame_same:
  assumes "w_heap w' = w_heap w" and "w_peers w' = w_peers w" and "w_sent w' = w_sent w"
    and "uint (c_t (w_c w)) \<le> uint (c_t (w_c w'))"
  shows "frame G p w w'"
  using assms valid_frame [OF assms(1)] peer_frame [OF assms(1)] by (simp add: frame_def)

lemma frame_set_peer:
  assumes "valid w q" and "G x = G (peer w q)"
    and "q \<noteq> p \<Longrightarrow> p_nextdate x = p_nextdate (peer w q)"
  shows "frame G p w (set_peer q x w)"
  using assms by (auto simp: frame_def heap.get_put)

lemma frame_modify:
  assumes "modify e q f w = Inr w'" and "\<And>x. G (f x) = G x"
    and "q \<noteq> p \<Longrightarrow> (\<And>x. p_nextdate (f x) = p_nextdate x)"
  shows "frame G p w w'"
  using assms by (auto simp: modify_Inr_iff intro!: frame_set_peer)

lemma frame_recv: "frame G p w (snd (recv_packet e w))"
  by (rule frame_same) (simp_all add: recv_packet_frame)

lemma uint_step_le: "x' = x \<or> x' = x + 1 \<Longrightarrow> uint x < 2147483648 \<Longrightarrow> uint x \<le> uint (x' :: tstamp)"
  by (auto simp: uint_word_ariths)

text \<open>The table does not change when an association is written to it that it holds already.\<close>

lemma update_frame:
  assumes ok: "okay b ips w" and p: "p \<in> set (w_peers w)" and d: "distinct ips"
    and run: "assoc_table_update e p w = Inr w'"
  shows "w' = w"
proof -
  have tab: "table_ok w" and v: "valid w p" and a: "map (\<lambda>p. p_srcaddr (peer w p)) (w_peers w) = ips"
    using okayD [OF ok p] ok by (simp_all add: okay_def client_ok_def addrs_def)
  let ?P = "\<lambda>q. p_srcaddr q = p_srcaddr (peer w p) \<and> p_hmode q = p_hmode (peer w p)"
  have s: "find_r (\<lambda>i. bind_r (table_at w i) (\<lambda>a. bind_r (load e w a) (\<lambda>q. bind_r (load e w p) (\<lambda>r.
        Inr (p_srcaddr q = p_srcaddr r \<and> p_hmode q = p_hmode r))))) [0..<nat (w_size w)] =
      Inr (List.find (\<lambda>i. ?P (peer w (w_peers w ! i))) [0..<length (w_peers w)])"
    using table_search [OF tab, of e ?P] v by simp
  show ?thesis
  proof (cases "List.find (\<lambda>i. ?P (peer w (w_peers w ! i))) [0..<length (w_peers w)]")
    case None
    then show ?thesis using run by (simp add: assoc_table_update_def s)
  next
    case (Some i)
    note h = find_SomeD [OF Some]
    obtain j where j: "j < length (w_peers w)" "w_peers w ! j = p" using p by (auto simp: in_set_conv_nth)
    have "ips ! i = ips ! j" using h j by (auto simp: a [symmetric])
    then have "i = j" using d h j(1) a by (metis atLeastLessThan_iff length_map nth_eq_iff_index_eq set_upt)
    then have "(w_peers w)[i := p] = w_peers w" using j by (metis list_update_id)
    then show ?thesis using run Some by (simp add: assoc_table_update_def s)
  qed
qed

lemma select_frame:
  assumes ok: "okay b ips w" and e: "qsort_ok e" and b: "b < t_max" and run: "clock_select e w = Inr w'"
  shows "frame G p w w'"
proof -
  have c: "client_ok w" and t: "uint (c_t (w_c w)) \<le> b" using ok by (simp_all add: okay_def)
  have full: "table_full w" and sys: "sys_ok w"
    using client_table_full [OF c] t b c by (simp_all add: client_ok_def)
  have k: "keeps w w'" using clock_select_run(2) [OF e full sys run] by simp
  have "uint (c_t (w_c w)) < 2147483648" using t b by linarith
  then have "uint (c_t (w_c w)) \<le> uint (c_t (w_c w'))"
    by (intro uint_step_le [OF clock_select_c_t [OF e full sys run]])
  then show ?thesis using k by (intro frame_same) (simp_all add: keeps_def)
qed

lemma okay_modified:
  assumes ok: "okay b ips w" and p: "p \<in> set (w_peers w)" and run: "modify e p f w = Inr w'"
    and f: "\<And>q. peer_ok q \<Longrightarrow> peer_ok (f q)" "\<And>q. p_srcaddr (f q) = p_srcaddr q"
  shows "okay b ips w'" and "p \<in> set (w_peers w')"
proof -
  have "outc {} (\<lambda>v. okay b ips v \<and> v = set_peer p (f (peer w p)) w \<and> p \<in> set (w_peers v)) (modify e p f w)"
    by (rule okay_modify [OF ok p]) (rule f, assumption, rule f)
  then show "okay b ips w'" and "p \<in> set (w_peers w')" using run by auto
qed

lemma modify_ip: "modify e p f w = Inr w' \<Longrightarrow> w_ip w' = w_ip w"
  by (simp add: modify_Inr_iff)

section \<open>The operations of packet()\<close>

text \<open>
  What packet() never writes: the interface is a projection G of an association that the header,
  the poll times, the reachability and the filter leave alone.
\<close>

locale packet_fields =
  fixes G :: "ntp_p \<Rightarrow> 'a"
  assumes fields: "G (take_header r q) = G q" "G (q\<lparr>p_hpoll := h\<rparr>) = G q" "G (q\<lparr>p_nextdate := n\<rparr>) = G q"
      "G (q\<lparr>p_reach := n\<rparr>) = G q" "G (q\<lparr>p_t := t\<rparr>) = G q"
      "G (q\<lparr>p_f := f, p_offset := x, p_delay := y, p_disp := z, p_jitter := j\<rparr>) = G q"
begin

lemma filter_frame:
  assumes ok: "okay b ips w" and p: "p \<in> set (w_peers w)" and d: "distinct ips" and e: "qsort_ok e" and b: "b < t_max"
    and args: "bd 31 offset" "wfd offset" "bd 32 delay" "0 \<le> disp"
    and run: "clock_filter e p offset delay disp w = Inr w'"
  shows "frame G p w w'"
proof -
  have c: "client_ok w" and t: "uint (c_t (w_c w)) \<le> b" using ok by (simp_all add: okay_def)
  note v = okayD [OF ok p]
  have tt: "uint (c_t (w_c w)) < 9223372036854775808" using t b by simp
  have prec: "sint (s_precision (w_s w)) = PRECISION" using c by (simp add: client_ok_def)
  obtain q where q: "filter_sample e w (peer w p) offset delay disp = Inr q" "peer_ok q"
    "p_srcaddr q = p_srcaddr (peer w p)" "p_t q = p_t (peer w p)" "f_t (p_f q ! 0) = c_t (w_c w)"
    using filter_sample_ok [OF v(2) tt prec args] by blast
  have G: "G q = G (peer w p)"
    using q(1) by (auto simp: filter_sample_def fields Let_def bind_r_Inr_conv split: prod.splits)
  let ?w = "set_peer p q w" and ?q = "q\<lparr>p_t := c_t (w_c w)\<rparr>"
  have f1: "frame G p w ?w" by (rule frame_set_peer [OF v(1) G]) simp
  have w1: "okay b ips ?w" by (rule okay_set_peer [OF ok p q(2,3)])
  have f2: "frame G p w (set_peer p ?q ?w)"
    by (rule frame_trans [OF f1 frame_set_peer]) (use v(1) in \<open>simp_all add: fields\<close>)
  have "peer_ok ?q" using q(2) tt by (simp add: peer_ok_def)
  then have w2: "okay b ips (set_peer p ?q ?w)"
    using v(1) p q(3) by (intro okay_set_peer [OF w1]) simp_all
  have "frame G p w w'"
    if "bind_r (assoc_table_update e p (set_peer p ?q ?w)) (clock_select e) = Inr w'"
  proof -
    from that obtain u where u: "assoc_table_update e p (set_peer p ?q ?w) = Inr u" "clock_select e u = Inr w'"
      by (auto simp: bind_r_Inr_conv)
    have "u = set_peer p ?q ?w" using p by (intro update_frame [OF w2 _ d u(1)]) simp
    then show ?thesis using frame_trans [OF f2 select_frame [OF w2 e b]] u(2) by simp
  qed
  then show ?thesis
    using run v(1) q(1,5) f1 f2 by (auto simp: clock_filter_def Let_def split: if_splits)
qed

lemma poll_update_frame:
  assumes "poll_update e p hpoll w = Inr w'"
  shows "frame G p w w'" and "w_ip w' = w_ip w"
proof -
  obtain u where u: "modify e p (\<lambda>q. q\<lparr>p_hpoll := word_of_int (cmax (cmin MAXPOLL hpoll) MINPOLL)\<rparr>) w = Inr u"
    using assms by (auto simp: poll_update_def bind_r_Inr_conv)
  have f: "frame G p w u" by (rule frame_modify [OF u]) (simp_all add: fields)
  have "frame G p u w' \<and> w_ip w' = w_ip u"
  proof (cases "w' = u")
    case False
    with assms u obtain nd v nd' where v: "spread_nextdate e nd u = (nd', v)"
        and m: "\<exists>n. modify e p (\<lambda>q. q\<lparr>p_nextdate := n\<rparr>) v = Inr w'"
      by (auto simp: poll_update_def Let_def bind_r_Inr_conv split: if_splits prod.splits)
    have "frame G p u v" using v by (intro frame_same) (auto simp: spread_nextdate_def split: if_splits)
    moreover have "frame G p v w'" using m by (auto simp: fields intro: frame_modify)
    moreover have "w_ip v = w_ip u" using v by (auto simp: spread_nextdate_def split: if_splits)
    ultimately show ?thesis using m modify_ip frame_trans by metis
  qed simp
  with f modify_ip [OF u] show "frame G p w w'" and "w_ip w' = w_ip w" by (auto intro: frame_trans)
qed

lemma packet_frame:
  assumes ok: "okay b ips w" and p: "p \<in> set (w_peers w)" and d: "distinct ips" and e: "qsort_ok e" and b: "b < t_max"
    and r: "packet_sane e r" and run: "packet e p r w = Inr w'"
  shows "frame G p w w'"
proof -
  obtain w1 where w1: "modify e p (take_header r) w = Inr w1"
    using run by (auto simp: packet_def bind_r_Inr_conv)
  have f1: "frame G p w w1" by (rule frame_modify [OF w1]) (simp_all add: fields)
  have sa: "p_srcaddr (take_header r q) = p_srcaddr q" for q by (simp add: take_header_def)
  note o1 = okay_modified [OF ok p w1 take_header_ok sa]
  have ok1: "okay b ips w1" and p1: "p \<in> set (w_peers w1)" using o1 by blast+
  note v1 = okayD [OF ok1 p1]
  have "frame G p w1 w'"
  proof (cases "w' = w1")
    case False
    with run w1 v1(1) obtain w2 w3 offset delay disp where
        w2: "poll_update e p (uint (p_hpoll (peer w1 p))) w1 = Inr w2"
      and w3: "modify e p (\<lambda>q. q\<lparr>p_reach := p_reach q OR 1\<rparr>) w2 = Inr w3"
      and s: "\<exists>q. load e w3 p = Inr q \<and> sample e w3 q r = Inr (offset, delay, disp)"
      and c: "clock_filter e p offset delay disp w3 = Inr w'"
      by (auto simp: packet_def bind_r_Inr_conv split: if_splits)
    have "okay b ips w2 \<and> w_peers w2 = w_peers w1"
      using poll_update_okay [OF ok1 p1 b, of e "uint (p_hpoll (peer w1 p))"] w2 by simp
    then have ok2: "okay b ips w2" and p2: "p \<in> set (w_peers w2)" using p1 by simp_all
    have ok3: "okay b ips w3" and p3: "p \<in> set (w_peers w3)"
      by (rule okay_modified [OF ok2 p2 w3]; simp add: peer_ok_def)+
    have prec: "sint (s_precision (w_s w3)) = PRECISION" using ok3 by (simp add: okay_def client_ok_def)
    obtain q where q: "sample e w3 q r = Inr (offset, delay, disp)" using s by blast
    have args: "bd 31 offset" "wfd offset" "bd 32 delay" "0 \<le> disp"
      using sample_ok [OF prec r, of q] q by simp_all
    have "frame G p w2 w3" by (rule frame_modify [OF w3]) (simp_all add: fields)
    moreover have "frame G p w3 w'" by (rule filter_frame [OF ok3 p3 d e b args c])
    ultimately show ?thesis using frame_trans [OF poll_update_frame(1) [OF w2]] frame_trans by blast
  qed simp
  with f1 show ?thesis by (rule frame_trans)
qed

end

text \<open>What a whole turn of the loop, with its poll and its answer, never writes.\<close>

locale turn_fields = packet_fields +
  assumes more: "G (q\<lparr>p_org := t, p_rec := u\<rparr>) = G q" "G (q\<lparr>p_xmt := t\<rparr>) = G q"
      "G (q\<lparr>p_outdate := n, p_reach := m\<rparr>) = G q" "G (q\<lparr>p_unreach := n\<rparr>) = G q" "G (q\<lparr>p_burst := n\<rparr>) = G q"
begin

lemma check_packet_frame:
  assumes ok: "okay b ips w" and p: "p \<in> set (w_peers w)" and d: "distinct ips" and e: "qsort_ok e" and b: "b < t_max"
    and r: "packet_sane e r" and run: "check_packet e p r A_NONE w = Inr w'"
  shows "frame G p w w'"
proof (cases "w' = w")
  case False
  note v = okayD [OF ok p]
  let ?w = "set_peer p ((peer w p)\<lparr>p_org := r_xmt r, p_rec := r_dst r\<rparr>) w"
  have f: "frame G p w ?w" by (rule frame_set_peer [OF v(1)]) (simp_all add: more)
  have w1: "okay b ips ?w" by (rule okay_set_peer [OF ok p]) (use v(2) in \<open>simp_all add: peer_ok_def\<close>)
  have p1: "p \<in> set (w_peers ?w)" using p by simp
  have "w' = ?w \<or> packet e p r ?w = Inr w'"
    using run False v(1) by (auto simp: check_packet_def split: if_splits)
  then show ?thesis using f frame_trans [OF f packet_frame [OF w1 p1 d e b r]] by auto
qed simp

lemma receive_frame:
  assumes ok: "okay b ips w" and d: "distinct ips" and e: "qsort_ok e" and b: "b < t_max"
    and r: "r_mode r = word_of_int M_SERV \<Longrightarrow> packet_sane e r" and i: "i < length ips" and src: "r_mode r \<in> {1, 2, 3, 4, 5} \<Longrightarrow> r_srcaddr r = ips ! i"
    and run: "receive e r w = Inr w'"
  shows "frame G (w_peers w ! i) w w'"
proof -
  have c: "client_ok w" and tab: "table_ok w" and a: "map (\<lambda>p. p_srcaddr (peer w p)) (w_peers w) = ips"
    using ok by (simp_all add: okay_def client_ok_def addrs_def)
  define p where "p = (case List.find (\<lambda>p. p_srcaddr (peer w p) = r_srcaddr r) (w_peers w) of
    None \<Rightarrow> NULL | Some p \<Rightarrow> p)"
  have find: "find_assoc e r w = Inr p" using find_assoc_list [OF tab] by (simp add: p_def)
  have modes: "r_mode r \<in> {1, 2, 3, 4, 5}" if "w' \<noteq> w"
  proof (rule ccontr)
    assume "\<not> ?thesis"
    then have "\<And>h. dispatch_code h (r_mode r) = Inl (Index_OOB Dispatch_Table)" by (intro dispatch_bad_mode)
    with run that show False by (auto simp: receive_def bind_r_Inr_conv Let_def split: if_splits)
  qed
  show ?thesis
  proof (cases "w' = w")
    case False
    have "List.find (\<lambda>p. p_srcaddr (peer w p) = ips ! i) (w_peers w) = Some (w_peers w ! i)"
      using i d a by (intro find_nth_distinct) auto
    then have pi: "p = w_peers w ! i" using src [OF modes [OF False]] by (simp add: p_def)
    then have p: "p \<in> set (w_peers w)" using i a by auto
    note v = okayD [OF ok p]
    have hm: "p_hmode (peer w p) = word_of_int M_CLNT" using v(2) by (simp add: peer_ok_def)
    have "r_mode r = word_of_int M_SERV \<and> check_packet e p r A_NONE w = Inr w'"
      using run False find v(1) hm modes [OF False]
      by (auto simp: receive_def access_def authenticate_def dispatch_client [simplified] dispatch_packet_def
          split: if_splits)
    then show ?thesis using check_packet_frame [OF ok p d e b r] pi by simp
  qed simp
qed

lemma xmit_frame:
  assumes run: "xmit_packet e x w = Inr (x', w')"
  shows "frame G p w w'"
proof -
  let ?v = "gettime e 0 (w\<lparr>w_dest := w_ip w\<rparr>)"
  let ?x = "x\<lparr>x_srcaddr := w_ip w, x_xmt := c_localTime (w_c ?v)\<rparr>"
  let ?pkt = "prv_swap_fields e (prv_translate_ntp_x_to_ntp_packet ?x)"
  obtain n u where u: "assoc_table_add e (w_ip w) (x_mode x) (c_localTime (w_c ?v)) ?v = Inr (n, u)"
      and w': "w' = u\<lparr>w_sent := w_sent u @ [(w_dest u, ?pkt)]\<rparr>"
    using run by (auto simp: xmit_packet_def Let_def bind_r_Inr_conv)
  have m: "u = ?v \<or> (\<exists>a. modify e a (\<lambda>q. q\<lparr>p_xmt := c_localTime (w_c ?v)\<rparr>) ?v = Inr u)"
    using u by (auto simp: assoc_table_add_def bind_r_Inr_conv split: option.splits)
  have g: "frame G p w ?v" by (rule frame_same) simp_all
  moreover have "frame G p ?v u" using m by (auto simp: more intro: frame_modify)
  moreover have "frame G p u w'"
    using valid_frame [of w' u] peer_frame [of w' u] by (simp add: frame_def w')
  ultimately show "frame G p w w'" using frame_trans by blast
qed

lemma peer_xmit_frame:
  assumes v: "valid w p" and run: "peer_xmit e p w = Inr w'"
  shows "frame G p w w'"
proof -
  let ?v = "gettime e 0 (w\<lparr>w_ip := p_srcaddr (peer w p)\<rparr>)"
  obtain u x x' where u: "modify e p (\<lambda>q. q\<lparr>p_xmt := c_t (w_c w)\<rparr>) ?v = Inr u"
      and x: "x_mode x = p_hmode (peer w p)" "xmit_packet e x u = Inr (x', w')"
    using run v
    by (auto simp: peer_xmit_def Let_def bind_r_Inr_conv) (rule that [rotated 2], assumption, simp_all)
  have g: "frame G p w ?v" by (rule frame_same) simp_all
  have "frame G p ?v u" by (rule frame_modify [OF u]) (simp_all add: more)
  then show "frame G p w w'" using frame_trans [OF g] frame_trans xmit_frame [OF x(2)] by blast
qed

lemma quiet_frame:
  assumes ok: "okay b ips w" and p: "p \<in> set (w_peers w)" and d: "distinct ips" and e: "qsort_ok e" and b: "b < t_max"
    and run: "poll_quiet e p hpoll w = Inr (h, w')"
  shows "frame G p w w'"
proof -
  let ?f = "\<lambda>q. q\<lparr>p_outdate := i32 (uint (c_t (w_c w))), p_reach := i32 (p_reach q * 2)\<rparr>"
  from run obtain w1 q1 u q where w1: "modify e p ?f w = Inr w1" and "load e w1 p = Inr q1"
      and c: "(if p_reach q1 AND 7 = 0
        then clock_filter e p (dbl_of_int 0) (dbl_of_int 0) (dbl_of_int MAXDISP) w1 else Inr w1) = Inr u"
      and q: "load e u p = Inr q"
      and s: "(let (hpoll, q) = (if p_reach q = 0 then poll_unreachable hpoll q else poll_reachable e u q)
        in bind_r (store p q u) (\<lambda>w. Inr (hpoll, w))) = Inr (h, w')"
    unfolding poll_quiet_def by (elim bind_r_E)
  have f1: "frame G p w w1" by (rule frame_modify [OF w1]) (simp_all add: more)
  have ok1: "okay b ips w1" and p1: "p \<in> set (w_peers w1)"
    by (rule okay_modified [OF ok p w1]; simp add: peer_ok_def)+
  have args: "bd 31 (dbl_of_int 0)" "wfd (dbl_of_int 0)" "bd 32 (dbl_of_int 0)" "0 \<le> dbl_of_int MAXDISP"
    by (simp_all add: dbl_of_int_exact zero_dbl_def repr_def)
  have "frame G p w1 u" using c filter_frame [OF ok1 p1 d e b args] by (auto split: if_splits)
  moreover have "frame G p u w'"
  proof -
    obtain h' q' where q': "(if p_reach q = 0 then poll_unreachable hpoll q else poll_reachable e u q) = (h', q')"
      by fastforce
    with s have st: "store p q' u = Inr w'" by (auto simp: bind_r_Inr_conv)
    then have v: "valid u p" by (simp add: store_Inr_iff)
    then have "q = peer u p" using q by simp
    then have "G q' = G (peer u p)"
      using q' by (auto simp: poll_unreachable_def poll_reachable_def more Let_def split: if_splits)
    then show ?thesis using st v by (auto simp: store_Inr_iff intro: frame_set_peer)
  qed
  ultimately show ?thesis using f1 frame_trans by blast
qed

lemma poll_frame:
  assumes ok: "okay b ips w" and p: "p \<in> set (w_peers w)" and d: "distinct ips" and e: "qsort_ok e" and b: "b < t_max"
    and run: "poll e p w = Inr w'"
  shows "frame G p w w'" and "\<exists>u y h. frame G p w u \<and> valid u p \<and> p_hmode (peer u p) = 3 \<and> peer_xmit e p u = Inr y \<and>
    poll_update e p h y = Inr w'"
proof -
  note v = okayD [OF ok p]
  have h: "p_hmode (peer w p) = 3" "p_flags (peer w p) = 0" "p_burst (peer w p) = 0"
    using v(2) by (simp_all add: peer_ok_def)
  obtain hp u where u: "poll_quiet e p (uint (p_hpoll (peer w p))) w = Inr (hp, u)"
      and next_op: "bind_r (load e u p) (\<lambda>q. bind_r (if p_hmode q \<noteq> word_of_int M_BCLN then peer_xmit e p u else Inr u)
        (\<lambda>w. poll_update e p hp w)) = Inr w'"
    using run v(1) h by (auto simp: poll_def Let_def bind_r_Inr_conv)
  have f1: "frame G p w u" by (rule quiet_frame [OF ok p d e b u])
  have "okay (b + 1) ips u \<and> p \<in> set (w_peers u)"
    using poll_quiet_okay [OF ok p e b, of "uint (p_hpoll (peer w p))"] u by simp
  then have m: "valid u p" "p_hmode (peer u p) = 3"
    using okayD [of "b + 1" ips u p] by (auto simp: peer_ok_def)
  then obtain y where y: "peer_xmit e p u = Inr y" "poll_update e p hp y = Inr w'"
    using next_op by (auto simp: bind_r_Inr_conv)
  show "frame G p w w'"
    using frame_trans [OF f1 frame_trans [OF peer_xmit_frame [OF m(1) y(1)] poll_update_frame(1) [OF y(2)]]] .
  show "\<exists>u y h. frame G p w u \<and> valid u p \<and> p_hmode (peer u p) = 3 \<and> peer_xmit e p u = Inr y \<and>
      poll_update e p h y = Inr w'"
    using f1 m y by blast
qed

end

section \<open>The two kinds of fields\<close>

interpretation addr: turn_fields p_srcaddr
  by unfold_locales (simp_all add: take_header_def)

definition ident :: "ntp_p \<Rightarrow> u32 \<times> u8 \<times> int \<times> int \<times> tstamp \<times> tstamp \<times> tstamp" where
  "ident q = (p_srcaddr q, p_hmode q, p_keyid q, p_flags q, p_xmt q, p_org q, p_rec q)"

interpretation idents: packet_fields ident
  by unfold_locales (simp_all add: ident_def take_header_def)

end
