(* ===== verification/Liveness.thy ===== *)
theory Liveness
  imports Loop Frames
begin

text \<open>
  Every association is polled. An association keeps its poll time until its turn of the polling
  loop finds it due (Frames), and then a request is sent to its server. The addresses of the
  servers are distinct, as assoc_table_update() and find_assoc() look associations up by address.
\<close>

section \<open>Requests\<close>

text \<open>A client request was sent to the address a between two states.\<close>

definition polled :: "u32 \<Rightarrow> world \<Rightarrow> world \<Rightarrow> bool" where
  "polled a w w' \<longleftrightarrow> (\<exists>l pkt. w_sent w' = w_sent w @ l \<and> (a, pkt) \<in> set l \<and> li_vn_mode pkt AND 7 = 3)"

lemma polled_before: "frame G p w u \<Longrightarrow> polled a u v \<Longrightarrow> polled a w v"
  unfolding frame_def polled_def by (elim conjE exE) (auto intro!: exI)

lemma polled_after: "polled a w u \<Longrightarrow> frame G p u v \<Longrightarrow> polled a w v"
  unfolding frame_def polled_def by (elim conjE exE) (auto intro!: exI)

lemma xmit_sends:
  assumes run: "xmit_packet e x w = Inr (x', w')"
  shows "\<exists>pkt. w_sent w' = w_sent w @ [(w_ip w, pkt)] \<and> li_vn_mode pkt AND 7 = x_mode x AND 7"
    and "w_ip w' = w_ip w"
proof -
  let ?v = "gettime e 0 (w\<lparr>w_dest := w_ip w\<rparr>)"
  let ?x = "x\<lparr>x_srcaddr := w_ip w, x_xmt := c_localTime (w_c ?v)\<rparr>"
  let ?pkt = "prv_swap_fields e (prv_translate_ntp_x_to_ntp_packet ?x)"
  obtain n u where u: "assoc_table_add e (w_ip w) (x_mode x) (c_localTime (w_c ?v)) ?v = Inr (n, u)"
      and w': "w' = u\<lparr>w_sent := w_sent u @ [(w_dest u, ?pkt)]\<rparr>"
    using run by (auto simp: xmit_packet_def Let_def bind_r_Inr_conv)
  have m: "u = ?v \<or> (\<exists>a. modify e a (\<lambda>q. q\<lparr>p_xmt := c_localTime (w_c ?v)\<rparr>) ?v = Inr u)"
    using u by (auto simp: assoc_table_add_def bind_r_Inr_conv split: option.splits)
  show "w_ip w' = w_ip w" using m by (auto simp: modify_Inr_iff w')
  have "w_sent u = w_sent w" "w_dest u = w_ip w" using m by (auto simp: modify_Inr_iff)
  moreover have "li_vn_mode ?pkt AND 7 = x_mode x AND 7"
    using translate_header(3) [of ?x] by (simp add: prv_swap_fields_def)
  ultimately show "\<exists>pkt. w_sent w' = w_sent w @ [(w_ip w, pkt)] \<and> li_vn_mode pkt AND 7 = x_mode x AND 7"
    by (simp add: w')
qed

lemma peer_xmit_polls:
  assumes v: "valid w p" and run: "peer_xmit e p w = Inr w'"
  shows "p_hmode (peer w p) = 3 \<Longrightarrow> polled (p_srcaddr (peer w p)) w w'"
    and "w_ip w' = p_srcaddr (peer w p)"
proof -
  let ?v = "gettime e 0 (w\<lparr>w_ip := p_srcaddr (peer w p)\<rparr>)"
  obtain u x x' where u: "modify e p (\<lambda>q. q\<lparr>p_xmt := c_t (w_c w)\<rparr>) ?v = Inr u"
      and x: "x_mode x = p_hmode (peer w p)" "xmit_packet e x u = Inr (x', w')"
    using run v
    by (auto simp: peer_xmit_def Let_def bind_r_Inr_conv) (rule that [rotated 2], assumption, simp_all)
  have "w_sent u = w_sent w" "w_ip u = p_srcaddr (peer w p)" using u by (auto simp: modify_Inr_iff)
  then show "p_hmode (peer w p) = 3 \<Longrightarrow> polled (p_srcaddr (peer w p)) w w'" "w_ip w' = p_srcaddr (peer w p)"
    using xmit_sends [OF x(2)] x(1) by (auto simp: polled_def)
qed

lemma poll_polls:
  assumes ok: "okay b ips w" and p: "p \<in> set (w_peers w)" and d: "distinct ips" and e: "qsort_ok e" and b: "b < t_max"
    and run: "poll e p w = Inr w'"
  shows "frame p_srcaddr p w w'" and "polled (p_srcaddr (peer w p)) w w'" and "w_ip w' = p_srcaddr (peer w p)"
proof -
  note f = addr.poll_frame [OF assms]
  show "frame p_srcaddr p w w'" by (rule f)
  obtain u y h where u: "frame p_srcaddr p w u" "valid u p" "p_hmode (peer u p) = 3" "peer_xmit e p u = Inr y"
      "poll_update e p h y = Inr w'" using f(2) by blast
  note x = peer_xmit_polls [OF u(2,4)] and z = addr.poll_update_frame [OF u(5)]
  have a: "p_srcaddr (peer u p) = p_srcaddr (peer w p)" using u(1) okayD(1) [OF ok p] by (simp add: frame_def)
  then show "polled (p_srcaddr (peer w p)) w w'"
    using x(1) [OF u(3)] polled_before [OF u(1)] polled_after z(1) by metis
  show "w_ip w' = p_srcaddr (peer w p)" using z(2) x(2) a by simp
qed

text \<open>The association whose turn it is is due.\<close>

definition due :: "nat \<Rightarrow> world \<Rightarrow> bool" where
  "due i w \<longleftrightarrow> (word_of_int (p_nextdate (peer w (w_peers w ! i))) :: u32) \<le> lo32 (c_t (w_c w))"

lemma turn_frame:
  assumes ok: "okay b ips w" and i: "i < NMAX" and d: "distinct ips" and e: "qsort_ok e" and b: "b + 2 < t_max"
    and sane: "turn_sane e i w" and run: "poll_turn e i (r, w) = Inr (r', w')"
  shows "frame p_srcaddr (w_peers w ! i) w w'" and "due i w \<Longrightarrow> polled (ips ! i) w w'"
proof -
  let ?p = "w_peers w ! i"
  have len: "length (w_peers w) = NMAX" "length ips = NMAX" and a: "p_srcaddr (peer w ?p) = ips ! i"
    using ok i by (auto simp: okay_def client_ok_def addrs_def)
  have p: "?p \<in> set (w_peers w)" using i len by simp
  note v = okayD [OF ok p]
  have turn: "poll_turn e i (r, w) =
      (if due i w then bind_r (poll e ?p w) (\<lambda>w.
         let (r, w) = recv_packet e w in bind_r (receive e r w) (\<lambda>w. Inr (r, w))) else Inr (r, w))"
    using v(1) i len by (simp add: poll_turn_def table_at_def due_def Let_def)
  have main: "frame p_srcaddr ?p w w' \<and> polled (ips ! i) w w'" if D: "due i w"
  proof -
    obtain u where u: "poll e ?p w = Inr u"
        and x: "receive e (fst (recv_packet e u)) (snd (recv_packet e u)) = Inr w'"
      using run D unfolding turn by (auto simp: Let_def bind_r_Inr_conv case_prod_beta)
    have b0: "b < t_max" "b + 1 < t_max" using b by simp_all
    note f = poll_polls [OF ok p d e b0(1) u]
    have uo: "okay (b + 1) ips u" using poll_okay [OF ok p e b0(2)] u by simp
    have s: "packet_sane e (fst (recv_packet e u))" if "r_mode (fst (recv_packet e u)) = word_of_int M_SERV"
      using sane u that by (simp add: turn_sane_def answer_sane_def)
    have src: "r_mode (fst (recv_packet e u)) \<in> {1, 2, 3, 4, 5} \<Longrightarrow> r_srcaddr (fst (recv_packet e u)) = ips ! i"
      using recv_source [of e u] f(3) a by simp
    have pu: "w_peers (snd (recv_packet e u)) = w_peers w" using f(1) by (simp add: recv_packet_frame frame_def)
    have il: "i < length ips" using i len by simp
    have "frame p_srcaddr ?p (snd (recv_packet e u)) w'"
      using addr.receive_frame [OF recv_okay [OF uo] d e b0(2) s il src x] pu by simp
    with frame_recv have "frame p_srcaddr ?p u w'" by (rule frame_trans)
    then show ?thesis using frame_trans [OF f(1)] polled_after [OF f(2)] a by metis
  qed
  then show "due i w \<Longrightarrow> polled (ips ! i) w w'" by blast
  show "frame p_srcaddr ?p w w'"
  proof (cases "due i w")
    case False
    then have "w' = w" using run unfolding turn by simp
    then show ?thesis by simp
  qed (use main in blast)
qed


section \<open>Along the polling loop\<close>

text \<open>What a run from w0 keeps for the association i: it was polled, or its poll time is the old one.\<close>

fun track :: "env \<Rightarrow> u32 list \<Rightarrow> nat \<Rightarrow> world \<Rightarrow> int \<Rightarrow> loop_state \<Rightarrow> bool" where
  "track e ips i w0 b (pc, r, w) \<longleftrightarrow>
     loop_inv e ips b (pc, r, w) \<and> distinct ips \<and> i < NMAX \<and> w_peers w = w_peers w0 \<and>
     uint (c_t (w_c w0)) \<le> uint (c_t (w_c w)) \<and> (\<exists>l. w_sent w = w_sent w0 @ l) \<and>
     (polled (ips ! i) w0 w \<or>
      p_nextdate (peer w (w_peers w0 ! i)) = p_nextdate (peer w0 (w_peers w0 ! i)))"

lemma track_start:
  assumes "loop_inv e ips b (pc, r, w)" and "distinct ips" and "i < NMAX"
  shows "track e ips i w b (pc, r, w)"
  using assms by simp

lemma okay_table:
  assumes "okay b ips w" and "i < NMAX"
  shows "w_peers w ! i \<in> set (w_peers w)" and "valid w (w_peers w ! i)"
    and "p_srcaddr (peer w (w_peers w ! i)) = ips ! i" and "length ips = NMAX"
proof -
  have "length (w_peers w) = NMAX" and a: "ips = map (\<lambda>p. p_srcaddr (peer w p)) (w_peers w)"
    using assms(1) by (auto simp: okay_def client_ok_def addrs_def)
  then show p: "w_peers w ! i \<in> set (w_peers w)" and "length ips = NMAX"
    and "p_srcaddr (peer w (w_peers w ! i)) = ips ! i" using assms(2) by simp_all
  show "valid w (w_peers w ! i)" by (rule okayD(1) [OF assms(1) p])
qed

lemma entries_differ:
  assumes "okay b ips w" and "distinct ips" and "i < NMAX" and "j < NMAX" and "w_peers w ! i = w_peers w ! j"
  shows "i = j"
  using okay_table(3) [OF assms(1,3)] okay_table(3,4) [OF assms(1,4)] assms
  by (metis nth_eq_iff_index_eq)

lemma adjust_phase_frame:
  assumes "uint (c_t (w_c w)) < 2147483648"
  shows "frame p_srcaddr p w (adjust_phase e w)" and "uint (c_t (w_c (adjust_phase e w))) = uint (c_t (w_c w)) + 1"
proof -
  have c: "c_t (w_c (adjust_phase e w)) = c_t (w_c w) + 1"
    by (simp add: adjust_phase_def Let_def adjust_time_def)
  then show "uint (c_t (w_c (adjust_phase e w))) = uint (c_t (w_c w)) + 1"
    using assms by (simp add: uint_word_ariths)
  then show "frame p_srcaddr p w (adjust_phase e w)"
    by (intro frame_same) (simp_all add: adjust_phase_def Let_def adjust_time_def)
qed

lemma track_frame:
  assumes t: "track e ips i w0 b (pc, r, w)" and f: "frame p_srcaddr (w_peers w ! j) w w'" and j: "j < NMAX"
    and p: "j = i \<Longrightarrow> polled (ips ! i) w0 w' \<or> p_nextdate (peer w' (w_peers w ! i)) = p_nextdate (peer w (w_peers w ! i))"
    and inv: "loop_inv e ips b' (pc', r', w')"
  shows "track e ips i w0 b' (pc', r', w')"
proof -
  have ok: "okay b ips w" and d: "distinct ips" and i: "i < NMAX" and k: "w_peers w = w_peers w0"
    and s: "\<exists>l. w_sent w = w_sent w0 @ l" using t by simp_all
  have keep: "polled (ips ! i) w0 w \<Longrightarrow> polled (ips ! i) w0 w'" using polled_after f by blast
  have "polled (ips ! i) w0 w' \<or> p_nextdate (peer w' (w_peers w ! i)) = p_nextdate (peer w (w_peers w ! i))"
  proof (cases "j = i")
    case False
    then have "w_peers w ! i \<noteq> w_peers w ! j" using entries_differ [OF ok d i j] by blast
    then show ?thesis using f okay_table(2) [OF ok i] by (simp add: frame_def)
  qed (rule p)
  then show ?thesis
    using t f inv keep s d i unfolding frame_def k by (elim conjE exE) (auto simp: k intro: order_trans)
qed

lemma track_step:
  assumes t: "track e ips i w0 b st" and b: "b + 2 \<le> 2147483646" and sane: "loop_sane e st"
  shows "outc {Hang Sqrt_Loop, Exit 0, Signed_Overflow, Index_OOB Dispatch_Table} (track e ips i w0 (b + 2)) (loop_next e st)"
proof -
  obtain pc r w where st: "st = (pc, r, w)" by (cases st)
  have inv: "loop_inv e ips b st" and ok: "okay b ips w" and e: "qsort_ok e" and d: "distinct ips" and i: "i < NMAX"
    using t by (simp_all add: st)
  note next_inv = loop_next_inv [OF inv b sane]
  show ?thesis
  proof (cases "loop_next e st")
    case (Inl er)
    then show ?thesis using next_inv by simp
  next
    case (Inr st')
    obtain pc' r' w' where st': "st' = (pc', r', w')" by (cases st')
    have inv': "loop_inv e ips (b + 2) (pc', r', w')" using next_inv Inr st' by simp
    have tw: "track e ips i w0 b (pc, r, w)" using t st by simp
    show ?thesis
    proof (cases pc)
      case Tick
      then have w': "w' = adjust_phase e w" using Inr st st' by simp
      have "uint (c_t (w_c w)) < 2147483648" using ok b by (simp add: okay_def)
      note f = adjust_phase_frame(1) [OF this, of "w_peers w ! i" e]
      have "p_nextdate (peer w' (w_peers w ! i)) = p_nextdate (peer w (w_peers w ! i))"
        unfolding w' by (rule arg_cong [OF peer_frame]) (simp add: adjust_phase_def Let_def adjust_time_def)
      then show ?thesis using track_frame [OF tw f [folded w'] i _ inv'] Inr st' by simp
    next
      case (Turn j)
      have j: "j < NMAX" using inv st Turn by simp
      have run: "poll_turn e j (r, w) = Inr (r', w')" using Inr st st' Turn by (auto simp: bind_r_Inr_conv)
      have b2: "b + 2 < t_max" and sj: "turn_sane e j w" using b sane st Turn by simp_all
      note f = turn_frame [OF ok j d e b2 sj run]
      have "polled (ips ! i) w0 w' \<or> p_nextdate (peer w' (w_peers w ! i)) = p_nextdate (peer w (w_peers w ! i))"
        if "j = i"
      proof (cases "due i w")
        case True
        with f(2) that have "polled (ips ! i) w w'" by simp
        moreover have "\<exists>l. w_sent w = w_sent w0 @ l" using tw by simp
        ultimately show ?thesis by (auto simp: polled_def)
      next
        case False
        have "length (w_peers w) = NMAX" using ok by (simp add: okay_def client_ok_def)
        then have "w' = w" using run that False okay_table(2) [OF ok i] i
          by (simp add: poll_turn_def table_at_def due_def Let_def split: if_splits)
        then show ?thesis by simp
      qed
      from track_frame [OF tw f(1) j this inv'] show ?thesis using Inr st' by simp
    qed
  qed
qed

interpretation tracked: timed_machine "loop_next e" "track e ips i w0" "loop_sane e"
    "{Hang Sqrt_Loop, Exit 0, Signed_Overflow, Index_OOB Dispatch_Table}" 2 2147483646 for e ips i w0
  by unfold_locales (simp_all add: track_step)


lemma turn_pc:
  "runs (loop_next e) k (Turn 0, x) (pc, y) \<Longrightarrow> k < NMAX \<Longrightarrow> pc = Turn k"
proof (induction k arbitrary: pc y)
  case (Suc k)
  from Suc.prems(1) obtain pc' r w where u: "runs (loop_next e) k (Turn 0, x) (pc', r, w)"
      "loop_next e (pc', r, w) = Inr (pc, y)" by (auto simp: runs_Suc)
  have "pc' = Turn k" using Suc.IH [OF u(1)] Suc.prems(2) by simp
  then show ?case using u(2) Suc.prems(2) by (auto simp: bind_r_Inr_conv)
qed auto

text \<open>A sane run of the loop from a sound state.\<close>

definition sane_run :: "env \<Rightarrow> u32 list \<Rightarrow> int \<Rightarrow> nat \<Rightarrow> loop_state \<Rightarrow> loop_state \<Rightarrow> bool" where
  "sane_run e ips b n st st' \<longleftrightarrow> loop_inv e ips b st \<and> b + int n * 2 \<le> 2147483646 \<and>
     runs (loop_next e) n st st' \<and> (\<forall>m u. m < n \<longrightarrow> runs (loop_next e) m st u \<longrightarrow> loop_sane e u)"

lemma sane_run_split:
  assumes "sane_run e ips b (m + n) st st'"
  obtains u where "sane_run e ips b m st u" and "sane_run e ips (b + int m * 2) n u st'"
proof -
  note s = assms [unfolded sane_run_def]
  obtain u where u: "runs (loop_next e) m st u" "runs (loop_next e) n u st'"
    using s by (auto simp: runs_add)
  have b: "b + int m * 2 \<le> 2147483646" using s by (simp add: algebra_simps)
  have sm: "loop_sane e v" if "k < m" "runs (loop_next e) k st v" for k v
    using s that by (meson trans_less_add1)
  have i0: "loop_inv e ips b st" using s by blast
  have "loop_inv e ips (b + int m * 2) u" by (rule loop.run_inv [OF u(1) i0 b]) (rule sm)
  moreover have "loop_sane e v" if "k < n" "runs (loop_next e) k u v" for k v
  proof -
    have "runs (loop_next e) (m + k) st v" unfolding runs_add using u(1) that(2) by blast
    then show ?thesis using s that(1) by (metis add_less_cancel_left)
  qed
  ultimately have "sane_run e ips (b + int m * 2) n u st'"
    using s u(2) by (simp add: sane_run_def algebra_simps)
  moreover have "sane_run e ips b m st u"
    using i0 u(1) b sm unfolding sane_run_def by blast
  ultimately show ?thesis by (rule that [rotated])
qed

lemma sane_run_track:
  assumes "sane_run e ips b n (pc, r, w) (pc', r', w')" and "distinct ips" and "i < NMAX"
  shows "track e ips i w (b + int n * 2) (pc', r', w')"
proof -
  note s = assms(1) [unfolded sane_run_def]
  have run: "runs (loop_next e) n (pc, r, w) (pc', r', w')" and le: "b + int n * 2 \<le> 2147483646" using s by auto
  have "track e ips i w b (pc, r, w)" by (rule track_start [OF _ assms(2,3)]) (use s in blast)
  from tracked.run_inv [OF run this le] show ?thesis using s by blast
qed

text \<open>The first step of a round is the adjustment; five turns follow.\<close>

lemma round_start:
  assumes "sane_run e ips b 6 (Tick, r, w) (pc, r', w')"
  shows "sane_run e ips (b + 2) 5 (Turn 0, r, adjust_phase e w) (pc, r', w')"
    and "uint (c_t (w_c (adjust_phase e w))) = uint (c_t (w_c w)) + 1"
proof -
  have six: "(6 :: nat) = 1 + 5" by simp
  from assms [unfolded six] show "sane_run e ips (b + 2) 5 (Turn 0, r, adjust_phase e w) (pc, r', w')"
    by (rule sane_run_split) (auto simp: sane_run_def runs_Suc_left)
  have "uint (c_t (w_c w)) < 2147483648" using assms by (simp add: sane_run_def okay_def)
  then show "uint (c_t (w_c (adjust_phase e w))) = uint (c_t (w_c w)) + 1" by (rule adjust_phase_frame)
qed

lemma rounds_tick: "runs (loop_next e) (6 * n) (Tick, x) (pc, y) \<Longrightarrow> pc = Tick"
proof (induction n arbitrary: x)
  case (Suc n)
  have "6 * Suc n = 6 + 6 * n" by simp
  from Suc.prems [unfolded this] obtain pc' r w where u: "runs (loop_next e) 6 (Tick, x) (pc', r, w)"
      "runs (loop_next e) (6 * n) (pc', r, w) (pc, y)" by (auto simp: runs_add)
  have "pc' = Tick" using u(1) six_steps_tick [of e "fst x" "snd x"] by simp
  then show ?case using Suc.IH u(2) by simp
qed simp

lemma ticks:
  assumes "sane_run e ips b (6 * n) (Tick, r, w) (Tick, r', w')" and "distinct ips"
  shows "uint (c_t (w_c w)) + int n \<le> uint (c_t (w_c w'))"
  using assms(1)
proof (induction n arbitrary: b r w)
  case (Suc n)
  have "6 * Suc n = 6 + 6 * n" by simp
  from Suc.prems [unfolded this] obtain pc r1 w1 where u: "sane_run e ips b 6 (Tick, r, w) (pc, r1, w1)"
      "sane_run e ips (b + int 6 * 2) (6 * n) (pc, r1, w1) (Tick, r', w')"
    by (rule sane_run_split) (metis prod_cases3)
  have "runs (loop_next e) 6 (Tick, r, w) (pc, r1, w1)" using u(1) by (simp add: sane_run_def)
  then have "pc = Tick" by (rule six_steps_tick)
  with Suc.IH u(2) have "uint (c_t (w_c w1)) + int n \<le> uint (c_t (w_c w'))" by simp
  moreover have "uint (c_t (w_c w)) + 1 \<le> uint (c_t (w_c w1))"
    using round_start(2) [OF u(1)] sane_run_track [OF round_start(1) [OF u(1)] assms(2), of 0] by simp
  ultimately show ?case by simp
qed (simp add: sane_run_def)

text \<open>In a round that starts with the process time just before its poll time the association is polled.\<close>

lemma round_polls:
  assumes run: "sane_run e ips b 6 (Tick, r, w) (pc, r', w')" and d: "distinct ips" and i: "i < NMAX"
    and nd: "uint (word_of_int (p_nextdate (peer w (w_peers w ! i))) :: u32) \<le> uint (c_t (w_c w)) + 1"
  shows "polled (ips ! i) w w'"
proof -
  note s = round_start [OF run]
  let ?w = "adjust_phase e w"
  have five: "5 = i + (1 + (4 - i))" using i by simp
  from s(1) [unfolded five] obtain u v where u: "sane_run e ips (b + 2) i (Turn 0, r, ?w) u"
      and v: "sane_run e ips (b + 2 + int i * 2) 1 u v"
      and z: "sane_run e ips (b + 2 + int i * 2 + int 1 * 2) (4 - i) v (pc, r', w')"
    by (elim sane_run_split)
  obtain pu ru wu where pu: "u = (pu, ru, wu)" by (cases u)
  obtain pv rv wv where pv: "v = (pv, rv, wv)" by (cases v)
  have "pu = Turn i" using turn_pc [of e i "(r, ?w)" pu "(ru, wu)"] u pu i by (simp add: sane_run_def)
  then have step: "poll_turn e i (ru, wu) = Inr (rv, wv)" and ok: "okay (b + 2 + int i * 2) ips wu"
      and e: "qsort_ok e" and sane: "turn_sane e i wu" and b: "b + 2 + int i * 2 + 2 < t_max"
    using v pu pv by (auto simp: sane_run_def runs_Suc_left bind_r_Inr_conv)
  have tu: "track e ips i ?w (b + 2 + int i * 2) (pu, ru, wu)" using sane_run_track [OF _ d i] u pu by blast
  have tz: "track e ips i wv (b + 2 + int i * 2 + int 1 * 2 + int (4 - i) * 2) (pc, r', w')"
    using sane_run_track [OF _ d i] z pv by blast
  note f = turn_frame [OF ok i d e b sane step]
  have heap: "w_heap ?w = w_heap w" "w_peers ?w = w_peers w" "w_sent ?w = w_sent w"
    by (simp_all add: adjust_phase_def Let_def adjust_time_def)
  have "polled (ips ! i) ?w wv"
  proof (cases "polled (ips ! i) ?w wu")
    case True
    then show ?thesis using f(1) by (rule polled_after)
  next
    case False
    then have "p_nextdate (peer wu (w_peers w ! i)) = p_nextdate (peer w (w_peers w ! i))"
      using tu peer_frame [OF heap(1)] by (simp add: heap(2))
    moreover have "w_peers wu = w_peers w" using tu heap(2) by simp
    moreover have t: "uint (c_t (w_c w)) + 1 \<le> uint (c_t (w_c wu))" "uint (c_t (w_c wu)) < 2147483648"
      using tu s(2) ok b by (simp_all add: okay_def)
    ultimately have "due i wu" using nd by (simp add: due_def word_le_def uint_lo32)
    then have "polled (ips ! i) wu wv" by (rule f(2))
    moreover have "\<exists>l. w_sent wu = w_sent ?w @ l" using tu by simp
    ultimately show ?thesis by (auto simp: polled_def)
  qed
  moreover have "\<exists>l. w_sent w' = w_sent wv @ l" using tz by simp
  ultimately show ?thesis by (auto simp: polled_def heap(3))
qed

section \<open>Property\<close>

text \<open>C4: every association is polled. Take a sound client whose five servers have distinct
  addresses, and an association i whose next poll time is at most n seconds away. If n rounds of the
  polling loop (each one second of process time) complete, at least one request in client mode has
  been sent to its server in them, whatever the clock discipline did in the meantime and whatever the
  servers sent, as long as the packets in server mode were sane (the precision exponent gives a power
  of two that is not negative, the origin timestamp is less than 2^31 s from the arrival) and the clock
  bound, two seconds for each of the six steps of a round, stayed below 2^31 - 1; qsort() sorts by the
  total preorders it is given.\<close>

theorem every_association_polled:
  assumes "qsort_ok e" and "okay b ips w" and "distinct ips" and "i < NMAX" and "0 < n"
    and "b + int (6 * n) * 2 \<le> 2147483646"
    and "task_loop e n (r, w) = Inr (r', w')"
    and "\<And>m u. m < 6 * n \<Longrightarrow> runs (loop_next e) m (Tick, r, w) u \<Longrightarrow> loop_sane e u"
    and "uint (word_of_int (p_nextdate (peer w (w_peers w ! i))) :: u32) \<le> uint (c_t (w_c w)) + int n"
  shows "\<exists>l pkt. w_sent w' = w_sent w @ l \<and> (ips ! i, pkt) \<in> set l \<and> li_vn_mode pkt AND 7 = 3"
proof -
  obtain k where n: "n = Suc k" using assms(5) gr0_conv_Suc by blast
  then have six: "6 * n = 6 * k + 6" by simp
  have "sane_run e ips b (6 * n) (Tick, r, w) (Tick, r', w')"
    using assms(1,2,6,8) assms(7) [unfolded task_loop_runs] by (simp add: sane_run_def)
  from this [unfolded six] obtain pc r1 w1 where u: "sane_run e ips b (6 * k) (Tick, r, w) (pc, r1, w1)"
      "sane_run e ips (b + int (6 * k) * 2) 6 (pc, r1, w1) (Tick, r', w')"
    by (rule sane_run_split) (metis prod_cases3)
  have "runs (loop_next e) (6 * k) (Tick, r, w) (pc, r1, w1)" using u(1) by (simp add: sane_run_def)
  then have pc: "pc = Tick" by (rule rounds_tick)
  have t: "uint (c_t (w_c w)) + int k \<le> uint (c_t (w_c w1))" using u(1) pc assms(3) ticks by blast
  have tr: "track e ips i w (b + int (6 * k) * 2) (pc, r1, w1)" by (rule sane_run_track [OF u(1) assms(3,4)])
  have tr2: "track e ips i w1 (b + int (6 * k) * 2 + int 6 * 2) (Tick, r', w')"
    by (rule sane_run_track [OF u(2) assms(3,4)])
  have "polled (ips ! i) w w'"
  proof (cases "polled (ips ! i) w w1")
    case True
    moreover have "\<exists>l. w_sent w' = w_sent w1 @ l" using tr2 by simp
    ultimately show ?thesis by (auto simp: polled_def)
  next
    case False
    then have "p_nextdate (peer w1 (w_peers w1 ! i)) = p_nextdate (peer w (w_peers w ! i))"
      "w_peers w1 = w_peers w" using tr by simp_all
    then have "polled (ips ! i) w1 w'"
      using assms(9) t n by (intro round_polls [OF u(2) [unfolded pc] assms(3,4)]) simp
    moreover have "\<exists>l. w_sent w1 = w_sent w @ l" using tr by simp
    ultimately show ?thesis by (auto simp: polled_def)
  qed
  then show ?thesis by (simp add: polled_def)
qed


section \<open>Witness\<close>

text \<open>
  A network in which every reception delivers a client's packet (mode 3) of version 5, which
  receive() discards, and a client with five servers of distinct addresses, whose first association is due
  and reachable and whose others are due much later.
\<close>

definition busy_env :: env where
  "busy_env = demo_env\<lparr>e_recvfrom := \<lambda>n. (48, zero_packet\<lparr>li_vn_mode := 43\<rparr>)\<rparr>"

definition five_peer :: "nat \<Rightarrow> ntp_p" where
  "five_peer a = client_peer\<lparr>p_srcaddr := of_nat a + 1, p_reach := 1,
     p_nextdate := (if a = 0 then 0 else 1000000)\<rparr>"

definition five_world :: world where
  "five_world = (demo_world client_peer)\<lparr>w_heap := \<lambda>a. if a < 5 then Some (five_peer a) else None\<rparr>"

lemma busy_answers: "r_mode (fst (recv_packet busy_env w)) = 3" "r_version (fst (recv_packet busy_env w)) = 5"
  by (simp_all add: recv_packet_def busy_env_def prv_create_ntp_r_def prv_swap_fields_def zero_packet_def Let_def
      drop_bit_eq_div split: prod.splits)

lemma busy_answer_sane: "answer_sane busy_env w"
  by (simp add: answer_sane_def busy_answers)

lemma busy_receive: "receive busy_env (fst (recv_packet busy_env w)) u = Inr u"
  by (simp add: receive_def busy_answers)

lemma busy_sane: "loop_sane busy_env st"
  by (cases "(busy_env, st)" rule: loop_sane.cases) (simp_all add: turn_sane_def busy_answer_sane split: sum.splits)

lemma busy_qsort_ok: "qsort_ok busy_env"
  using demo_qsort_ok by (simp add: qsort_ok_def busy_env_def)

lemma five_world_okay: "okay 0 [1, 2, 3, 4, 5] five_world"
  by (simp add: okay_def client_ok_def five_world_def five_peer_def addrs_def peer_ok_def stage_ok_def
      client_peer_def zero_p_def zero_f_def zero_s_def zero_v_def zero_c_def zero_dbl_def repr_def table_ok_def
      sys_ok_def ptr_ok_def poll_ok_def peer_def)

text \<open>A poll of an association that has answered within its last polls does not filter, and so returns.\<close>

lemma set_peer_twice: "set_peer p q (set_peer p q' w) = set_peer p q w"
  by (cases p) (simp_all add: set_peer_def)

lemma reachable_quiet:
  assumes v: "valid w p" and reach: "i32 (p_reach (peer w p) * 2) AND 7 \<noteq> 0"
  shows "\<exists>h q. poll_quiet e p hpoll w = Inr (h, set_peer p q w)"
proof -
  have nz: "i32 (p_reach (peer w p) * 2) \<noteq> 0" using reach by auto
  show ?thesis using v reach nz by (simp add: poll_quiet_def case_prod_beta set_peer_twice) blast
qed

lemma busy_poll:
  assumes ok: "okay b ips w" and p: "p \<in> set (w_peers w)" and b: "b + 1 < t_max" and e: "qsort_ok e"
    and reach: "i32 (p_reach (peer w p) * 2) AND 7 \<noteq> 0"
  shows "\<exists>w'. poll e p w = Inr w'"
proof -
  note v = okayD [OF ok p]
  have h: "p_hmode (peer w p) = 3" "p_flags (peer w p) = 0" "p_burst (peer w p) = 0"
    using v(2) by (simp_all add: peer_ok_def)
  have eq: "poll e p w = bind_r (poll_quiet e p (uint (p_hpoll (peer w p))) w) (\<lambda>(hpoll, w).
      bind_r (load e w p) (\<lambda>q. bind_r (if p_hmode q \<noteq> word_of_int M_BCLN then peer_xmit e p w else Inr w)
        (\<lambda>w. poll_update e p hpoll w)))"
    using v(1) h by (simp add: poll_def Let_def)
  have b0: "b < t_max" using b by simp
  obtain hp u where u: "poll_quiet e p (uint (p_hpoll (peer w p))) w = Inr (hp, u)"
    using reachable_quiet [OF v(1) reach] by blast
  have uo: "okay (b + 1) ips u" and up: "p \<in> set (w_peers u)"
    using poll_quiet_okay [OF ok p e b0, of "uint (p_hpoll (peer w p))"] u by simp_all
  note vu = okayD [OF uo up]
  obtain y where y: "peer_xmit e p u = Inr y" "okay (b + 1) ips y" "p \<in> set (w_peers y)"
    using peer_xmit_okay [OF uo up, of e] up by (auto simp: outc_def split: sum.splits)
  have "\<exists>z. poll_update e p hp y = Inr z"
    using poll_update_okay [OF y(2,3) b, of e hp] by (auto simp: outc_def split: sum.splits)
  moreover have "p_hmode (peer u p) = 3" using vu(2) by (simp add: peer_ok_def)
  ultimately show ?thesis using vu(1) by (simp add: eq u y(1))
qed

lemma busy_turn:
  assumes ok: "okay b ips w" and i: "i < NMAX" and b: "b + 1 < t_max"
    and reach: "i32 (p_reach (peer w (w_peers w ! i)) * 2) AND 7 \<noteq> 0"
  shows "\<exists>r' w'. poll_turn busy_env i (r, w) = Inr (r', w')"
proof -
  have len: "length (w_peers w) = NMAX" using ok by (simp add: okay_def client_ok_def)
  then have p: "w_peers w ! i \<in> set (w_peers w)" using i by simp
  obtain u where "poll busy_env (w_peers w ! i) w = Inr u"
    using busy_poll [OF ok p b busy_qsort_ok reach] by blast
  then show ?thesis using okayD(1) [OF ok p] i len
    by (simp add: poll_turn_def table_at_def Let_def case_prod_beta busy_receive)
qed

lemma idle_turn:
  assumes ok: "okay b ips w" and i: "i < NMAX" and "\<not> due i w"
  shows "poll_turn e i (r, w) = Inr (r, w)"
proof -
  have len: "length (w_peers w) = NMAX" using ok by (simp add: okay_def client_ok_def)
  then have p: "w_peers w ! i \<in> set (w_peers w)" using i by simp
  show ?thesis using okayD(1) [OF ok p] i len assms(3) by (simp add: poll_turn_def table_at_def due_def Let_def)
qed

lemma five_round: "\<exists>r' w'. runs (loop_next busy_env) 6 (Tick, zero_r, five_world) (Tick, r', w')"
proof -
  let ?w = "adjust_phase busy_env five_world"
  have ok: "okay 1 [1, 2, 3, 4, 5] ?w" using adjust_phase_okay [OF five_world_okay] by simp
  have heap: "w_heap ?w = w_heap five_world" "w_peers ?w = [Addr 0, Addr 1, Addr 2, Addr 3, Addr 4]"
    by (simp_all add: adjust_phase_def Let_def adjust_time_def five_world_def)
  have five: "peer ?w (Addr a) = five_peer a" "valid ?w (Addr a)" if "a < 5" for a
    using that heap(1) by (simp_all add: peer_def five_world_def)
  obtain r w where turn: "poll_turn busy_env 0 (zero_r, ?w) = Inr (r, w)"
    using busy_turn [OF ok, of 0 zero_r] five(1) [of 0] heap(2) by (auto simp: five_peer_def i32_def)
  have sane: "turn_sane busy_env 0 ?w"
    by (simp add: turn_sane_def busy_answer_sane split: sum.splits)
  have "outc {Hang Sqrt_Loop, Exit 0, Signed_Overflow, Index_OOB Dispatch_Table} (\<lambda>(r', w'). okay (1 + 2) [1, 2, 3, 4, 5] w')
      (poll_turn busy_env 0 (zero_r, ?w))"
    by (rule poll_turn_okay [OF ok _ busy_qsort_ok _ sane]) simp_all
  then have w: "okay 3 [1, 2, 3, 4, 5] w" using turn by simp
  have "frame p_srcaddr (w_peers ?w ! 0) ?w w"
    by (rule turn_frame(1) [OF ok _ _ busy_qsort_ok _ sane turn]) simp_all
  then have f: "w_peers w = [Addr 0, Addr 1, Addr 2, Addr 3, Addr 4]"
      "\<And>a. a < 5 \<Longrightarrow> a \<noteq> 0 \<Longrightarrow> p_nextdate (peer w (Addr a)) = 1000000"
    using five heap(2) by (auto simp: frame_def five_peer_def)
  have "uint (c_t (w_c w)) \<le> 3" using w by (simp add: okay_def)
  then have "uint (lo32 (c_t (w_c w))) \<le> 3" by (simp add: uint_lo32)
  then have idle: "poll_turn busy_env i (r, w) = Inr (r, w)" if "i \<in> {1, 2, 3, 4}" for i
    using that f by (intro idle_turn [OF w]) (auto simp: due_def word_le_def)
  have "runs (loop_next busy_env) 6 (Tick, zero_r, five_world) (Tick, r, w)"
    using turn idle by (simp add: numeral_eq_Suc runs_Suc_left)
  then show ?thesis by blast
qed

theorem every_association_polled_witness:
  "\<exists>r' w'. task_loop busy_env 1 (zero_r, five_world) = Inr (r', w') \<and>
     (\<exists>l pkt. w_sent w' = w_sent five_world @ l \<and> (1, pkt) \<in> set l \<and> li_vn_mode pkt AND 7 = 3)"
proof -
  obtain r' w' where run: "task_loop busy_env 1 (zero_r, five_world) = Inr (r', w')"
    using five_round task_loop_runs [of busy_env 1] by auto
  have "\<exists>l pkt. w_sent w' = w_sent five_world @ l \<and> ([1, 2, 3, 4, 5] ! 0, pkt) \<in> set l \<and> li_vn_mode pkt AND 7 = 3"
    by (rule every_association_polled [OF busy_qsort_ok five_world_okay _ _ _ _ run])
      (simp_all add: busy_sane five_world_def five_peer_def peer_def zero_c_def)
  with run show ?thesis by auto
qed

end
