(* ===== verification/Peer_Props.thy ===== *)
theory Peer_Props
  imports Loop
begin

text \<open>
  What single operations of the peer and poll processes compute: the stages of the clock filter,
  the sample of a packet, the gates of receive(), and the poll times.
\<close>

section \<open>The clock filter\<close>

text \<open>The dispersion after the shift has added d to it k times.\<close>

fun aged :: "dbl \<Rightarrow> nat \<Rightarrow> dbl \<Rightarrow> dbl" where
  "aged d 0 x = x"
| "aged d (Suc k) x = aged d k x + d"

lemma shift_prefix:
  assumes "length f = NSTAGE" and "k < NSTAGE"
  shows "length (fold (\<lambda>i f. f[i := (f ! (i - 1))\<lparr>f_disp := f_disp (f ! (i - 1)) + d\<rparr>]) [1..<Suc k] f) = NSTAGE \<and>
    (\<forall>i \<le> k. fold (\<lambda>i f. f[i := (f ! (i - 1))\<lparr>f_disp := f_disp (f ! (i - 1)) + d\<rparr>]) [1..<Suc k] f ! i =
      (f ! 0)\<lparr>f_disp := aged d i (f_disp (f ! 0))\<rparr>)"
  using assms
proof (induction k)
  case (Suc k)
  let ?g = "fold (\<lambda>i f. f[i := (f ! (i - 1))\<lparr>f_disp := f_disp (f ! (i - 1)) + d\<rparr>]) [1..<Suc k] f"
  have "[1..<Suc (Suc k)] = [1..<Suc k] @ [Suc k]" by simp
  then have eq: "fold (\<lambda>i f. f[i := (f ! (i - 1))\<lparr>f_disp := f_disp (f ! (i - 1)) + d\<rparr>]) [1..<Suc (Suc k)] f =
      ?g[Suc k := (?g ! k)\<lparr>f_disp := f_disp (?g ! k) + d\<rparr>]" by (simp only: fold_append o_apply fold_simps) simp
  have IH: "length ?g = NSTAGE" "\<forall>i \<le> k. ?g ! i = (f ! 0)\<lparr>f_disp := aged d i (f_disp (f ! 0))\<rparr>"
    using Suc by simp_all
  show ?case unfolding eq using IH Suc.prems(2) by (auto simp: nth_list_update le_Suc_eq)
qed simp

lemma shift_stages_copies:
  assumes "length f = NSTAGE" and "i < NSTAGE"
  shows "shift_stages d f ! i = (f ! 0)\<lparr>f_disp := aged d i (f_disp (f ! 0))\<rparr>"
  using shift_prefix [OF assms(1), of 7 d] assms(2) by (simp add: shift_stages_def)

text \<open>C36: the clock filter remembers one sample. When clock_filter() stores a sample, stage 0 is
  the new sample with the process time, and every other stage is a copy of what stage 0 held
  before, its dispersion increased once for each stage passed; none of the samples the stages 1
  to 7 held survives. The association's offset and delay are those of the new sample.\<close>

theorem filter_remembers_one_sample:
  assumes "length (p_f q) = NSTAGE" and "filter_sample e w q offset delay disp = Inr q'"
  shows "length (p_f q') = NSTAGE \<and> p_offset q' = offset \<and> p_delay q' = delay \<and>
    p_f q' ! 0 = \<lparr>f_t = c_t (w_c w), f_offset = offset, f_delay = delay, f_disp = disp\<rparr> \<and>
    (\<forall>i. 0 < i \<longrightarrow> i < NSTAGE \<longrightarrow> p_f q' ! i = (p_f q ! 0)\<lparr>f_disp :=
       aged (LFP2D (PHI * dbl_of_int (subtract_uint64_t (c_t (w_c w)) (p_t q)))) i (f_disp (p_f q ! 0))\<rparr>)"
proof -
  have "length (shift_stages d (p_f q)) = NSTAGE" for d
    using shift_prefix [OF assms(1), of 7 d] by (simp add: shift_stages_def)
  then show ?thesis
    using assms shift_stages_copies [OF assms(1)]
    by (auto simp: filter_sample_def Let_def bind_r_Inr_conv split: prod.splits)
qed

section \<open>The sample of a packet\<close>

lemma LFP2D_exact:
  assumes "\<bar>n\<bar> < 2 ^ 53"
  shows "LFP2D (dbl_of_int n) = Fin (of_int n / 4294967296)"
proof -
  have "flt (of_int n * 2 powi (- 32)) = Fin (of_int n * 2 powi (- 32))" using assms by (intro flt_dyadic) simp_all
  then show ?thesis using assms pow2_neg [of 32] by (simp add: LFP2D_def dbl_of_int_exact)
qed

lemma sint_difference:
  assumes "\<bar>uint x - uint y\<bar> < 9223372036854775808"
  shows "subtract_uint64_t x y = \<bar>uint x - uint y\<bar>"
  using assms by (intro subtract_nonneg) linarith+

text \<open>The offset of a sample has no sign. For a packet that is not a broadcast, whose four
  timestamps are within 2^30 seconds of each other, packet() takes half the sum of the absolute
  differences |rec - org| and |dst - xmt| as the offset, never a negative number, whether the
  server is ahead or behind, and the absolute difference of the two elapsed times, but at least
  the local precision, as the delay. When the low halves of the differences sum to a negative
  number the offset is wrong by the seconds, and their overflow is undefined.\<close>

theorem sample_offset_unsigned:
  assumes "p_pmode q \<noteq> 5"
    and "\<bar>uint (r_rec r) - uint (r_org r)\<bar> < 2 ^ 62" and "\<bar>uint (r_dst r) - uint (r_xmt r)\<bar> < 2 ^ 62"
    and "\<bar>uint (r_dst r) - uint (r_org r)\<bar> < 2 ^ 62" and "\<bar>uint (r_rec r) - uint (r_xmt r)\<bar> < 2 ^ 62"
    and "sample e w q r = Inr (offset, delay, disp)"
  shows "let a = \<bar>uint (r_rec r) - uint (r_org r)\<bar>; b = \<bar>uint (r_dst r) - uint (r_xmt r)\<bar>;
      low = i32 (a mod 2 ^ 32) + i32 (b mod 2 ^ 32);
      elapsed = \<bar>uint (r_dst r) - uint (r_org r)\<bar>; served = \<bar>uint (r_rec r) - uint (r_xmt r)\<bar> in
    offset = LFP2D (dbl_of_int (if 0 \<le> low then a + b else low)) / flt 2 \<and>
    delay = cmax (LFP2D (dbl_of_int \<bar>elapsed - served\<bar>)) (LOG2D (e_shl e) (sint (s_precision (w_s w))))"
proof -
  let ?a = "\<bar>uint (r_rec r) - uint (r_org r)\<bar>" and ?b = "\<bar>uint (r_dst r) - uint (r_xmt r)\<bar>"
  let ?el = "\<bar>uint (r_dst r) - uint (r_org r)\<bar>" and ?sv = "\<bar>uint (r_rec r) - uint (r_xmt r)\<bar>"
  have p: "(2 :: int) ^ 62 = 4611686018427387904" "(2 :: int) ^ 32 = 4294967296" by simp_all
  have d: "subtract_uint64_t (r_rec r) (r_org r) = ?a" "subtract_uint64_t (r_dst r) (r_xmt r) = ?b"
    "subtract_uint64_t (r_dst r) (r_org r) = ?el" "subtract_uint64_t (r_rec r) (r_xmt r) = ?sv"
    using assms(2-5) unfolding p by (auto intro!: sint_difference)
  have u: "uint (word_of_int ?el :: tstamp) = ?el" "uint (word_of_int ?sv :: tstamp) = ?sv"
    using assms(4,5) unfolding p by (auto simp: uint_word_of_int)
  have "\<bar>?el - ?sv\<bar> < 9223372036854775808" using assms(4,5) unfolding p by linarith
  then have e: "subtract_uint64_t (word_of_int ?el) (word_of_int ?sv) = \<bar>?el - ?sv\<bar>"
    using sint_difference [of "word_of_int ?el" "word_of_int ?sv"] u by simp
  from assms(1,6) obtain z where z: "add_int64_t ?a ?b = Inr z" and
      o: "offset = LFP2D (dbl_of_int z) / flt 2"
      "delay = cmax (LFP2D (dbl_of_int \<bar>?el - ?sv\<bar>)) (LOG2D (e_shl e) (sint (s_precision (w_s w))))"
    by (auto simp: sample_def d e Let_def outcome_simps)
  have "z = (let low = i32 (?a mod 4294967296) + i32 (?b mod 4294967296) in if 0 \<le> low then ?a + ?b else low)"
    using assms(2,3) z unfolding p by (intro add_int64_t_result) simp_all
  with o show ?thesis by (simp add: Let_def p)
qed


section \<open>The gates of receive()\<close>

lemma unix_seconds_eq_iff: "unix_seconds x = unix_seconds y \<longleftrightarrow> hi32 x = hi32 y"
proof -
  have d: "drop_bit 32 z = ucast (hi32 z)" for z :: tstamp
    by (rule bit_word_eqI) (auto simp: hi32_def bit_simps dest: bit_imp_le_length)
  have "unix_seconds x = unix_seconds y \<longleftrightarrow> drop_bit 32 x = drop_bit 32 y" by (simp add: unix_seconds_def)
  also have "\<dots> \<longleftrightarrow> hi32 x = hi32 y" by (metis d hi32_def)
  finally show ?thesis .
qed

text \<open>The timestamp of 1 January 1970.\<close>

abbreviation (input) unix_epoch :: tstamp where "unix_epoch \<equiv> join32 2208988800 0"

lemma is_zero_time_iff: "is_zero_time t \<longleftrightarrow> t = unix_epoch"
proof -
  have "unix_seconds t = 0 \<longleftrightarrow> unix_seconds t = unix_seconds unix_epoch"
    by (simp add: unix_seconds_def join32_def drop_bit_push_bit)
  then show ?thesis unfolding is_zero_time_def unix_seconds_eq_iff by (simp add: halves_eq_iff [of t])
qed

text \<open>The gates before packet(). An unauthenticated packet whose transmit timestamp is 1
  January 1970 (not the zero timestamp the comment names) or equals the association's is dropped
  and nothing changes. Any other has its transmit and receive timestamps stored in the association
  as org and rec, even when it is then dropped for being unsynchronised (origin 1970), for being
  bogus, or for want of a key. Bogus means that both halves of the origin differ from the
  timestamp sent: a packet that guesses one half right goes on to packet().\<close>

theorem check_packet_gates:
  assumes "valid w p"
  shows "check_packet e p r A_NONE w =
    (let q = peer w p; w1 = set_peer p (q\<lparr>p_org := r_xmt r, p_rec := r_dst r\<rparr>) w in
     if r_xmt r = unix_epoch \<or> r_xmt r = p_xmt q then Inr w
     else if r_mode r \<noteq> 5 \<and>
         (r_org r = unix_epoch \<or> hi32 (r_org r) \<noteq> hi32 (p_xmt q) \<and> lo32 (r_org r) \<noteq> lo32 (p_xmt q)) then Inr w1
     else if p_keyid q \<noteq> 0 \<or> p_flags q AND P_NOTRUST \<noteq> 0 then Inr w1
     else packet e p r w1)"
proof -
  let ?q = "peer w p"
  have dup: "unix_seconds (r_xmt r) = unix_seconds (p_xmt ?q) \<and> lo32 (r_xmt r) = lo32 (p_xmt ?q) \<longleftrightarrow>
      r_xmt r = p_xmt ?q" unfolding unix_seconds_eq_iff by (rule halves_eq_iff [symmetric])
  have syn: "synch r ?q \<longleftrightarrow> \<not> (r_mode r \<noteq> 5 \<and> (r_org r = unix_epoch \<or>
      hi32 (r_org r) \<noteq> hi32 (p_xmt ?q) \<and> lo32 (r_org r) \<noteq> lo32 (p_xmt ?q)))"
    unfolding synch_def is_zero_time_iff unix_seconds_eq_iff by simp
  have auth: "AUTH b A_NONE \<longleftrightarrow> \<not> b" for b by (simp add: AUTH_def)
  show ?thesis
    unfolding check_packet_def load_valid [OF assms] modify_valid [OF assms] bind_r.simps dup
      is_zero_time_iff syn auth Let_def
    by (cases "r_xmt r = unix_epoch"; simp split del: if_split cong: if_cong)
qed

text \<open>C37: a lost answer reads outside the dispatch table. When no packet arrives, recv_packet()
  leaves the cleared receive structure, and receive(), called on it all the same, looks up mode
  0: whatever associations a sound table holds, the call ends in an access outside the table.\<close>

theorem lost_answer_out_of_bounds:
  assumes "table_ok w" and "e_recvfrom e (w_recvs w) = (n, pkt)" and "n \<le> 0"
  shows "case recv_packet e w of (r, w') \<Rightarrow> r = zero_r \<and> receive e r w' = Inl (Index_OOB Dispatch_Table)"
proof -
  let ?w = "w\<lparr>w_recvs := Suc (w_recvs w)\<rparr>"
  have tab: "table_ok ?w" using assms(1) by simp
  define p where "p = (case List.find (\<lambda>p. p_srcaddr (peer ?w p) = r_srcaddr zero_r) (w_peers ?w) of
    None \<Rightarrow> NULL | Some p \<Rightarrow> p)"
  have find: "find_assoc e zero_r ?w = Inr p" using find_assoc_list [OF tab] by (simp add: p_def)
  obtain q where q: "load e ?w p = Inr q" using find_assoc_valid [OF tab find] by fastforce
  have "dispatch_code (p_hmode q) 0 = Inl (Index_OOB Dispatch_Table)" by (rule dispatch_bad_mode) simp
  then have "receive e zero_r ?w = Inl (Index_OOB Dispatch_Table)"
    using find q by (simp add: receive_def access_def zero_r_def)
  then show ?thesis using assms(2,3) by (simp add: recv_packet_def)
qed

section \<open>Poll times\<close>

lemma not_due:
  assumes "- 2147483648 \<le> d" and "d < 2147483648" and "c < int_to_u64 d" and "uint c < 2147483648"
  shows "lo32 c < (word_of_int d :: u32)"
proof -
  have lo: "uint (lo32 c) = uint c" using assms(4) by (simp add: uint_lo32)
  have "uint c < uint (word_of_int d :: u32)"
  proof (cases "0 \<le> d")
    case True
    then have "uint (int_to_u64 d) = d" "uint (word_of_int d :: u32) = d"
      using assms(2) by (simp_all add: int_to_u64_def uint_word_of_int)
    then show ?thesis using assms(3) by (simp add: word_less_def)
  next
    case False
    have "d mod 4294967296 = (d + 4294967296) mod 4294967296" by simp
    also have "\<dots> = d + 4294967296" using False assms(1) by (intro mod_pos_pos_trivial) simp_all
    finally have "uint (word_of_int d :: u32) = d + 4294967296" by (simp add: uint_word_of_int)
    then show ?thesis using assms(1,4) by simp
  qed
  then show ?thesis by (simp add: word_less_def lo)
qed

text \<open>C35: poll_update() schedules. Outside a burst it always returns; it clamps the host poll
  exponent to MINPOLL..MAXPOLL and sets the next poll time to one that is not yet due: while the
  process time stays below 2^31 - 1, a turn of clock_adjust() at the same time does not poll this
  association. It changes no other field of the association, and no other association.\<close>

theorem poll_update_schedules:
  assumes v: "valid w p" and b: "p_burst (peer w p) = 0" and t: "uint (c_t (w_c w)) < 2147483647"
  shows "\<exists>w' d. poll_update e p hpoll w = Inr w' \<and>
    peer w' p = (peer w p)\<lparr>p_hpoll := word_of_int (max (min MAXPOLL hpoll) MINPOLL), p_nextdate := d\<rparr> \<and>
    - 2147483648 \<le> d \<and> d < 2147483648 \<and> lo32 (c_t (w_c w')) < (word_of_int d :: u32) \<and>
    c_t (w_c w') = c_t (w_c w) \<and> (\<forall>q. q \<noteq> p \<longrightarrow> peer w' q = peer w q)"
proof -
  let ?h = "word_of_int (max (min MAXPOLL hpoll) MINPOLL) :: u8" and ?t = "c_t (w_c w)"
  let ?q = "(peer w p)\<lparr>p_hpoll := ?h\<rparr>"
  let ?w = "set_peer p ?q w"
  define nd where "nd = i32 (p_outdate (peer w p) + 2 ^ nat (max (min (uint (p_ppoll (peer w p))) (uint ?h)) MINPOLL))"
  obtain d1 u where u: "spread_nextdate e nd ?w = (d1, u)" by fastforce
  then have u': "valid u p" "peer u p = ?q" "c_t (w_c u) = ?t" "\<And>r. r \<noteq> p \<Longrightarrow> peer u r = peer w r"
    using v by (auto simp: spread_nextdate_def split: if_splits)
  have "- 2147483648 \<le> nd \<and> nd < 2147483648" unfolding nd_def by (intro conjI i32_range)
  moreover have "- 2147483648 \<le> dbl_to_i32 g y \<and> dbl_to_i32 g y < 2147483648" for g y
    unfolding dbl_to_i32_def by (intro conjI i32_range)
  ultimately have d1: "- 2147483648 \<le> d1 \<and> d1 < 2147483648"
    using u by (auto simp: spread_nextdate_def split: if_splits)
  have st: "sint ?t = uint ?t"
    using uint_ge_0 [of ?t] t unfolding sint_i64 by (intro i64_id) linarith+
  have n: "add_int64_t (sint ?t) 1 = Inr (uint ?t + 1)" using add_int64_t_small [of "uint ?t"] t st by simp
  define d where "d = (if int_to_u64 d1 \<le> ?t then uint ?t + 1 else d1)"
  have i: "i32 (uint ?t + 1) = uint ?t + 1" using t uint_ge_0 [of ?t] by (intro i32_id) linarith+
  have run: "poll_update e p hpoll w = Inr (set_peer p (?q\<lparr>p_nextdate := d\<rparr>) u)"
    using v b u u'(1-3) n i by (simp add: poll_update_def nd_def [symmetric] d_def)
  have dr: "- 2147483648 \<le> d \<and> d < 2147483648" using d1 t uint_ge_0 [of ?t] by (simp add: d_def)
  have "?t < int_to_u64 d"
  proof (cases "int_to_u64 d1 \<le> ?t")
    case True
    have "uint (int_to_u64 (uint ?t + 1)) = uint ?t + 1"
      unfolding int_to_u64_def uint_word_of_int using t by (intro mod_pos_pos_trivial) simp_all
    then show ?thesis using True by (simp add: d_def word_less_def)
  qed (simp add: d_def)
  then have "lo32 ?t < (word_of_int d :: u32)" using dr t by (intro not_due) simp_all
  then show ?thesis using run u' dr by (intro exI [of _ "set_peer p (?q\<lparr>p_nextdate := d\<rparr>) u"] exI [of _ d]) simp
qed


section \<open>Witnesses\<close>

theorem filter_remembers_one_sample_witness:
  "\<exists>q'. filter_sample demo_env (demo_world client_peer) client_peer (Fin 1) (Fin 1) (Fin 0) = Inr q' \<and>
    f_offset (p_f q' ! 0) = Fin 1 \<and> f_offset (p_f q' ! 7) = Fin 0 \<and> p_offset q' = Fin 1"
proof -
  have q: "peer_ok client_peer"
    by (simp add: peer_ok_def stage_ok_def client_peer_def zero_p_def zero_f_def zero_dbl_def repr_def)
  have one: "bd k (Fin 1)" "wfd (Fin 1)" for k using repr_int [of 1] small_lt_ovf [of 1] by simp_all
  have "uint (c_t (w_c (demo_world client_peer))) < 9223372036854775808"
    "sint (s_precision (w_s (demo_world client_peer))) = PRECISION"
    using client_world_okay by (simp_all add: okay_def client_ok_def)
  from filter_sample_ok [OF q this, of "Fin 1" "Fin 1" "Fin 0" demo_env] one
  obtain q' where q': "filter_sample demo_env (demo_world client_peer) client_peer (Fin 1) (Fin 1) (Fin 0) = Inr q'"
    by (auto simp: zero_dbl_def)
  have "length (p_f client_peer) = NSTAGE" by (simp add: client_peer_def zero_p_def)
  from filter_remembers_one_sample [OF this q'] q' show ?thesis
    by (simp add: client_peer_def zero_p_def zero_f_def)
qed

theorem sample_offset_unsigned_witness:
  "\<exists>delay disp. sample demo_env boot_world zero_p (zero_r\<lparr>r_org := 10, r_rec := 4, r_xmt := 5, r_dst := 13\<rparr>) =
    Inr (LFP2D (dbl_of_int 14) / flt 2, delay, disp)"
proof -
  let ?r = "zero_r\<lparr>r_org := 10, r_rec := 4, r_xmt := 5, r_dst := 13\<rparr>"
  have "add_int64_t 6 8 = Inr 14" by (simp add: add_int64_t_def add32_def i32_def Let_def)
  then obtain offset delay disp where s: "sample demo_env boot_world zero_p ?r = Inr (offset, delay, disp)"
    by (simp add: sample_def zero_p_def subtract_uint64_t_eq Let_def)
  have "offset = LFP2D (dbl_of_int 14) / flt 2"
    using sample_offset_unsigned [OF _ _ _ _ _ s] by (simp add: zero_p_def i32_def Let_def)
  with s show ?thesis by auto
qed

theorem check_packet_gates_witness:
  "check_packet demo_env (Addr 0) (zero_r\<lparr>r_xmt := 5\<rparr>) A_NONE (one_peer (zero_p\<lparr>p_xmt := 5\<rparr>)) =
    Inr (one_peer (zero_p\<lparr>p_xmt := 5\<rparr>))"
  using check_packet_gates [of "one_peer (zero_p\<lparr>p_xmt := 5\<rparr>)" "Addr 0" demo_env "zero_r\<lparr>r_xmt := 5\<rparr>"]
  by (simp add: Let_def)

theorem lost_answer_out_of_bounds_witness:
  "case recv_packet demo_env (one_peer zero_p) of
    (r, w') \<Rightarrow> r = zero_r \<and> receive demo_env r w' = Inl (Index_OOB Dispatch_Table)"
  by (rule lost_answer_out_of_bounds [of _ _ 0 zero_packet]) (simp_all add: demo_env_def)

theorem poll_update_schedules_witness:
  "\<exists>w' d. poll_update demo_env (Addr 0) 40 (one_peer zero_p) = Inr w' \<and>
    peer w' (Addr 0) = zero_p\<lparr>p_hpoll := 17, p_nextdate := d\<rparr> \<and>
    lo32 (c_t (w_c w')) < (word_of_int d :: u32)"
proof -
  have "p_burst (peer (one_peer zero_p) (Addr 0)) = 0" "uint (c_t (w_c (one_peer zero_p))) < 2147483647"
    by (simp_all add: zero_p_def zero_c_def)
  from poll_update_schedules [OF one_peer_ok(3) this, of demo_env 40] show ?thesis by auto
qed

end
