(* ===== verification/Exchange.thy ===== *)
theory Exchange
  imports Liveness Peer_Props
begin

text \<open>
  A packet exchange from end to end: a request sent by peer_xmit(), the answer of a server that
  returns the request's transmit timestamp as its origin, and receive() on the answer. The server
  may be another implementation or the server side of this one, the case FXMIT of receive() with
  fast_xmit(): the relation \<open>answers\<close> is what the client relies on and the server guarantees.
\<close>

section \<open>Requests and answers\<close>

text \<open>A packet that answers a request: mode 4, a known version, and the request's timestamp as origin.\<close>

definition answers :: "ntp_packet \<Rightarrow> ntp_packet \<Rightarrow> bool" where
  "answers req ans \<longleftrightarrow> li_vn_mode ans AND 7 = 4 \<and> drop_bit 3 (li_vn_mode ans) AND 7 \<le> 4 \<and>
     origTm_s ans = txTm_s req \<and> origTm_f ans = txTm_f req"

text \<open>A packet as it goes over the wire.\<close>

abbreviation (input) wire :: "env \<Rightarrow> ntp_x \<Rightarrow> ntp_packet" where
  "wire e x \<equiv> prv_swap_fields e (prv_translate_ntp_x_to_ntp_packet x)"

lemma wire_header [simp]:
  "li_vn_mode (wire e x) AND 7 = x_mode x AND 7" "drop_bit 3 (li_vn_mode (wire e x)) AND 7 = x_version x AND 7"
  using translate_header(2,3) [of x] by (simp_all add: prv_swap_fields_def)

lemma wire_stamps:
  "txTm_s (wire e x) = e_htonl e (hi32 (x_xmt x))" "txTm_f (wire e x) = e_htonl e (lo32 (x_xmt x))"
  "origTm_s (wire e x) = e_htonl e (hi32 (x_org x))" "origTm_f (wire e x) = e_htonl e (lo32 (x_org x))"
  by (simp_all add: prv_swap_fields_def prv_translate_ntp_x_to_ntp_packet_def)

text \<open>What recv_packet() makes of a packet.\<close>

lemma recv_packet_header:
  assumes "e_recvfrom e (w_recvs w) = (n, pkt)" and "0 < n" and "recv_packet e w = (r, w')"
  shows "r_mode r = li_vn_mode pkt AND 7" "r_version r = drop_bit 3 (li_vn_mode pkt) AND 7" "r_srcaddr r = w_ip w"
    "r_stratum r = k_stratum pkt"
    "r_org r = join32 (e_htonl e (origTm_s pkt)) (e_htonl e (origTm_f pkt))"
    "r_xmt r = join32 (e_htonl e (txTm_s pkt)) (e_htonl e (txTm_f pkt))"
  using assms by (auto simp: recv_packet_def prv_create_ntp_r_def prv_swap_fields_def Let_def)

lemma recv_packet_heap:
  assumes "recv_packet e w = (r, w')"
  shows "valid w' p = valid w p" "peer w' p = peer w p" "table_ok w' = table_ok w" "w_peers w' = w_peers w"
    "w_s w' = w_s w" "w_ip w' = w_ip w" "w_sent w' = w_sent w"
proof -
  have h: "w_heap w' = w_heap w" "w_peers w' = w_peers w" "w_size w' = w_size w"
    "w_s w' = w_s w" "w_ip w' = w_ip w" "w_sent w' = w_sent w"
    using recv_packet_frame [of e w] by (simp_all add: assms)
  then show "valid w' p = valid w p" "peer w' p = peer w p" "table_ok w' = table_ok w" "w_peers w' = w_peers w"
    "w_s w' = w_s w" "w_ip w' = w_ip w" "w_sent w' = w_sent w"
    using valid_frame [OF h(1)] peer_frame [OF h(1)] by (simp_all add: table_ok_def list_all_iff)
qed

text \<open>peer_xmit() sends the transmit timestamp it keeps in the association.\<close>

lemma peer_xmit_stamp:
  assumes tab: "table_ok w" and p: "p \<in> set (w_peers w)" and d: "distinct (addrs w)"
    and run: "peer_xmit e p w = Inr w'"
  shows "\<exists>x. w_sent w' = w_sent w @ [(p_srcaddr (peer w p), wire e x)] \<and>
    x_xmt x = c_localTime (w_c w') \<and> peer w' p = (peer w p)\<lparr>p_xmt := x_xmt x\<rparr> \<and>
    (\<forall>a. a \<noteq> p \<longrightarrow> peer w' a = peer w a) \<and> w_peers w' = w_peers w \<and> w_ip w' = p_srcaddr (peer w p) \<and>
    w_c w' = w_c (gettime e 0 (gettime e 0 w))"
proof -
  let ?v = "gettime e 0 (w\<lparr>w_ip := p_srcaddr (peer w p)\<rparr>)"
  let ?u = "set_peer p ((peer w p)\<lparr>p_xmt := c_t (w_c w)\<rparr>) ?v"
  have v: "valid w p" using tab p by (simp add: table_ok_def list_all_iff)
  obtain x x' where x: "x_mode x = p_hmode (peer w p)" "xmit_packet e x ?u = Inr (x', w')"
    using run v by (auto simp: peer_xmit_def Let_def bind_r_Inr_conv) (rule that [rotated], assumption, simp_all)
  have tu: "table_ok ?u" using tab v by (simp add: set_peer_same_cell)
  have same: "p_srcaddr (peer ?u q) = p_srcaddr (peer w q)" "p_hmode (peer ?u q) = p_hmode (peer w q)" for q
    using v by (cases "q = p"; simp)+
  have "List.find (\<lambda>a. p_srcaddr (peer ?u a) = w_ip ?u \<and> p_hmode (peer ?u a) = x_mode x) (w_peers ?u) = Some p"
    unfolding same using find_distinct [OF d [unfolded addrs_def] p, of "\<lambda>a. p_hmode (peer w a) = x_mode x"] x(1) by simp
  then have "w_sent w' = w_sent w @ [(p_srcaddr (peer w p), wire e x')]" "w_peers w' = w_peers w"
      "peer w' p = (peer ?u p)\<lparr>p_xmt := x_xmt x'\<rparr>" "\<And>a. a \<noteq> p \<Longrightarrow> peer w' a = peer ?u a"
      "w_ip w' = p_srcaddr (peer w p)" "x_xmt x' = c_localTime (w_c w')"
      "w_c w' = w_c (gettime e 0 (?u\<lparr>w_dest := w_ip ?u\<rparr>))"
    using xmit_packet_records [OF tu, of e x] x(2) v by auto
  moreover have "w_c (gettime e 0 (?u\<lparr>w_dest := w_ip ?u\<rparr>)) = w_c (gettime e 0 (gettime e 0 w))"
    by (simp add: gettime_def read_tick_def Let_def)
  ultimately show ?thesis using v by (intro exI [of _ x']) simp
qed

section \<open>The client's side\<close>

text \<open>A server's answer to a client goes to the timestamp checks of the server's association.\<close>

lemma client_receives:
  assumes ok: "okay b ips w" and d: "distinct ips" and i: "i < NMAX"
    and r: "r_mode r = 4" "r_version r \<le> 4" "r_srcaddr r = ips ! i"
  shows "find_assoc e r w = Inr (w_peers w ! i)" and "receive e r w = check_packet e (w_peers w ! i) r A_NONE w"
proof -
  let ?p = "w_peers w ! i"
  have len: "length (w_peers w) = NMAX" and tab: "table_ok w" and a: "map (\<lambda>p. p_srcaddr (peer w p)) (w_peers w) = ips"
    using ok by (simp_all add: okay_def client_ok_def addrs_def)
  have p: "?p \<in> set (w_peers w)" using i len by simp
  have "List.find (\<lambda>p. p_srcaddr (peer w p) = ips ! i) (w_peers w) = Some ?p"
    using i len a d by (intro find_nth_distinct) auto
  then show find: "find_assoc e r w = Inr ?p" by (simp add: find_assoc_list [OF tab] r(3))
  have "p_hmode (peer w ?p) = word_of_int M_CLNT" using okayD(2) [OF ok p] by (simp add: peer_ok_def)
  then show "receive e r w = check_packet e ?p r A_NONE w"
    using r(1) leD [OF r(2)] find okayD(1) [OF ok p]
    by (simp add: receive_def access_def authenticate_def dispatch_client [simplified] dispatch_packet_def)
qed

text \<open>The checks pass a packet that returns the timestamp the association keeps.\<close>

lemma gates_pass:
  assumes "valid w p" and "peer_ok (peer w p)" and "r_org r = p_xmt (peer w p)"
    and "r_xmt r \<noteq> unix_epoch" "r_org r \<noteq> unix_epoch" "r_xmt r \<noteq> r_org r"
  shows "check_packet e p r A_NONE w =
    packet e p r (set_peer p ((peer w p)\<lparr>p_org := r_xmt r, p_rec := r_dst r\<rparr>) w)"
  using assms(2-6) by (simp add: check_packet_gates [OF assms(1)] Let_def peer_ok_def)

text \<open>An honest exchange reaches the clock filter's front door. When peer_xmit() has sent its
  one request to the server of association i, and the next packet to come is an answer that returns
  the request's transmit timestamp as its origin (whatever its other fields are), then the decoded
  origin equals the timestamp the association keeps, find_assoc() finds that very association, and
  receive() goes on to packet() with the answer's timestamps stored: no gate of receive() drops it,
  unless one of its timestamps is 1 January 1970 or it was sent at the same instant as the request.\<close>

theorem honest_answer_accepted:
  assumes ok: "okay b ips w" and d: "distinct ips" and i: "i < NMAX" and h: "\<And>v. e_htonl e (e_htonl e v) = v"
    and sent: "peer_xmit e (w_peers w ! i) w = Inr w1"
    and ans: "e_recvfrom e (w_recvs w1) = (n, ans)" "0 < n" "answers (snd (last (w_sent w1))) ans"
    and recv: "recv_packet e w1 = (r, w2)"
    and times: "r_xmt r \<noteq> unix_epoch" "r_org r \<noteq> unix_epoch" "r_xmt r \<noteq> r_org r"
  shows "\<exists>req. w_sent w1 = w_sent w @ [(ips ! i, req)] \<and>
    (let p = w_peers w ! i; q = peer w1 p in
       r_org r = p_xmt q \<and> find_assoc e r w2 = Inr p \<and>
       receive e r w2 = packet e p r (set_peer p (q\<lparr>p_org := r_xmt r, p_rec := r_dst r\<rparr>) w2))"
proof -
  let ?p = "w_peers w ! i"
  have len: "length (w_peers w) = NMAX" and tab: "table_ok w" and a: "addrs w = ips"
    using ok by (simp_all add: okay_def client_ok_def)
  have p: "?p \<in> set (w_peers w)" using i len by simp
  have src: "p_srcaddr (peer w ?p) = ips ! i" using a i len by (auto simp: addrs_def)
  obtain x where x: "w_sent w1 = w_sent w @ [(ips ! i, wire e x)]" "peer w1 ?p = (peer w ?p)\<lparr>p_xmt := x_xmt x\<rparr>"
      "w_peers w1 = w_peers w" "w_ip w1 = ips ! i"
    using peer_xmit_stamp [OF tab p _ sent] d a src by auto
  have "okay b ips w1" using peer_xmit_okay [OF ok p, of e] sent by simp
  then have ok2: "okay b ips w2" using recv_okay [of b ips w1 e] recv by simp
  note r = recv_packet_header [OF ans(1,2) recv] and f = recv_packet_heap [OF recv]
  have org: "r_org r = x_xmt x" using ans(3) x(1) h by (simp add: r(5) answers_def wire_stamps)
  have rm: "r_mode r = 4" "r_version r \<le> 4" "r_srcaddr r = ips ! i"
    using ans(3) x(4) by (simp_all add: r answers_def)
  have pe: "w_peers w2 ! i = ?p" and p2: "?p \<in> set (w_peers w2)" using f(4) x(3) p by simp_all
  note v = okayD [OF ok2 p2] and c = client_receives [OF ok2 d i rm, of e, unfolded pe]
  have "r_org r = p_xmt (peer w2 ?p)" using org f(2) x(2) by simp
  note g = gates_pass [OF v this times, of e]
  then show ?thesis using x(1,2) org c f(2) by (simp add: Let_def)
qed

section \<open>The server's side\<close>

lemma dispatch_request:
  "dispatch_code h 3 =
    (if h = 0 then Inr FXMIT else if unat h \<le> 6 then Inr DSCRD else Inl (Index_OOB Dispatch_Table))"
proof -
  have "unat h = 0 \<longleftrightarrow> h = 0" by (rule unat_eq_zero)
  moreover have "unat h \<le> 6 \<longleftrightarrow> unat h \<in> {0, 1, 2, 3, 4, 5, 6}" by auto
  ultimately show ?thesis by (auto simp: dispatch_code_def dispatch_table_def idx_def)
qed

lemma fast_xmit_sends:
  assumes tab: "table_ok w" and new: "\<forall>p \<in> set (w_peers w). p_srcaddr (peer w p) \<noteq> w_ip w"
  shows "\<exists>w' x. fast_xmit e r mode A_NONE w = Inr w' \<and> w_sent w' = w_sent w @ [(w_ip w, wire e x)] \<and>
    x_mode x = word_of_int mode \<and> x_version x = r_version r \<and> x_org x = r_xmt r \<and> x_rec x = r_dst r \<and>
    x_xmt x = c_localTime (w_c w') \<and> w_s w' = w_s w \<and> w_peers w' = w_peers w \<and>
    (\<forall>p. valid w' p = valid w p \<and> peer w' p = peer w p)"
proof -
  let ?v = "gettime e 0 w"
  have "\<exists>x. fast_xmit e r mode A_NONE w = bind_r (xmit_packet e x ?v) (\<lambda>(x, w). Inr w) \<and>
      x_mode x = word_of_int mode \<and> x_version x = r_version r \<and> x_org x = r_xmt r \<and> x_rec x = r_dst r"
    unfolding fast_xmit_def Let_def by (intro exI conjI, simp only: refl, simp_all)
  then obtain x where run: "fast_xmit e r mode A_NONE w = bind_r (xmit_packet e x ?v) (\<lambda>(x, w). Inr w)"
      and x: "x_mode x = word_of_int mode" "x_version x = r_version r" "x_org x = r_xmt r" "x_rec x = r_dst r"
    by blast
  have tv: "table_ok ?v" using tab by simp
  have "List.find (\<lambda>p. p_srcaddr (peer ?v p) = w_ip ?v \<and> p_hmode (peer ?v p) = x_mode x) (w_peers ?v) = None"
    using new by (auto simp: find_None_iff)
  then show ?thesis using xmit_packet_records [OF tv, of e x] x run
    by auto (intro exI conjI, rule refl, simp_all)
qed

text \<open>C14: the server side. A request in client mode, of a version up to 4, from an address without
  an association is dispatched on the host mode and the flags that the null result of find_assoc()
  reads at address 0. With a host mode above 6 there receive() stops at the access outside the
  dispatch table. Else it returns, changes no association and no system variable, and sends at most
  one packet: it sends one, to the requester, exactly when the host mode read is 0, the flag
  P_NOTRUST read is clear, the system is synchronised and the requester's stratum is not smaller
  than its own (so not to a client that has no stratum yet and sends 0). That packet answers the
  request in the sense of the client side: mode 4, the version of the request and the request's
  transmit timestamp as origin. (The byte-order macro is its own inverse.)\<close>

theorem server_answers_request:
  assumes tab: "table_ok w" and new: "\<forall>p \<in> set (w_peers w). p_srcaddr (peer w p) \<noteq> w_ip w"
    and h: "\<And>v. e_htonl e (e_htonl e v) = v"
    and req: "e_recvfrom e (w_recvs w) = (n, req)" "0 < n"
      "li_vn_mode req AND 7 = 3" "drop_bit 3 (li_vn_mode req) AND 7 \<le> 4"
    and recv: "recv_packet e w = (r, w1)"
  shows "if 6 < unat (p_hmode (e_null e)) then receive e r w1 = Inl (Index_OOB Dispatch_Table)
    else \<exists>w2. receive e r w1 = Inr w2 \<and> w_s w2 = w_s w \<and> w_peers w2 = w_peers w \<and>
      (\<forall>p. valid w2 p = valid w p \<and> peer w2 p = peer w p) \<and>
      (if p_hmode (e_null e) = 0 \<and> p_flags (e_null e) AND P_NOTRUST = 0 \<and>
          s_leap (w_s w) \<noteq> 3 \<and> s_stratum (w_s w) \<le> k_stratum req
       then \<exists>ans. w_sent w2 = w_sent w @ [(w_ip w, ans)] \<and> answers req ans \<and>
              drop_bit 3 (li_vn_mode ans) AND 7 = drop_bit 3 (li_vn_mode req) AND 7
       else w_sent w2 = w_sent w)"
proof -
  note r = recv_packet_header [OF req(1,2) recv] and f = recv_packet_heap [OF recv]
  have tab1: "table_ok w1" using f(3) tab by simp
  have new1: "\<forall>p \<in> set (w_peers w1). p_srcaddr (peer w1 p) \<noteq> w_ip w1" using new f by simp
  have find: "find_assoc e r w1 = Inr NULL"
    using find_assoc_list [OF tab1, of e r] new1 r(3) f(6) by (auto split: option.splits dest: find_SomeD)
  have ver: "\<not> 4 < r_version r" using req(4) r(2) by (simp add: not_less)
  have mode: "r_mode r = 3" using r(1) req(3) by simp
  have run: "receive e r w1 =
      (if 6 < unat (p_hmode (e_null e)) then Inl (Index_OOB Dispatch_Table)
       else if p_hmode (e_null e) = 0 \<and> p_flags (e_null e) AND P_NOTRUST = 0 \<and>
           s_leap (w_s w) \<noteq> 3 \<and> s_stratum (w_s w) \<le> k_stratum req
       then bind_r (fast_xmit e r 4 A_NONE w1) Inr else Inr w1)"
    using ver find r(4) mode f(5)
    by (cases "fast_xmit e r 4 A_NONE w1")
      (auto simp: receive_def access_def authenticate_def dispatch_packet_def AUTH_def dispatch_request not_less Let_def)
  show ?thesis
  proof (cases "p_hmode (e_null e) = 0 \<and> p_flags (e_null e) AND P_NOTRUST = 0 \<and>
      s_leap (w_s w) \<noteq> 3 \<and> s_stratum (w_s w) \<le> k_stratum req")
    case False
    then show ?thesis using run f by auto
  next
    case True
    obtain w2 x where x: "fast_xmit e r 4 A_NONE w1 = Inr w2" "w_sent w2 = w_sent w1 @ [(w_ip w1, wire e x)]"
      "x_mode x = 4" "x_version x = r_version r" "x_org x = r_xmt r"
      "w_s w2 = w_s w1" "w_peers w2 = w_peers w1" "\<forall>p. valid w2 p = valid w1 p \<and> peer w2 p = peer w1 p"
      using fast_xmit_sends [OF tab1 new1, of e r 4] by auto
    have "answers req (wire e x)" "drop_bit 3 (li_vn_mode (wire e x)) AND 7 = drop_bit 3 (li_vn_mode req) AND 7"
      using x(3,4,5) r(2,6) req(4) h by (simp_all add: answers_def wire_stamps)
    then show ?thesis using True run x f by auto
  qed
qed

section \<open>The same answer again\<close>

lemma set_peer_same: "valid w p \<Longrightarrow> set_peer p (peer w p) w = w"
  by (cases p) (auto simp: set_peer_def peer_def)

text \<open>C38: a replay is processed. When receive() has taken an answer that passed its checks, the
  same packet received again passes them again and is handed to packet(), though by then the
  association holds the packet's transmit timestamp as its org: the check for duplicates compares
  with the client's own transmit timestamp instead.\<close>

theorem replay_processed_again:
  assumes ok: "okay b ips w" and d: "distinct ips" and e: "qsort_ok e" and b: "b < 2147483647" and i: "i < NMAX"
    and r: "r_mode r = 4" "r_version r \<le> 4" "r_srcaddr r = ips ! i" "packet_sane e r"
    and times: "r_org r = p_xmt (peer w (w_peers w ! i))" "r_xmt r \<noteq> unix_epoch" "r_org r \<noteq> unix_epoch" "r_xmt r \<noteq> r_org r"
    and run: "receive e r w = Inr w'"
  shows "w_peers w' ! i = w_peers w ! i \<and> p_org (peer w' (w_peers w ! i)) = r_xmt r \<and>
    receive e r w' = packet e (w_peers w ! i) r w'"
proof -
  let ?p = "w_peers w ! i" let ?q = "(peer w ?p)\<lparr>p_org := r_xmt r, p_rec := r_dst r\<rparr>"
  let ?w = "set_peer ?p ?q w"
  have p: "?p \<in> set (w_peers w)" using ok i by (simp add: okay_def client_ok_def)
  note v = okayD [OF ok p]
  have run1: "packet e ?p r ?w = Inr w'"
    using run client_receives(2) [OF ok d i r(1-3)] gates_pass [OF v times] by simp
  have ok1: "okay b ips ?w" by (rule okay_set_peer [OF ok p]) (use v(2) in \<open>simp_all add: peer_ok_def\<close>)
  have p1: "?p \<in> set (w_peers ?w)" using p by simp
  have bt: "b < t_max" using b by simp
  have f: "frame ident ?p ?w w'" by (rule idents.packet_frame [OF ok1 p1 d e bt r(4) run1])
  then have id: "ident (peer w' ?p) = ident ?q" and pe: "w_peers w' = w_peers w"
    using v(1) by (simp_all add: frame_def)
  have ok2: "okay (b + 1) ips w'"
    using packet_okay [OF ok1 p1 e bt r(4)] run1 by simp
  have p2: "?p \<in> set (w_peers w')" using p pe by simp
  note v2 = okayD [OF ok2 p2]
  have "r_org r = p_xmt (peer w' ?p)" using id times(1) by (simp add: ident_def)
  note g = gates_pass [OF v2 this times(2-4), of e]
  have "(peer w' ?p)\<lparr>p_org := r_xmt r, p_rec := r_dst r\<rparr> = peer w' ?p" using id by (simp add: ident_def)
  then show ?thesis
    using client_receives(2) [OF ok2 d i r(1-3), of e] g pe id set_peer_same [OF v2(1)] by (simp add: ident_def)
qed

section \<open>Witnesses\<close>

text \<open>
  A network with a stopped clock that delivers a given packet; and the answer a server gives at
  the transmit time 7 to a request sent at the time 0.
\<close>

definition still_env :: "ntp_packet \<Rightarrow> env" where
  "still_env pkt = demo_env\<lparr>e_tick := \<lambda>n. 0, e_recvfrom := \<lambda>n. (48, pkt)\<rparr>"

definition demo_answer :: ntp_packet where
  "demo_answer = zero_packet\<lparr>li_vn_mode := 36, txTm_f := byte_swap 7\<rparr>"

lemma byte_swap_zero [simp]: "byte_swap 0 = 0"
  by (simp add: byte_swap_def)

lemma still_env_fields:
  "e_tick (still_env pkt) n = 0" "e_recvfrom (still_env pkt) n = (48, pkt)" "e_htonl (still_env pkt) = byte_swap"
  "e_null (still_env pkt) = zero_p"
  by (simp_all add: still_env_def demo_env_def)

lemma five_world_clock: "w_c five_world = zero_c" "w_sent five_world = []" "w_recvs five_world = 0" "w_peers five_world ! 0 = Addr 0"
  "peer five_world (Addr 0) = five_peer 0"
  by (simp_all add: five_world_def demo_world_def boot_world_def peer_def)

theorem honest_answer_accepted_witness:
  "\<exists>w1 r w2. peer_xmit (still_env demo_answer) (Addr 0) five_world = Inr w1 \<and>
    recv_packet (still_env demo_answer) w1 = (r, w2) \<and> r_xmt r = 7 \<and> find_assoc (still_env demo_answer) r w2 = Inr (Addr 0)"
proof -
  let ?e = "still_env demo_answer"
  have p: "Addr 0 \<in> set (w_peers five_world)" by (simp add: five_world_def)
  have tab: "table_ok five_world" and d: "distinct (addrs five_world)"
    using five_world_okay by (simp_all add: okay_def client_ok_def)
  obtain w1 where w1: "peer_xmit ?e (Addr 0) five_world = Inr w1"
    using peer_xmit_okay [OF five_world_okay p, of ?e] by (auto simp: outc_def split: sum.splits)
  obtain x where x: "w_sent w1 = [(1, wire ?e x)]" "x_xmt x = c_localTime (w_c w1)"
      "w_c w1 = w_c (gettime ?e 0 (gettime ?e 0 five_world))"
    using peer_xmit_stamp [OF tab p d w1] by (auto simp: five_world_clock five_peer_def)
  have "x_xmt x = 0" unfolding x(2,3)
    by (simp add: gettime_def read_tick_def still_env_fields five_world_clock zero_c_def Let_def)
  then have ans: "answers (snd (last (w_sent w1))) demo_answer"
    by (simp add: x(1) answers_def demo_answer_def zero_packet_def wire_stamps still_env_fields drop_bit_eq_div hi32_def lo32_def)
  obtain r w2 where r: "recv_packet ?e w1 = (r, w2)" by fastforce
  have "r_xmt r = 7" "r_org r = 0"
    using recv_packet_header(5,6) [OF still_env_fields(2) _ r]
    by (simp_all add: still_env_fields demo_answer_def zero_packet_def join32_def)
  moreover have "(7 :: tstamp) \<noteq> unix_epoch" "(0 :: tstamp) \<noteq> unix_epoch"
    by (simp_all add: join32_def push_bit_eq_mult)
  ultimately show ?thesis
    using honest_answer_accepted [OF five_world_okay _ _ _ _ still_env_fields(2) _ ans r, of 0] w1 r
    by (simp add: five_world_clock still_env_fields Let_def)
qed

definition server_world :: world where
  "server_world = boot_world\<lparr>w_s := zero_s\<lparr>s_stratum := 2\<rparr>, w_ip := 9\<rparr>"

definition demo_request :: ntp_packet where
  "demo_request = zero_packet\<lparr>li_vn_mode := 35, k_stratum := 3, txTm_f := 11\<rparr>"

theorem server_answers_request_witness:
  "\<exists>r w1 w2 ans. recv_packet (still_env demo_request) server_world = (r, w1) \<and>
    receive (still_env demo_request) r w1 = Inr w2 \<and> w_sent w2 = [(9, ans)] \<and> answers demo_request ans"
proof -
  obtain r w1 where r: "recv_packet (still_env demo_request) server_world = (r, w1)" by fastforce
  have "table_ok server_world"
    by (simp add: server_world_def boot_world_def table_ok_def)
  moreover have "\<forall>p \<in> set (w_peers server_world). p_srcaddr (peer server_world p) \<noteq> w_ip server_world"
    by (simp add: server_world_def boot_world_def)
  moreover have "p_hmode (e_null (still_env demo_request)) = 0" "p_flags (e_null (still_env demo_request)) AND P_NOTRUST = 0"
    by (simp_all add: still_env_fields zero_p_def)
  moreover have "\<And>v. e_htonl (still_env demo_request) (e_htonl (still_env demo_request) v) = v"
    by (simp add: still_env_fields)
  moreover have "li_vn_mode demo_request AND 7 = 3" "drop_bit 3 (li_vn_mode demo_request) AND 7 \<le> 4"
    "s_leap (w_s server_world) \<noteq> 3" "s_stratum (w_s server_world) \<le> k_stratum demo_request"
    "w_sent server_world = []" "w_ip server_world = 9"
    by (simp_all add: demo_request_def zero_packet_def server_world_def boot_world_def zero_s_def drop_bit_eq_div)
  ultimately show ?thesis
    using server_answers_request [OF _ _ _ still_env_fields(2) _ _ _ r] r by auto
qed

lemma packet_unsynchronised:
  "valid w p \<Longrightarrow> r_leap r = 3 \<Longrightarrow> packet e p r w = Inr (set_peer p (take_header r (peer w p)) w)"
  by (simp add: packet_def) (simp add: take_header_def)

theorem replay_processed_again_witness:
  "\<exists>w'. receive demo_env (zero_r\<lparr>r_mode := 4, r_srcaddr := 1, r_leap := 3, r_xmt := 7\<rparr>) five_world = Inr w' \<and>
     p_org (peer w' (Addr 0)) = 7 \<and>
     receive demo_env (zero_r\<lparr>r_mode := 4, r_srcaddr := 1, r_leap := 3, r_xmt := 7\<rparr>) w' =
       packet demo_env (Addr 0) (zero_r\<lparr>r_mode := 4, r_srcaddr := 1, r_leap := 3, r_xmt := 7\<rparr>) w'"
proof -
  let ?r = "zero_r\<lparr>r_mode := 4, r_srcaddr := 1, r_leap := 3, r_xmt := 7\<rparr>"
  let ?w = "set_peer (Addr 0) ((peer five_world (Addr 0))\<lparr>p_org := 7, p_rec := r_dst ?r\<rparr>) five_world"
  have p: "Addr 0 \<in> set (w_peers five_world)" by (simp add: five_world_def)
  note v = okayD [OF five_world_okay p]
  have r: "r_mode ?r = 4" "r_version ?r \<le> 4" "r_srcaddr ?r = [1, 2, 3, 4, 5] ! 0" "packet_sane demo_env ?r"
    by (simp_all add: packet_sane_def zero_r_def LOG2D_nonneg_exp zero_dbl_def subtract_uint64_t_eq)
  have t: "r_org ?r = p_xmt (peer five_world (w_peers five_world ! 0))"
      "r_xmt ?r \<noteq> unix_epoch" "r_org ?r \<noteq> unix_epoch" "r_xmt ?r \<noteq> r_org ?r"
    by (simp_all add: five_world_clock five_peer_def client_peer_def zero_p_def zero_r_def join32_def push_bit_eq_mult)
  have "receive demo_env ?r five_world = check_packet demo_env (Addr 0) ?r A_NONE five_world"
    using client_receives(2) [OF five_world_okay _ _ r(1-3)] by (simp add: five_world_clock)
  also have "\<dots> = packet demo_env (Addr 0) ?r ?w"
    using gates_pass [OF v, of ?r] t by (simp add: five_world_clock)
  also have "\<dots> = Inr (set_peer (Addr 0) (take_header ?r (peer ?w (Addr 0))) ?w)"
    by (rule packet_unsynchronised) (simp_all only: heap.ok_put [OF v(1)] v(1), simp)
  finally obtain w' where w': "receive demo_env ?r five_world = Inr w'" by blast
  show ?thesis
    using replay_processed_again [OF five_world_okay _ demo_qsort_ok _ _ r t w'] w' by (simp add: five_world_clock)
qed

end
