(* ===== verification/Accuracy.thy ===== *)
theory Accuracy
  imports Exchange
begin

text \<open>
  What a packet exchange measures. The classical argument for NTP is carried out for the arithmetic
  of the program: the offset of a sample is compared with the true difference of the two clocks,
  first for packet()'s computation alone, then for a whole exchange, from the timestamps of the
  answer to the offset and the delay that the association holds when receive() has returned.
\<close>

section \<open>A round trip\<close>

text \<open>
  In units of 2^-32 s: the server's clock is \<open>theta\<close> ahead of the client's, the request takes d1,
  the server holds it for h, the answer takes d2. The client reads org and dst, the server rec and
  xmt.
\<close>

definition round_trip :: "int \<Rightarrow> int \<Rightarrow> int \<Rightarrow> int \<Rightarrow> ntp_r \<Rightarrow> bool" where
  "round_trip theta d1 h d2 r \<longleftrightarrow> 0 \<le> d1 \<and> 0 \<le> h \<and> 0 \<le> d2 \<and>
     uint (r_rec r) = uint (r_org r) + d1 + theta \<and>
     uint (r_xmt r) = uint (r_rec r) + h \<and>
     uint (r_dst r) = uint (r_xmt r) - theta + d2"

lemma round_trip_differences:
  assumes "round_trip theta d1 h d2 r"
  shows "uint (r_rec r) - uint (r_org r) = d1 + theta" "uint (r_dst r) - uint (r_xmt r) = d2 - theta"
    "uint (r_dst r) - uint (r_org r) = d1 + h + d2" "uint (r_rec r) - uint (r_xmt r) = - h"
  using assms by (simp_all add: round_trip_def)

text \<open>Half the sum of the absolute differences is the absolute offset up to half the time on the way.\<close>

lemma abs_offset_error:
  fixes d1 d2 theta :: int
  assumes "0 \<le> d1" and "0 \<le> d2"
  shows "\<bar>\<bar>d1 + theta\<bar> + \<bar>d2 - theta\<bar> - 2 * \<bar>theta\<bar>\<bar> \<le> d1 + d2"
  using assms by (auto simp: abs_if)

text \<open>add_int64_t() is exact when the fractions together are less than half a second.\<close>

lemma add_int64_t_exact:
  assumes "0 \<le> x" "x < 4611686018427387904" and "0 \<le> y" "y < 4611686018427387904"
    and "x mod 4294967296 + y mod 4294967296 < 2147483648"
  shows "add_int64_t x y = Inr (x + y)"
proof -
  define f g a b where "f = x mod 4294967296" and "g = y mod 4294967296"
    and "a = x div 4294967296" and "b = y div 4294967296"
  have fg: "0 \<le> f" "0 \<le> g" "f + g < 2147483648" using assms(5) by (simp_all add: f_def g_def)
  have "x = a * 4294967296 + f" "y = b * 4294967296 + g" "f < 4294967296" "g < 4294967296"
    by (simp_all add: f_def g_def a_def b_def)
  then have ab: "- 1073741825 < a" "a < 1073741824" "- 1073741825 < b" "b < 1073741824"
    using assms(1-4) fg by linarith+
  have i: "i32 f = f" "i32 g = g" "i32 a = a" "i32 b = b" using fg ab by (intro i32_id; linarith)+
  have run: "add_int64_t x y = bind_r (add32 f g) (\<lambda>low.
      bind_r (if low < f \<or> low < g then add32 a 1 else Inr a) (\<lambda>a.
      bind_r (add32 a b) (\<lambda>high. Inr (push_bit 32 high OR low))))"
    by (simp add: add_int64_t_def and_mask32 f_def [symmetric] g_def [symmetric] drop_bit_eq_div
        a_def [simplified, symmetric] b_def [simplified, symmetric] i)
  have "add32 f g = Inr (f + g)" "add32 a b = Inr (a + b)" using fg ab by (simp_all add: add32_def)
  then have z: "add_int64_t x y = Inr (push_bit 32 (a + b) OR (f + g))" using fg by (simp add: run)
  have "push_bit 32 (a + b) OR (f + g) = x + y"
    using add_int64_t_result [OF _ _ _ _ z] assms(1-4) fg i(1,2) by (simp add: f_def g_def Let_def)
  with z show ?thesis by simp
qed

section \<open>The sample\<close>

text \<open>The halved offset of at most 2^52 units is exact.\<close>

lemma half_LFP2D:
  assumes "\<bar>n\<bar> < 2 ^ 53"
  shows "LFP2D (dbl_of_int n) / flt 2 = Fin (of_int n / 8589934592)"
proof -
  have "flt (of_int n * 2 powi (- 33)) = Fin (of_int n * 2 powi (- 33))" using assms by (intro flt_dyadic) simp_all
  then show ?thesis using pow2_neg [of 33] by (simp add: LFP2D_exact [OF assms])
qed

text \<open>The computed offset and delay of a round trip, before they are put to use.\<close>

lemma sample_round_trip:
  assumes "p_pmode q \<noteq> 5" and "round_trip theta d1 h d2 r" and "\<bar>theta\<bar> + d1 + h + d2 < 2 ^ 51"
    and "\<bar>d1 + theta\<bar> mod 2 ^ 32 + \<bar>d2 - theta\<bar> mod 2 ^ 32 < 2 ^ 31"
  shows "\<exists>disp. sample e w q r = Inr (Fin (of_int (\<bar>d1 + theta\<bar> + \<bar>d2 - theta\<bar>) / 8589934592),
    cmax (Fin (of_int (d1 + d2) / 4294967296)) (LOG2D (e_shl e) (sint (s_precision (w_s w)))), disp)"
proof -
  let ?a = "\<bar>d1 + theta\<bar>" and ?b = "\<bar>d2 - theta\<bar>"
  define el where "el = d1 + h + d2"
  have nn: "0 \<le> d1" "0 \<le> h" "0 \<le> d2" using assms(2) by (simp_all add: round_trip_def)
  have sm: "\<bar>theta\<bar> + d1 + h + d2 < 2251799813685248" using assms(3) by simp
  note rt = round_trip_differences [OF assms(2)]
  have a: "?a < 2251799813685248" and b: "?b < 2251799813685248" and eh: "el < 2251799813685248" "0 \<le> el" "h \<le> el"
    and ab: "?a + ?b < 4503599627370496"
    using nn sm unfolding el_def by linarith+
  have ed: "el - h = d1 + d2" by (simp add: el_def)
  have d: "subtract_uint64_t (r_rec r) (r_org r) = ?a" "subtract_uint64_t (r_dst r) (r_xmt r) = ?b"
    "subtract_uint64_t (r_dst r) (r_org r) = el" "subtract_uint64_t (r_rec r) (r_xmt r) = h"
    using a b eh nn by (simp_all add: sint_difference rt el_def [symmetric])
  have u: "uint (word_of_int el :: tstamp) = el" "uint (word_of_int h :: tstamp) = h"
    using eh nn by (simp_all add: uint_word_of_int)
  have e: "subtract_uint64_t (word_of_int el) (word_of_int h) = d1 + d2"
    using sint_difference [of "word_of_int el" "word_of_int h"] eh nn unfolding u ed [symmetric] by simp
  have z: "add_int64_t ?a ?b = Inr (?a + ?b)"
    by (rule add_int64_t_exact) (use a b assms(4) in simp_all)
  have o: "LFP2D (dbl_of_int (?a + ?b)) / flt 2 = Fin (of_int (?a + ?b) / 8589934592)"
    using ab by (intro half_LFP2D) simp
  have l: "LFP2D (dbl_of_int (d1 + d2)) = Fin (of_int (d1 + d2) / 4294967296)"
    using eh nn unfolding ed [symmetric] by (intro LFP2D_exact) simp
  show ?thesis using assms(1) o l by (simp add: sample_def Let_def d z e)
qed

text \<open>
  A sample is accurate up to the sign: within half the computed delay of the absolute value of
  theta, with a delay not less than the time on the way. When theta is smaller than the times on the
  way, the offset is half of these.
\<close>

lemma sample_accuracy:
  assumes "p_pmode q \<noteq> 5" and "round_trip theta d1 h d2 r" and "\<bar>theta\<bar> + d1 + h + d2 < 2 ^ 51"
    and "\<bar>d1 + theta\<bar> mod 2 ^ 32 + \<bar>d2 - theta\<bar> mod 2 ^ 32 < 2 ^ 31"
    and "sint (s_precision (w_s w)) = PRECISION"
  shows "\<exists>o' d disp. sample e w q r = Inr (Fin o', Fin d, disp) \<and>
    \<bar>o' - \<bar>of_int theta\<bar> / 2 ^ 32\<bar> \<le> d / 2 \<and> of_int (d1 + d2) / 2 ^ 32 \<le> d \<and>
    (- d1 \<le> theta \<and> theta \<le> d2 \<longrightarrow> o' = of_int (d1 + d2) / 2 ^ 33)"
proof -
  let ?n = "\<bar>d1 + theta\<bar> + \<bar>d2 - theta\<bar>"
  define n where "n = ?n"
  define t :: real where "t = of_int (d1 + d2) / 4294967296"
  define x :: real where "x = of_int n / 8589934592"
  define d :: real where "d = (if t < 1 / 262144 then 1 / 262144 else t)"
  have nn: "0 \<le> d1" "0 \<le> d2" using assms(2) by (simp_all add: round_trip_def)
  have "cmax (Fin t) (LOG2D (e_shl e) (sint (s_precision (w_s w)))) = Fin d"
    by (simp add: assms(5) cmax_def d_def)
  then obtain disp where s: "sample e w q r = Inr (Fin x, Fin d, disp)"
    using sample_round_trip [OF assms(1-4), of e w] by (auto simp only: x_def t_def n_def)
  have td: "t \<le> d" by (simp add: d_def)
  have xt: "of_int n = 8589934592 * x" "of_int (d1 + d2) = 4294967296 * t" by (simp_all add: x_def t_def)
  have "\<bar>n - 2 * \<bar>theta\<bar>\<bar> \<le> d1 + d2" unfolding n_def using nn by (rule abs_offset_error)
  then have "of_int \<bar>n - 2 * \<bar>theta\<bar>\<bar> \<le> (of_int (d1 + d2) :: real)" by (simp only: of_int_le_iff)
  then have "\<bar>8589934592 * x - 2 * \<bar>of_int theta\<bar>\<bar> \<le> 4294967296 * t"
    by (simp only: of_int_abs of_int_diff of_int_mult xt of_int_numeral)
  then have "\<bar>x - \<bar>of_int theta\<bar> / 4294967296\<bar> \<le> t / 2"
    unfolding abs_le_iff by (simp add: field_simps)
  then have "\<bar>x - \<bar>of_int theta\<bar> / 4294967296\<bar> \<le> d / 2" using td by linarith
  moreover have "x = of_int (d1 + d2) / 8589934592" if "- d1 \<le> theta" "theta \<le> d2"
  proof -
    have "n = d1 + d2" unfolding n_def using that by linarith
    then show ?thesis by (simp only: x_def)
  qed
  ultimately show ?thesis using s td unfolding t_def by (intro exI [of _ x] exI [of _ d] exI [of _ disp]) simp
qed

section \<open>From the sample to the association\<close>

text \<open>The clock filter stores the sample in the association, and what follows leaves it there.\<close>

abbreviation (input) measured :: "ntp_p \<Rightarrow> dbl \<times> dbl" where
  "measured q \<equiv> (p_offset q, p_delay q)"

lemma filter_stores:
  assumes ok: "okay b ips w" and p: "p \<in> set (w_peers w)" and d: "distinct ips" and e: "qsort_ok e" and b: "b < t_max"
    and args: "bd 31 offset" "wfd offset" "bd 32 delay" "0 \<le> disp"
    and run: "clock_filter e p offset delay disp w = Inr w'"
  shows "measured (peer w' p) = (offset, delay)"
proof -
  have c: "client_ok w" and t: "uint (c_t (w_c w)) \<le> b" using ok by (simp_all add: okay_def)
  note v = okayD [OF ok p]
  have tt: "uint (c_t (w_c w)) < 9223372036854775808" using t b by simp
  have prec: "sint (s_precision (w_s w)) = PRECISION" using c by (simp add: client_ok_def)
  obtain q where q: "filter_sample e w (peer w p) offset delay disp = Inr q" "peer_ok q"
    "p_srcaddr q = p_srcaddr (peer w p)" "p_t q = p_t (peer w p)" "f_t (p_f q ! 0) = c_t (w_c w)"
    using filter_sample_ok [OF v(2) tt prec args] by blast
  have m: "measured q = (offset, delay)"
    using q(1) by (auto simp: filter_sample_def Let_def bind_r_Inr_conv split: prod.splits)
  let ?w = "set_peer p q w" and ?q = "q\<lparr>p_t := c_t (w_c w)\<rparr>"
  have w1: "okay b ips ?w" by (rule okay_set_peer [OF ok p q(2,3)])
  have "peer_ok ?q" using q(2) tt by (simp add: peer_ok_def)
  then have w2: "okay b ips (set_peer p ?q ?w)"
    using v(1) p q(3) by (intro okay_set_peer [OF w1]) simp_all
  have "measured (peer w' p) = (offset, delay)"
    if "bind_r (assoc_table_update e p (set_peer p ?q ?w)) (clock_select e) = Inr w'"
  proof -
    from that obtain u where u: "assoc_table_update e p (set_peer p ?q ?w) = Inr u" "clock_select e u = Inr w'"
      by (auto simp: bind_r_Inr_conv)
    have "u = set_peer p ?q ?w" using p by (intro update_frame [OF w2 _ d u(1)]) simp
    then have "clock_select e (set_peer p ?q ?w) = Inr w'" using u(2) by simp
    from select_frame [OF w2 e b this] have "frame (\<lambda>q. measured q) p (set_peer p ?q ?w) w'" .
    then show ?thesis using m v(1) by (simp add: frame_def)
  qed
  then show ?thesis
    using run v(1) q(1,5) m by (auto simp: clock_filter_def Let_def split: if_splits)
qed

text \<open>packet() on a header it takes hands the sample to the filter.\<close>

definition header_good :: "ntp_r \<Rightarrow> bool" where
  "header_good r \<longleftrightarrow> r_leap r \<noteq> word_of_int NOSYNC \<and> r_stratum r \<noteq> 0 \<and> r_stratum r < word_of_int MAXSTRAT \<and>
     r_rootdelay r div 2 + r_rootdisp r < word_of_int MAXDISP \<and> r_reftime r \<le> r_xmt r"

lemma packet_stores:
  assumes ok: "okay b ips w" and p: "p \<in> set (w_peers w)" and d: "distinct ips" and e: "qsort_ok e" and b: "b < t_max"
    and r: "packet_sane e r" "header_good r" and run: "packet e p r w = Inr w'"
  shows "\<exists>v q offset delay disp. okay b ips v \<and> p_pmode q = r_mode r \<and> sample e v q r = Inr (offset, delay, disp) \<and>
    measured (peer w' p) = (offset, delay)"
proof -
  obtain w1 where w1: "modify e p (take_header r) w = Inr w1"
    using run by (auto simp: packet_def bind_r_Inr_conv)
  have sa: "p_srcaddr (take_header r q) = p_srcaddr q" for q by (simp add: take_header_def)
  note o1 = okay_modified [OF ok p w1 take_header_ok sa]
  have ok1: "okay b ips w1" and p1: "p \<in> set (w_peers w1)" using o1 by blast+
  note v1 = okayD [OF ok1 p1]
  have q1: "peer w1 p = take_header r (peer w p)" using w1 okayD(1) [OF ok p] by auto
  have gates: "\<not> (p_leap (peer w1 p) = word_of_int NOSYNC \<or> word_of_int MAXSTRAT \<le> p_stratum (peer w1 p))"
    "\<not> (word_of_int MAXDISP \<le> r_rootdelay r div 2 + r_rootdisp r \<or> r_xmt r < p_reftime (peer w1 p))"
    using r(2) by (auto simp: q1 take_header_def header_good_def)
  obtain w2 w3 offset delay disp where
      w2: "poll_update e p (uint (p_hpoll (peer w1 p))) w1 = Inr w2"
    and w3: "modify e p (\<lambda>q. q\<lparr>p_reach := p_reach q OR 1\<rparr>) w2 = Inr w3"
    and s: "\<exists>q. load e w3 p = Inr q \<and> sample e w3 q r = Inr (offset, delay, disp)"
    and c: "clock_filter e p offset delay disp w3 = Inr w'"
  proof -
    have "bind_r (poll_update e p (uint (p_hpoll (peer w1 p))) w1) (\<lambda>w.
        bind_r (modify e p (\<lambda>q. q\<lparr>p_reach := p_reach q OR 1\<rparr>) w) (\<lambda>w.
        bind_r (load e w p) (\<lambda>q. bind_r (sample e w q r) (\<lambda>(offset, delay, disp).
          clock_filter e p offset delay disp w)))) = Inr w'"
      using run unfolding packet_def w1 bind_r.simps load_valid [OF v1(1)] if_not_P [OF gates(1)] if_not_P [OF gates(2)] .
    then show ?thesis by (elim bind_r_E) (auto intro: that)
  qed
  have "okay b ips w2 \<and> w_peers w2 = w_peers w1"
    using poll_update_okay [OF ok1 p1 b, of e "uint (p_hpoll (peer w1 p))"] w2 by simp
  then have ok2: "okay b ips w2" and p2: "p \<in> set (w_peers w2)" using p1 by simp_all
  have ok3: "okay b ips w3" and p3: "p \<in> set (w_peers w3)"
    by (rule okay_modified [OF ok2 p2 w3]; simp add: peer_ok_def)+
  have prec: "sint (s_precision (w_s w3)) = PRECISION" using ok3 by (simp add: okay_def client_ok_def)
  obtain q where q: "load e w3 p = Inr q" "sample e w3 q r = Inr (offset, delay, disp)" using s by blast
  have args: "bd 31 offset" "wfd offset" "bd 32 delay" "0 \<le> disp"
    using sample_ok [OF prec r(1), of q] q(2) by simp_all
  have "p_pmode (peer w2 p) = p_pmode (peer w1 p)"
    using poll_update_schedules [OF v1(1), of e "uint (p_hpoll (peer w1 p))"] v1(2) w2 ok1 b
    by (auto simp: peer_ok_def okay_def)
  then have "p_pmode q = r_mode r"
    using q(1) w3 okayD(1) [OF ok3 p3] okayD(1) [OF ok2 p2] q1 by (auto simp: take_header_def)
  then show ?thesis using ok3 q(2) filter_stores [OF ok3 p3 d e b args c] by blast
qed

section \<open>Properties\<close>

text \<open>C5: an honest exchange measures the clocks' difference, up to its sign. Let the client be in a
  state of its polling loop (\<open>okay\<close>, with the process time below 2^31 - 1) and its servers have
  distinct addresses. When peer_xmit() has sent its request to the server of association i, the next
  packet is an answer to it with a header that packet() takes and a precision whose power of two
  is not negative, its transmit and origin timestamps differ and neither is 1 January 1970 (which
  the checks take for zero), and the four timestamps are those of a round trip (the server's clock theta
  ahead or behind, the ways d1 and d2 of any length, the answer held for h, all together below
  2^19 seconds, the two fractions together below half a second so that add_int64_t() is exact), then
  receive(), when it returns, has stored in that very association an offset within half the stored
  delay of the absolute value of theta, and a delay not less than the time on the way. So a client
  behind its server measures its error, a client ahead of it the error with the wrong sign, and a
  client closer than the time on the way measures half of that time, not its error.\<close>

theorem exchange_measures_offset:
  assumes ok: "okay b ips w" and d: "distinct ips" and i: "i < NMAX" and e: "qsort_ok e" and b: "b < 2147483647"
    and h: "\<And>v. e_htonl e (e_htonl e v) = v"
    and sent: "peer_xmit e (w_peers w ! i) w = Inr w1"
    and ans: "e_recvfrom e (w_recvs w1) = (n, ans)" "0 < n" "answers (snd (last (w_sent w1))) ans"
    and recv: "recv_packet e w1 = (r, w2)"
    and times: "r_xmt r \<noteq> unix_epoch" "r_org r \<noteq> unix_epoch" "r_xmt r \<noteq> r_org r"
    and good: "header_good r" "0 \<le> LOG2D (e_shl e) (sint (r_precision r))"
    and trip: "round_trip theta d1 held d2 r" "\<bar>theta\<bar> + d1 + held + d2 < 2 ^ 51"
      "\<bar>d1 + theta\<bar> mod 2 ^ 32 + \<bar>d2 - theta\<bar> mod 2 ^ 32 < 2 ^ 31"
    and run: "receive e r w2 = Inr w3"
  shows "\<exists>offset delay. p_offset (peer w3 (w_peers w ! i)) = Fin offset \<and>
    p_delay (peer w3 (w_peers w ! i)) = Fin delay \<and>
    \<bar>offset - \<bar>of_int theta\<bar> / 2 ^ 32\<bar> \<le> delay / 2 \<and> of_int (d1 + d2) / 2 ^ 32 \<le> delay \<and>
    (- d1 \<le> theta \<and> theta \<le> d2 \<longrightarrow> offset = of_int (d1 + d2) / 2 ^ 33)"
proof -
  let ?p = "w_peers w ! i"
  let ?w = "set_peer ?p ((peer w1 ?p)\<lparr>p_org := r_xmt r, p_rec := r_dst r\<rparr>) w2"
  have p: "?p \<in> set (w_peers w)" using ok i by (simp add: okay_def client_ok_def)
  have "receive e r w2 = packet e ?p r ?w"
    using honest_answer_accepted [OF ok d i h sent ans recv times] by (auto simp: Let_def)
  then have pk: "packet e ?p r ?w = Inr w3" using run by simp
  have ok1: "okay b ips w1" and pe: "w_peers w1 = w_peers w"
    using peer_xmit_okay [OF ok p, of e] sent by simp_all
  note f = recv_packet_heap [OF recv]
  have ok2: "okay b ips w2" using recv_okay [OF ok1, of e] recv by simp
  have p2: "?p \<in> set (w_peers w2)" using p pe f(4) by simp
  note v = okayD [OF ok2 p2]
  have okw: "okay b ips ?w"
    by (rule okay_set_peer [OF ok2 p2]) (use v(2) f(2) in \<open>simp_all add: peer_ok_def\<close>)
  have sane: "packet_sane e r"
    using good(2) trip(1,2) round_trip_differences(3) [OF trip(1)]
    by (simp add: packet_sane_def round_trip_def sint_difference)
  have "r_mode r = 4" using recv_packet_header(1) [OF ans(1,2) recv] ans(3) by (simp add: answers_def)
  moreover have pw: "?p \<in> set (w_peers ?w)" using p2 by simp
  obtain v q offset delay disp where s: "okay b ips v" "p_pmode q = r_mode r"
      "sample e v q r = Inr (offset, delay, disp)" "measured (peer w3 ?p) = (offset, delay)"
    using packet_stores [OF okw pw d e b sane good(1) pk] by blast
  ultimately have "p_pmode q \<noteq> 5" by simp
  have "sint (s_precision (w_s v)) = PRECISION" using s(1) by (simp add: okay_def client_ok_def)
  from sample_accuracy [OF \<open>p_pmode q \<noteq> 5\<close> trip this, of e] s(3,4) show ?thesis by auto
qed

text \<open>C6: every packet sets the clock. recv_packet() sets the local time to the receive timestamp of
  whatever packet comes, before any check: also that of a packet which receive() rejects at once,
  say for its version. After an honest round trip the local clock is therefore behind the server's
  by exactly the time the server held the answer and the time the answer took, however wrong it was
  before, and whatever offset is computed from the packet afterwards.\<close>

theorem packet_sets_clock:
  assumes "e_recvfrom e (w_recvs w) = (n, pkt)" and "0 < n" and "recv_packet e w = (r, w')"
  shows "c_localTime (w_c w') = join32 (e_htonl e (rxTm_s pkt)) (e_htonl e (rxTm_f pkt)) \<and>
    (4 < drop_bit 3 (li_vn_mode pkt) AND 7 \<longrightarrow> receive e r w' = Inr w') \<and>
    (round_trip theta d1 held d2 r \<longrightarrow>
      uint (r_dst r) + theta - uint (c_localTime (w_c w')) = held + d2)"
proof -
  have "c_localTime (w_c w') = r_rec r" "r_rec r = join32 (e_htonl e (rxTm_s pkt)) (e_htonl e (rxTm_f pkt))"
      "r_version r = drop_bit 3 (li_vn_mode pkt) AND 7"
    using assms by (auto simp: recv_packet_def prv_create_ntp_r_def prv_swap_fields_def Let_def)
  then show ?thesis by (simp add: receive_def round_trip_def)
qed

section \<open>Witnesses\<close>

lemma modify_system: "modify e p f w = Inr w' \<Longrightarrow> w_s w' = w_s w"
  by (simp add: modify_Inr_iff)

lemma peer_xmit_system:
  assumes "peer_xmit e p w = Inr w'"
  shows "w_s w' = w_s w"
proof -
  obtain q where q: "load e w p = Inr q" using assms by (auto simp: peer_xmit_def bind_r_Inr_conv)
  obtain u x x' where u: "modify e p (\<lambda>q. q\<lparr>p_xmt := c_t (w_c w)\<rparr>) (gettime e 0 (w\<lparr>w_ip := p_srcaddr q\<rparr>)) = Inr u"
      and x: "xmit_packet e x u = Inr (x', w')"
    using assms q by (auto simp: peer_xmit_def Let_def bind_r_Inr_conv)
  obtain v found where v: "assoc_table_add e (w_ip u) (x_mode x) (c_localTime (w_c (gettime e 0 (u\<lparr>w_dest := w_ip u\<rparr>))))
      (gettime e 0 (u\<lparr>w_dest := w_ip u\<rparr>)) = Inr (found, v)" "w_s w' = w_s v"
    using x by (auto simp: xmit_packet_def Let_def bind_r_Inr_conv)
  have "w_s v = w_s u"
    using v(1) by (auto simp: assoc_table_add_def bind_r_Inr_conv dest!: modify_system split: option.splits)
  then show ?thesis using v(2) modify_system [OF u] by simp
qed

text \<open>
  A server whose clock is 7 units ahead answers a request sent at the time 0 without delay; the
  client's tick counter stands still.
\<close>

definition ahead_answer :: ntp_packet where
  "ahead_answer = demo_answer\<lparr>k_stratum := 1, rxTm_f := byte_swap 7\<rparr>"

text \<open>An association whose last sample has the present process time stores the next one and is done.\<close>

lemma filter_idle:
  assumes ok: "okay b ips w" and p: "p \<in> set (w_peers w)" and b: "b < t_max"
    and args: "bd 31 offset" "wfd offset" "bd 32 delay" "0 \<le> disp"
    and idle: "p_t (peer w p) = c_t (w_c w)" "s_leap (w_s w) \<noteq> word_of_int NOSYNC"
  shows "\<exists>w'. clock_filter e p offset delay disp w = Inr w'"
proof -
  have c: "client_ok w" and t: "uint (c_t (w_c w)) \<le> b" using ok by (simp_all add: okay_def)
  note v = okayD [OF ok p]
  have tt: "uint (c_t (w_c w)) < 9223372036854775808" using t b by simp
  have prec: "sint (s_precision (w_s w)) = PRECISION" using c by (simp add: client_ok_def)
  obtain q where q: "filter_sample e w (peer w p) offset delay disp = Inr q"
    "p_t q = p_t (peer w p)" "f_t (p_f q ! 0) = c_t (w_c w)"
    using filter_sample_ok [OF v(2) tt prec args] by blast
  have "subtract_uint64_t (c_t (w_c w)) (c_t (w_c w)) = 0" by (simp add: sint_difference)
  then show ?thesis using v(1) q idle by (simp add: clock_filter_def Let_def)
qed

lemma poll_update_system:
  assumes "poll_update e p hpoll w = Inr w'"
  shows "w_s w' = w_s w"
proof -
  obtain u where u: "modify e p (\<lambda>q. q\<lparr>p_hpoll := word_of_int (cmax (cmin MAXPOLL hpoll) MINPOLL)\<rparr>) w = Inr u"
    using assms by (auto simp: poll_update_def bind_r_Inr_conv)
  have "w_s w' = w_s u"
  proof (cases "w' = u")
    case False
    with assms u obtain nd v nd' where v: "spread_nextdate e nd u = (nd', v)"
        and m: "\<exists>n. modify e p (\<lambda>q. q\<lparr>p_nextdate := n\<rparr>) v = Inr w'"
      by (auto simp: poll_update_def Let_def bind_r_Inr_conv split: if_splits prod.splits)
    have "w_s v = w_s u" using v by (auto simp: spread_nextdate_def split: if_splits)
    then show ?thesis using m modify_system by metis
  qed simp
  then show ?thesis using modify_system [OF u] by simp
qed

lemma packet_idle:
  assumes ok: "okay b ips w" and p: "p \<in> set (w_peers w)" and b: "b < t_max"
    and r: "packet_sane e r" and s: "\<And>v q. p_pmode q = r_mode r \<Longrightarrow> \<exists>x. sample e v q r = Inr x"
    and idle: "p_t (peer w p) = c_t (w_c w)" "s_leap (w_s w) \<noteq> word_of_int NOSYNC"
  shows "\<exists>w'. packet e p r w = Inr w'"
proof -
  note v = okayD [OF ok p]
  let ?w = "set_peer p (take_header r (peer w p)) w"
  have "modify e p (take_header r) w = Inr ?w" using v(1) by simp
  note o1 = okay_modified [OF ok p this take_header_ok]
  have ok1: "okay b ips ?w" and p1: "p \<in> set (w_peers ?w)" using o1 by (simp_all add: take_header_def)
  note v1 = okayD [OF ok1 p1]
  have bt: "uint (c_t (w_c ?w)) < 2147483647" "p_burst (peer ?w p) = 0"
    using ok1 b v1(2) by (simp_all add: okay_def peer_ok_def)
  obtain u n where u: "poll_update e p (uint (p_hpoll (peer ?w p))) ?w = Inr u"
      "p_t (peer u p) = p_t (peer w p)" "p_pmode (peer u p) = r_mode r" "c_t (w_c u) = c_t (w_c w)"
    using poll_update_schedules [OF v1(1) bt(2,1), of e "uint (p_hpoll (peer ?w p))"] v(1)
    by (auto simp: take_header_def)
  have su: "w_s u = w_s w" using poll_update_system [OF u(1)] by simp
  have "okay b ips u \<and> w_peers u = w_peers ?w"
    using poll_update_okay [OF ok1 p1 b, of e "uint (p_hpoll (peer ?w p))"] u(1) by simp
  then have ok2: "okay b ips u" and p2: "p \<in> set (w_peers u)" using p1 by simp_all
  let ?u = "set_peer p ((peer u p)\<lparr>p_reach := p_reach (peer u p) OR 1\<rparr>) u"
  note v2 = okayD [OF ok2 p2]
  have ok3: "okay b ips ?u" by (rule okay_set_peer [OF ok2 p2]) (use v2(2) in \<open>simp_all add: peer_ok_def\<close>)
  have p3: "p \<in> set (w_peers ?u)" using p2 by simp
  obtain offset delay disp where x: "sample e ?u (peer ?u p) r = Inr (offset, delay, disp)"
    using s [of "peer ?u p" ?u] u(3) v2(1) by auto
  have "sint (s_precision (w_s ?u)) = PRECISION" using ok3 by (simp add: okay_def client_ok_def)
  from sample_ok [OF this r, of "peer ?u p"] x
  have args: "bd 31 offset" "wfd offset" "bd 32 delay" "0 \<le> disp" by simp_all
  obtain w' where "clock_filter e p offset delay disp ?u = Inr w'"
    using filter_idle [OF ok3 p3 b args, of e] idle u(2,4) su v2(1) by auto
  then show ?thesis using v(1) v1(1) v2(1) u(1) x by (simp add: packet_def)
qed

theorem exchange_measures_offset_witness:
  "\<exists>w1 r w2 w3. peer_xmit (still_env ahead_answer) (Addr 0) five_world = Inr w1 \<and>
    recv_packet (still_env ahead_answer) w1 = (r, w2) \<and> receive (still_env ahead_answer) r w2 = Inr w3 \<and>
    (\<exists>offset delay. p_offset (peer w3 (Addr 0)) = Fin offset \<and> p_delay (peer w3 (Addr 0)) = Fin delay \<and>
      \<bar>offset - 7 / 2 ^ 32\<bar> \<le> delay / 2)"
proof -
  let ?e = "still_env ahead_answer"
  have p: "Addr 0 \<in> set (w_peers five_world)" by (simp add: five_world_def)
  have tab: "table_ok five_world" and d: "distinct (addrs five_world)"
    using five_world_okay by (simp_all add: okay_def client_ok_def)
  obtain w1 where w1: "peer_xmit ?e (Addr 0) five_world = Inr w1"
    using peer_xmit_okay [OF five_world_okay p, of ?e] by (auto simp: outc_def split: sum.splits)
  obtain x where x: "w_sent w1 = [(1, wire ?e x)]" "x_xmt x = c_localTime (w_c w1)"
      "w_c w1 = w_c (gettime ?e 0 (gettime ?e 0 five_world))"
      "peer w1 (Addr 0) = (five_peer 0)\<lparr>p_xmt := x_xmt x\<rparr>" "w_peers w1 = w_peers five_world"
    using peer_xmit_stamp [OF tab p d w1] by (auto simp: five_world_clock five_peer_def)
  have c1: "w_c w1 = zero_c" unfolding x(3)
    by (simp add: gettime_def read_tick_def still_env_fields five_world_clock zero_c_def Let_def)
  have "x_xmt x = 0" unfolding x(2) c1 by (simp add: zero_c_def)
  then have ans: "answers (snd (last (w_sent w1))) ahead_answer"
    by (simp add: x(1) answers_def ahead_answer_def demo_answer_def zero_packet_def wire_stamps
        still_env_fields drop_bit_eq_div hi32_def lo32_def)
  obtain r w2 where r: "recv_packet ?e w1 = (r, w2)" by fastforce
  have tick: "c_localTime (w_c (gettime ?e 0 u)) = 0" if "w_c u = zero_c" for u
    using that by (simp add: gettime_def read_tick_def still_env_fields zero_c_def Let_def)
  have rf: "r_org r = 0" "r_rec r = 7" "r_xmt r = 7" "r_dst r = 0" "r_leap r = 0" "r_stratum r = 1" "r_mode r = 4"
      "r_precision r = 0" "r_rootdelay r = 0" "r_rootdisp r = 0" "r_reftime r = 0" "c_t (w_c w2) = 0" "w_s w2 = w_s w1"
    using r c1 tick by (auto simp: recv_packet_def prv_create_ntp_r_def prv_swap_fields_def Let_def still_env_fields
        ahead_answer_def demo_answer_def zero_packet_def join32_def drop_bit_eq_div zero_c_def)
  have trip: "round_trip 7 0 0 0 r" by (simp add: round_trip_def rf)
  have times: "r_xmt r \<noteq> unix_epoch" "r_org r \<noteq> unix_epoch" "r_xmt r \<noteq> r_org r"
    by (simp_all add: rf join32_def push_bit_eq_mult)
  have good: "header_good r" "0 \<le> LOG2D (e_shl ?e) (sint (r_precision r))"
    by (simp_all add: header_good_def rf LOG2D_nonneg_exp zero_dbl_def)
  then have sane: "packet_sane ?e r" by (simp add: packet_sane_def rf sint_difference)
  have q: "qsort_ok ?e" using demo_qsort_ok by (simp add: qsort_ok_def still_env_def)
  have h: "e_htonl ?e (e_htonl ?e v) = v" for v by (simp add: still_env_fields)
  let ?w = "set_peer (Addr 0) ((peer w1 (Addr 0))\<lparr>p_org := r_xmt r, p_rec := r_dst r\<rparr>) w2"
  have pk: "receive ?e r w2 = packet ?e (Addr 0) r ?w"
    using honest_answer_accepted [OF five_world_okay _ _ h _ still_env_fields(2) _ ans r times, of 0] w1
    by (simp add: five_world_clock Let_def)
  have ok2: "okay 0 [1, 2, 3, 4, 5] w2"
    using recv_okay [of 0 "[1, 2, 3, 4, 5]" w1 ?e] peer_xmit_okay [OF five_world_okay p, of ?e] w1 r by simp
  have p2: "Addr 0 \<in> set (w_peers w2)" using recv_packet_heap(4) [OF r] x(5) p by simp
  note v2 = okayD [OF ok2 p2]
  have okw: "okay 0 [1, 2, 3, 4, 5] ?w"
    by (rule okay_set_peer [OF ok2 p2]) (use v2(2) recv_packet_heap(2) [OF r] in \<open>simp_all add: peer_ok_def\<close>)
  have total: "\<exists>y. sample ?e v q r = Inr y" if "p_pmode q = r_mode r" for v q
    using sample_round_trip [OF _ trip, of q ?e v] that by (auto simp: rf)
  have idle: "p_t (peer ?w (Addr 0)) = c_t (w_c ?w)" "s_leap (w_s ?w) \<noteq> word_of_int NOSYNC"
    using v2(1) rf(12,13) x(4) recv_packet_heap(2) [OF r] peer_xmit_system [OF w1]
    by (simp_all add: five_peer_def client_peer_def zero_p_def five_world_def zero_s_def)
  have "Addr 0 \<in> set (w_peers ?w)" using p2 by simp
  from packet_idle [OF okw this _ sane total idle] obtain w3 where w3: "receive ?e r w2 = Inr w3"
    using pk by auto
  from exchange_measures_offset [OF five_world_okay _ _ q _ h _ still_env_fields(2) _ ans r times good trip _ _ w3, of 0]
  show ?thesis using w1 r w3 by (simp add: five_world_clock) blast
qed

theorem packet_sets_clock_witness:
  "\<exists>r w'. recv_packet (still_env (ahead_answer\<lparr>li_vn_mode := 43\<rparr>)) five_world = (r, w') \<and>
    c_localTime (w_c w') = 7 \<and> receive (still_env (ahead_answer\<lparr>li_vn_mode := 43\<rparr>)) r w' = Inr w'"
proof -
  let ?pkt = "ahead_answer\<lparr>li_vn_mode := 43\<rparr>"
  obtain r w' where r: "recv_packet (still_env ?pkt) five_world = (r, w')" by fastforce
  have "join32 (byte_swap (rxTm_s ?pkt)) (byte_swap (rxTm_f ?pkt)) = 7"
    by (simp add: ahead_answer_def demo_answer_def zero_packet_def join32_def)
  moreover have "4 < drop_bit 3 (li_vn_mode ?pkt) AND 7" by (simp add: drop_bit_eq_div)
  ultimately show ?thesis
    using packet_sets_clock [OF still_env_fields(2) _ r] r by (simp add: still_env_fields)
qed

end
