(* ===== verification/Rounding_Error.thy ===== *)
theory Rounding_Error
  imports Doubles
begin

text \<open>
  The error of a rounding and of a weighted average computed in double arithmetic. The unit u is
  half a unit in the last place of 1; a bound on a real, above the smallest normal number, bounds
  the error of rounding it.
\<close>

section \<open>One rounding\<close>

abbreviation (input) u53 :: real where "u53 \<equiv> 1 / 2 ^ 53"

lemma rnd_ulp_error: "\<bar>rnd x - x\<bar> \<le> 2 powi (ulpexp x) / 2"
proof (cases "x = 0")
  case False
  let ?p = "(2::real) powi (ulpexp x)"
  have "rnd x - x = (of_int (rne (x / ?p)) - x / ?p) * ?p" using False by (simp add: rnd_def algebra_simps)
  then have "\<bar>rnd x - x\<bar> = \<bar>of_int (rne (x / ?p)) - x / ?p\<bar> * ?p" by (simp add: abs_mult)
  also have "\<dots> \<le> 1 / 2 * ?p" by (intro mult_right_mono rne_error) simp
  finally show ?thesis by simp
qed simp

definition tiny :: real where
  "tiny = 2 powi (- 1022)"

lemma tiny_pos [simp]: "0 < tiny"
  by (simp add: tiny_def)

lemma rnd_error_below:
  assumes "\<bar>x\<bar> \<le> B" and "tiny \<le> B"
  shows "\<bar>rnd x - x\<bar> \<le> B * u53"
proof (cases "x = 0")
  case True
  then show ?thesis using assms by simp
next
  case False
  have step: "(2::real) powi (k - 52) = 2 powi k / 2 ^ 52" for k by (simp add: power_int_diff)
  have "ulpexp x = binexp \<bar>x\<bar> - 52 \<or> ulpexp x = - 1022 - 52" by (auto simp: ulpexp_def)
  then have "(2::real) powi (ulpexp x) = 2 powi (binexp \<bar>x\<bar>) / 2 ^ 52 \<or> 2 powi (ulpexp x) = tiny / 2 ^ 52"
    by (metis step tiny_def)
  moreover have "2 powi (binexp \<bar>x\<bar>) \<le> \<bar>x\<bar>" using False binexp_bounds [of "\<bar>x\<bar>"] by simp
  ultimately have "2 powi (ulpexp x) \<le> B / 2 ^ 52" using assms by (auto simp: divide_right_mono)
  then show ?thesis using rnd_ulp_error [of x] by simp
qed

lemma rnd_upper: "\<bar>x\<bar> \<le> B \<Longrightarrow> tiny \<le> B \<Longrightarrow> \<bar>rnd x\<bar> \<le> 2 * B"
proof -
  assume B: "\<bar>x\<bar> \<le> B" "tiny \<le> B"
  have "0 \<le> B" using B(2) tiny_pos by linarith
  then have "B * u53 \<le> B" by simp
  then show ?thesis using rnd_error_below [OF B] B(1) by linarith
qed

lemma tiny_le: "tiny \<le> 1 / 2 ^ k" if "k \<le> 1022"
proof -
  have "tiny = 1 / 2 ^ 1022" unfolding tiny_def by (subst power_int_minus) (simp add: inverse_eq_divide)
  also have "(1::real) / 2 ^ 1022 \<le> 1 / 2 ^ k"
    using that by (intro divide_left_mono power_increasing) simp_all
  finally show ?thesis .
qed

section \<open>A sum of roundings\<close>

text \<open>The loop that adds rounded terms to an accumulator, rounding each sum.\<close>

fun fsum :: "real list \<Rightarrow> real \<Rightarrow> real" where
  "fsum [] y = y"
| "fsum (t # ts) y = fsum ts (rnd (y + rnd t))"

lemma fsum_step:
  assumes y: "\<bar>y - Y\<bar> \<le> 3 * real k * S * u53" and Y: "\<bar>Y\<bar> \<le> S" and t: "\<bar>t\<bar> \<le> b" "tiny \<le> b" and k: "3 * k \<le> 2 ^ 50"
  shows "\<bar>rnd (y + rnd t) - (Y + t)\<bar> \<le> 3 * real (Suc k) * (S + b) * u53"
proof -
  have S: "0 \<le> S" and b: "0 \<le> b" using Y t(2) tiny_pos by linarith+
  have e1: "\<bar>rnd t - t\<bar> \<le> b * u53" by (rule rnd_error_below [OF t])
  have "real (3 * k) \<le> 2 ^ 50" using k by (metis of_nat_le_iff of_nat_numeral of_nat_power)
  then have "3 * real k * S \<le> 2 ^ 50 * S" using S by (intro mult_right_mono) simp_all
  then have "3 * real k * S * u53 \<le> S" using S by simp
  moreover have "b * u53 \<le> b" using b by simp
  ultimately have "\<bar>y\<bar> \<le> 2 * S" "\<bar>rnd t\<bar> \<le> 2 * b" using y Y t(1) e1 by linarith+
  then have "\<bar>y + rnd t\<bar> \<le> 2 * (S + b)" using abs_triangle_ineq [of y "rnd t"] by simp
  then have "\<bar>rnd (y + rnd t) - (y + rnd t)\<bar> \<le> 2 * (S + b) * u53"
    by (rule rnd_error_below) (use t(2) S b in simp)
  moreover have "3 * real (Suc k) * (S + b) * u53 = (3 * real k * S + b + 2 * (S + b) + (S + 3 * real k * b)) * u53"
    by (simp add: algebra_simps)
  moreover have "(3 * real k * S + b + 2 * (S + b)) * u53 \<le> (3 * real k * S + b + 2 * (S + b) + (S + 3 * real k * b)) * u53"
    by (rule mult_right_mono) (use S b in simp_all)
  moreover have "(3 * real k * S + b + 2 * (S + b)) * u53 = 3 * real k * S * u53 + b * u53 + 2 * (S + b) * u53"
    by (simp only: distrib_right)
  ultimately show ?thesis using y e1 by linarith
qed

lemma fsum_error:
  assumes "\<bar>y - Y\<bar> \<le> 3 * real k * S * u53" and "\<bar>Y\<bar> \<le> S"
    and "\<forall>i \<in> set xs. \<bar>t i\<bar> \<le> b i \<and> tiny \<le> b i" and "3 * (k + length xs) \<le> 2 ^ 50"
  shows "\<bar>fsum (map t xs) y - (Y + sum_list (map t xs))\<bar> \<le> 3 * real (k + length xs) * (S + sum_list (map b xs)) * u53"
  using assms
proof (induction xs arbitrary: y Y k S)
  case (Cons i xs)
  have t: "\<bar>t i\<bar> \<le> b i" "tiny \<le> b i" using Cons.prems(3) by simp_all
  have "3 * k \<le> 2 ^ 50" using Cons.prems(4) by simp
  note step = fsum_step [OF Cons.prems(1,2) t this]
  have "\<bar>Y + t i\<bar> \<le> S + b i" using Cons.prems(2) t(1) by linarith
  note ih = Cons.IH [OF step this]
  then show ?case using Cons.prems(3,4) by (simp add: add.assoc)
qed simp

text \<open>From an empty accumulator.\<close>

lemma fsum_error_zero:
  assumes "\<forall>i \<in> set xs. \<bar>t i\<bar> \<le> b i \<and> tiny \<le> b i" and "length xs \<le> 1000"
  shows "\<bar>fsum (map t xs) 0 - sum_list (map t xs)\<bar> \<le> 3 * real (length xs) * sum_list (map b xs) * u53"
  using fsum_error [of 0 0 0 0 xs t b] assms by simp

section \<open>A quotient of sums\<close>

lemma quotient_error:
  assumes z: "\<bar>z - Z\<bar> \<le> c * M * W" and y: "\<bar>y - W\<bar> \<le> c * W" and Z: "\<bar>Z\<bar> \<le> M * W"
    and W: "0 < W" and c: "0 \<le> c" "c \<le> 1 / 2" and M: "tiny \<le> M"
  shows "\<bar>rnd (z / y) - Z / W\<bar> \<le> 4 * c * M + 3 * M * u53"
proof -
  have M0: "0 < M" using M tiny_pos by linarith
  have "c * W \<le> W / 2" using c(2) W by (simp add: mult_right_mono [of c "1 / 2" W])
  then have y2: "W / 2 \<le> y" using y by linarith
  then have y0: "0 < y" using W by linarith
  have "z / y - Z / W = (z - Z) / y + (Z / W) * ((W - y) / y)"
    using y0 W by (simp add: field_simps)
  moreover have "\<bar>(z - Z) / y\<bar> \<le> (c * M * W) / (W / 2)"
    unfolding abs_divide using z y0 y2 W by (intro frac_le) simp_all
  moreover have "\<bar>Z / W\<bar> \<le> M" using Z W by (simp add: abs_divide pos_divide_le_eq)
  moreover have "\<bar>(W - y) / y\<bar> \<le> (c * W) / (W / 2)"
    unfolding abs_divide using y y0 y2 W by (intro frac_le) (simp_all add: abs_minus_commute)
  moreover have "(c * M * W) / (W / 2) = 2 * c * M" "(c * W) / (W / 2) = 2 * c" using W by simp_all
  ultimately have d: "z / y - Z / W = (z - Z) / y + (Z / W) * ((W - y) / y)" "\<bar>(z - Z) / y\<bar> \<le> 2 * c * M"
    "\<bar>Z / W\<bar> \<le> M" "\<bar>(W - y) / y\<bar> \<le> 2 * c" by simp_all
  have "\<bar>(Z / W) * ((W - y) / y)\<bar> \<le> M * (2 * c)"
    unfolding abs_mult using d(3,4) M0 by (intro mult_mono) simp_all
  then have a: "\<bar>z / y - Z / W\<bar> \<le> 2 * c * M + M * (2 * c)" using d(1,2) by linarith
  have "c * M \<le> 1 / 2 * M" using c(2) M0 by (intro mult_right_mono) simp_all
  moreover have e: "2 * c * M + M * (2 * c) = 4 * c * M" by simp
  ultimately have "\<bar>z / y\<bar> \<le> 3 * M" using a d(3) by linarith
  then have "\<bar>rnd (z / y) - z / y\<bar> \<le> 3 * M * u53" by (rule rnd_error_below) (use M M0 in linarith)
  then show ?thesis using a e by linarith
qed

end
