(* ===== verification/Combine.thy ===== *)
theory Combine
  imports Select_Props Rounding_Error
begin

text \<open>
  clock_combine() against its specification: the system offset is the average of the survivors'
  offsets, weighted with the reciprocals of their root distances. The three sums of the loop are
  the sums \<open>fsum\<close> of Rounding_Error over the entries of the survivor list up to the first null
  pointer, whose error is bounded there.
\<close>

section \<open>Doubles of moderate size\<close>

fun fin_val :: "dbl \<Rightarrow> real" where
  "fin_val (Fin a) = a"
| "fin_val _ = 0"

text \<open>A multiple of a large power of two bounds a real and its rounding.\<close>

lemma rnd_mag:
  assumes "\<bar>x\<bar> \<le> real k * 2 ^ 200" and "k \<le> 1000"
  shows "\<bar>rnd x\<bar> \<le> real k * 2 ^ 200"
proof (rule b64.R_abs_upper [OF _ assms(1)])
  have "\<bar>int k\<bar> < 2 ^ 53" using assms(2) by simp
  then have "repr (of_int (int k) * 2 powi 200)" by (rule repr_scaled) simp
  then show "rnd (real k * 2 ^ 200) = real k * 2 ^ 200" by (simp add: repr_def)
qed

lemma flt_mag:
  assumes "\<bar>x\<bar> \<le> real k * 2 ^ 200" and "k \<le> 1000"
  shows "flt x = Fin (rnd x)"
proof -
  have "real k * 2 ^ 200 \<le> 2 ^ 10 * 2 ^ 200" using assms(2) by (intro mult_right_mono) simp_all
  also have "\<dots> < ovf" using ovf_gt by simp
  finally have "\<bar>rnd x\<bar> < ovf" using rnd_mag [OF assms] by linarith
  then show ?thesis by (auto simp: flt_def Let_def abs_less_iff)
qed

lemma flt_rnd: "\<bar>rnd x\<bar> \<le> 2 ^ 100 \<Longrightarrow> flt x = Fin (rnd x)"
  using small_lt_ovf [of "rnd x"] by (auto simp: flt_def Let_def abs_less_iff)

lemma abs_near: "\<bar>p - q\<bar> \<le> A \<Longrightarrow> \<bar>q\<bar> \<le> B \<Longrightarrow> \<bar>p\<bar> \<le> A + (B :: real)"
  by linarith

lemma mag_mono: "\<bar>x\<bar> \<le> real k * 2 ^ 200 \<Longrightarrow> k \<le> n \<Longrightarrow> \<bar>x\<bar> \<le> real n * (2 ^ 200 :: real)"
  by (erule order_trans) simp

lemma fsum_once:
  assumes "\<bar>y\<bar> \<le> real k * 2 ^ 200" and "\<bar>t\<bar> \<le> 2 ^ 200" and "k < 1000"
  shows "Fin y + flt t = Fin (rnd (y + rnd t))" and "\<bar>rnd (y + rnd t)\<bar> \<le> real (Suc k) * 2 ^ 200"
proof -
  have t: "\<bar>t\<bar> \<le> real 1 * 2 ^ 200" using assms(2) by simp
  then have "\<bar>rnd t\<bar> \<le> real 1 * 2 ^ 200" by (rule rnd_mag) simp
  then have s: "\<bar>y + rnd t\<bar> \<le> real (Suc k) * 2 ^ 200"
    using assms(1) abs_triangle_ineq [of y "rnd t"] by (simp add: distrib_right)
  have k: "Suc k \<le> 1000" using assms(3) by simp
  show "Fin y + flt t = Fin (rnd (y + rnd t))" using flt_mag [OF t] flt_mag [OF s k] by simp
  show "\<bar>rnd (y + rnd t)\<bar> \<le> real (Suc k) * 2 ^ 200" by (rule rnd_mag [OF s k])
qed

section \<open>The survivors\<close>

abbreviation (input) dist :: "world \<Rightarrow> ntp_v \<Rightarrow> real" where
  "dist w r \<equiv> fin_val (root_dist w (peer w (v_p r)))"

abbreviation (input) ofs :: "world \<Rightarrow> ntp_v \<Rightarrow> real" where
  "ofs w r \<equiv> fin_val (p_offset (peer w (v_p r)))"

definition survivor :: "world \<Rightarrow> real \<Rightarrow> ntp_v \<Rightarrow> bool" where
  "survivor w M r \<longleftrightarrow> v_p r \<noteq> NULL \<and> valid w (v_p r) \<and>
     root_dist w (peer w (v_p r)) = Fin (dist w r) \<and> 1 / 2 ^ 60 \<le> dist w r \<and> dist w r \<le> 2 ^ 60 \<and>
     p_offset (peer w (v_p r)) = Fin (ofs w r) \<and> \<bar>ofs w r\<bar> \<le> M"

text \<open>The square of the difference from the first survivor's offset, as the code rounds it.\<close>

definition sqd :: "real \<Rightarrow> real \<Rightarrow> real" where
  "sqd a a0 = rnd (\<bar>rnd (a - a0)\<bar> * \<bar>rnd (a - a0)\<bar>)"

lemma sqd:
  assumes "\<bar>a\<bar> \<le> 2 ^ 31" and "\<bar>a0\<bar> \<le> 2 ^ 31"
  shows "SQUARE (fabs (Fin a - Fin a0)) = Fin (sqd a a0)" and "\<bar>sqd a a0\<bar> \<le> 2 ^ 64"
proof -
  have d: "\<bar>a - a0\<bar> \<le> 2 ^ 32" using assms by simp
  then have r: "\<bar>rnd (a - a0)\<bar> \<le> 2 ^ 32" by (intro b64.R_abs_upper) (use repr_pow2 [of 32] in \<open>simp_all add: repr_def\<close>)
  have "\<bar>rnd (a - a0)\<bar> * \<bar>rnd (a - a0)\<bar> \<le> 2 ^ 32 * 2 ^ 32" by (rule mult_mono [OF r r]) simp_all
  then have q: "\<bar>\<bar>rnd (a - a0)\<bar> * \<bar>rnd (a - a0)\<bar>\<bar> \<le> 2 ^ 64" by simp
  then show "\<bar>sqd a a0\<bar> \<le> 2 ^ 64"
    unfolding sqd_def by (intro b64.R_abs_upper) (use repr_pow2 [of 64] in \<open>simp_all add: repr_def\<close>)
  have "flt (a - a0) = Fin (rnd (a - a0))" by (rule flt_mag [where k = 1]) (use d in simp_all)
  moreover have "flt (\<bar>rnd (a - a0)\<bar> * \<bar>rnd (a - a0)\<bar>) = Fin (sqd a a0)"
    unfolding sqd_def by (rule flt_mag [where k = 1]) (use q in simp_all)
  ultimately show "SQUARE (fabs (Fin a - Fin a0)) = Fin (sqd a a0)" by (simp add: SQUARE_def)
qed

lemma quotient_mag:
  assumes "\<bar>a\<bar> \<le> 2 ^ 64" and "1 / 2 ^ 60 \<le> (x :: real)"
  shows "\<bar>a / x\<bar> \<le> 2 ^ 200"
proof -
  have "\<bar>a\<bar> / x \<le> 2 ^ 64 / (1 / 2 ^ 60)" using assms by (intro frac_le) simp_all
  moreover have "0 < x" using assms(2) by (rule less_le_trans [rotated]) simp
  ultimately show ?thesis by (simp add: abs_divide)
qed

lemma combine_loop_sums:
  assumes "\<forall>r \<in> set vs. survivor w (2 ^ 31) r" and "v_p r0 = NULL"
    and "s_v (w_s w) = v1 # l" and "survivor w (2 ^ 31) v1"
    and "\<bar>y\<bar> \<le> real k * 2 ^ 200" "\<bar>z\<bar> \<le> real k * 2 ^ 200" "\<bar>v\<bar> \<le> real k * 2 ^ 200" "k + length vs < 1000"
  shows "combine_loop e w (vs @ r0 # rest) (Fin y) (Fin z) (Fin v) =
    Inr (Fin (fsum (map (\<lambda>r. 1 / dist w r) vs) y), Fin (fsum (map (\<lambda>r. ofs w r / dist w r) vs) z),
      Fin (fsum (map (\<lambda>r. sqd (ofs w r) (ofs w v1) / dist w r) vs) v))"
  using assms
proof (induction vs arbitrary: y z v k)
  case (Cons r vs)
  have r: "survivor w (2 ^ 31) r" using Cons.prems(1) by simp
  note s = r [unfolded survivor_def] and s1 = Cons.prems(4) [unfolded survivor_def]
  have x: "dist w r \<noteq> 0" "1 / 2 ^ 60 \<le> dist w r" using s by auto
  have o: "\<bar>ofs w r\<bar> \<le> 2 ^ 31" "\<bar>ofs w v1\<bar> \<le> 2 ^ 31" using s s1 by simp_all
  note q = sqd [OF o]
  have t: "\<bar>1 / dist w r\<bar> \<le> 2 ^ 200" "\<bar>ofs w r / dist w r\<bar> \<le> 2 ^ 200"
      "\<bar>sqd (ofs w r) (ofs w v1) / dist w r\<bar> \<le> 2 ^ 200"
    by (rule quotient_mag [OF _ x(2)]; use o q in simp)+
  have k: "k < 1000" "Suc k + length vs < 1000" using Cons.prems(8) by simp_all
  note y = fsum_once [OF Cons.prems(5) t(1) k(1)] and z = fsum_once [OF Cons.prems(6) t(2) k(1)]
    and v = fsum_once [OF Cons.prems(7) t(3) k(1)]
  have "\<forall>r \<in> set vs. survivor w (2 ^ 31) r" using Cons.prems(1) by simp
  note ih = Cons.IH [OF this Cons.prems(2-4) y(2) z(2) v(2) k(2)]
  obtain d a a1 where da: "root_dist w (peer w (v_p r)) = Fin d" "p_offset (peer w (v_p r)) = Fin a"
      "p_offset (peer w (v_p v1)) = Fin a1" using s s1 by blast
  have op: "flt 1 / Fin d = flt (1 / d)" "Fin a / Fin d = flt (a / d)" "Fin (sqd a a1) / Fin d = flt (sqd a a1 / d)"
    using x(1) by (simp_all add: da)
  have "combine_loop e w ((r # vs) @ r0 # rest) (Fin y) (Fin z) (Fin v) =
      combine_loop e w (vs @ r0 # rest) (Fin y + flt (1 / d)) (Fin z + flt (a / d)) (Fin v + flt (sqd a a1 / d))"
    using s s1 q(1) by (simp add: da Cons.prems(3) idx_def op del: dbl_fin_ops flt_1)
  then show ?case using ih y(1) z(1) v(1) by (simp add: da del: dbl_fin_ops)
qed simp

section \<open>The weighted average\<close>

text \<open>Sums of at most 25 weighted terms below a bound, and their quotient by the sum of the weights.\<close>

lemma weighted_average:
  assumes vs: "vs \<noteq> []" "length vs \<le> 25" and x: "\<forall>r \<in> set vs. 1 / 2 ^ 60 \<le> x r \<and> x r \<le> 2 ^ 60"
    and a: "\<forall>r \<in> set vs. \<bar>a r\<bar> \<le> M" and M: "1 / 2 ^ 100 \<le> M"
  shows "0 < fsum (map (\<lambda>r. 1 / x r) vs) 0"
    and "\<bar>rnd (fsum (map (\<lambda>r. a r / x r) vs) 0 / fsum (map (\<lambda>r. 1 / x r) vs) 0) -
      (\<Sum>r\<leftarrow>vs. a r / x r) / (\<Sum>r\<leftarrow>vs. 1 / x r)\<bar> \<le> M / 2 ^ 44"
    and "\<bar>(\<Sum>r\<leftarrow>vs. a r / x r) / (\<Sum>r\<leftarrow>vs. 1 / x r)\<bar> \<le> M"
proof -
  let ?Y = "\<Sum>r\<leftarrow>vs. 1 / x r" and ?Z = "\<Sum>r\<leftarrow>vs. a r / x r"
  have M0: "0 < M" using M by (rule less_le_trans [rotated]) simp
  have pos: "0 < x r" if "r \<in> set vs" for r
  proof -
    have "1 / 2 ^ 60 \<le> x r" using x that by blast
    then show ?thesis by (rule less_le_trans [rotated]) simp
  qed
  have w: "\<bar>1 / x r\<bar> \<le> 1 / x r \<and> tiny \<le> 1 / x r" if "r \<in> set vs" for r
  proof -
    have "1 / 2 ^ 60 \<le> 1 / x r" using x pos that by (intro frac_le) simp_all
    moreover have "tiny \<le> 1 / 2 ^ 60" by (rule tiny_le) simp
    ultimately have "tiny \<le> 1 / x r" by (rule order_trans [rotated])
    then show ?thesis using pos [OF that] by simp
  qed
  have m: "\<bar>a r / x r\<bar> \<le> M * (1 / x r) \<and> tiny \<le> M * (1 / x r)" if "r \<in> set vs" for r
  proof -
    have "1 / 2 ^ 60 \<le> 1 / x r" using x pos that by (intro frac_le) simp_all
    then have "1 / 2 ^ 100 * (1 / 2 ^ 60) \<le> M * (1 / x r)" using M M0 by (intro mult_mono) simp_all
    then have "1 / 2 ^ 160 \<le> M * (1 / x r)" by (rule order_trans [rotated]) simp
    then have "tiny \<le> M * (1 / x r)" by (rule order_trans [OF tiny_le, rotated]) simp
    moreover have "\<bar>a r\<bar> / x r \<le> M / x r" using a pos that by (intro divide_right_mono) (simp_all add: less_imp_le)
    ultimately show ?thesis using pos [OF that] by (simp add: abs_divide)
  qed
  have len: "length vs \<le> 1000" "real (length vs) \<le> 25" using vs(2) by simp_all
  have W: "0 < ?Y"
  proof -
    obtain r rs where "vs = r # rs" using vs(1) by (cases vs) auto
    moreover have "0 \<le> (\<Sum>r\<leftarrow>rs. 1 / x r)" using pos calculation
      by (intro sum_list_nonneg) (auto intro: less_imp_le)
    ultimately show ?thesis using pos [of r] by (simp add: add_pos_nonneg)
  qed
  have MW: "(\<Sum>r\<leftarrow>vs. M * (1 / x r)) = M * ?Y" by (rule sum_list_const_mult)
  have y: "\<bar>fsum (map (\<lambda>r. 1 / x r) vs) 0 - ?Y\<bar> \<le> 75 * u53 * ?Y"
  proof -
    have "\<bar>fsum (map (\<lambda>r. 1 / x r) vs) 0 - ?Y\<bar> \<le> 3 * real (length vs) * ?Y * u53"
      by (rule fsum_error_zero [OF _ len(1)]) (use w in blast)
    also have "\<dots> \<le> 3 * 25 * ?Y * u53" using len(2) W by (intro mult_right_mono) simp_all
    finally show ?thesis by simp
  qed
  have z: "\<bar>fsum (map (\<lambda>r. a r / x r) vs) 0 - ?Z\<bar> \<le> 75 * u53 * M * ?Y"
  proof -
    have "\<bar>fsum (map (\<lambda>r. a r / x r) vs) 0 - ?Z\<bar> \<le> 3 * real (length vs) * (\<Sum>r\<leftarrow>vs. M * (1 / x r)) * u53"
      by (rule fsum_error_zero [OF _ len(1)]) (use m in blast)
    also have "\<dots> \<le> 3 * 25 * (M * ?Y) * u53" unfolding MW using len(2) W M0 by (intro mult_right_mono) simp_all
    finally show ?thesis by simp
  qed
  have Z: "\<bar>?Z\<bar> \<le> M * ?Y"
  proof -
    have "\<bar>?Z\<bar> \<le> (\<Sum>r\<leftarrow>vs. \<bar>a r / x r\<bar>)" using sum_list_abs [of "map (\<lambda>r. a r / x r) vs"] by (simp add: o_def)
    also have "\<dots> \<le> (\<Sum>r\<leftarrow>vs. M * (1 / x r))" using m by (intro sum_list_mono) blast
    finally show ?thesis by (simp only: MW)
  qed
  have "75 * u53 * ?Y \<le> 1 / 2 * ?Y" using W by (intro mult_right_mono) simp_all
  then show "0 < fsum (map (\<lambda>r. 1 / x r) vs) 0" using y W by linarith
  have tM: "tiny \<le> M" using tiny_le [of 100] M by simp
  have "\<bar>rnd (fsum (map (\<lambda>r. a r / x r) vs) 0 / fsum (map (\<lambda>r. 1 / x r) vs) 0) - ?Z / ?Y\<bar>
      \<le> 4 * (75 * u53) * M + 3 * M * u53"
    by (rule quotient_error [OF z y Z W _ _ tM]) simp_all
  also have "\<dots> = 303 * u53 * M" by simp
  also have "\<dots> \<le> 1 / 2 ^ 44 * M" using M0 by (intro mult_right_mono) simp_all
  finally show "\<bar>rnd (fsum (map (\<lambda>r. a r / x r) vs) 0 / fsum (map (\<lambda>r. 1 / x r) vs) 0) - ?Z / ?Y\<bar> \<le> M / 2 ^ 44"
    by simp
  show "\<bar>?Z / ?Y\<bar> \<le> M" using Z W by (simp add: abs_divide pos_divide_le_eq)
qed

text \<open>The weights are the reciprocals of the error bounds: what is averaged with them is off by at
  most the harmonic mean of the bounds.\<close>

lemma harmonic_mean_bound:
  assumes "vs \<noteq> []" and x: "\<forall>r \<in> set vs. 0 < x r" and a: "\<forall>r \<in> set vs. \<bar>a r - T\<bar> \<le> (x r :: real)"
  shows "\<bar>(\<Sum>r\<leftarrow>vs. a r / x r) / (\<Sum>r\<leftarrow>vs. 1 / x r) - T\<bar> \<le> real (length vs) / (\<Sum>r\<leftarrow>vs. 1 / x r)"
proof -
  let ?Y = "\<Sum>r\<leftarrow>vs. 1 / x r" and ?Z = "\<Sum>r\<leftarrow>vs. a r / x r"
  have "?Z - T * ?Y = (\<Sum>r\<leftarrow>vs. (a r - T) / x r)"
    by (induction vs) (simp_all add: diff_divide_distrib algebra_simps)
  moreover have "\<bar>\<Sum>r\<leftarrow>vs. (a r - T) / x r\<bar> \<le> real (length vs)" using x a
  proof (induction vs)
    case (Cons r vs)
    then have "\<bar>(a r - T) / x r\<bar> \<le> 1" by (simp add: abs_divide)
    moreover have "\<bar>\<Sum>r\<leftarrow>vs. (a r - T) / x r\<bar> \<le> real (length vs)" using Cons by simp
    ultimately have "\<bar>(a r - T) / x r + (\<Sum>r\<leftarrow>vs. (a r - T) / x r)\<bar> \<le> 1 + real (length vs)" by linarith
    then show ?case by simp
  qed simp
  ultimately have "\<bar>?Z - T * ?Y\<bar> \<le> real (length vs)" by simp
  moreover have Y: "0 < ?Y"
  proof -
    obtain r rs where "vs = r # rs" using assms(1) by (cases vs) auto
    moreover have "0 \<le> (\<Sum>r\<leftarrow>rs. 1 / x r)" using x calculation
      by (intro sum_list_nonneg) (auto intro: less_imp_le)
    ultimately show ?thesis using x by (simp add: add_pos_nonneg)
  qed
  moreover have "?Z / ?Y - T = (?Z - T * ?Y) / ?Y" using Y by (simp add: diff_divide_distrib)
  ultimately show ?thesis by (simp add: abs_divide divide_right_mono)
qed

text \<open>C9: clock_combine() computes the weighted average. When the survivor list holds, before its
  first null pointer, between one and 25 live associations with root distances from 2^-60 to 2^60 s
  and offsets of at most M s (M at most 2^31), clock_combine() returns, and the system offset is the
  average of their offsets, weighted with the reciprocals of the root distances, up to M / 2^44,
  whatever the roundings of its three sums. So when every survivor is a truechimer, its offset within
  its root distance of the true offset T, the system offset is within the harmonic mean of the root
  distances of T, up to M / 2^44. Nothing but the system offset and jitter changes. The
  average is over every entry of the list: the number s.n of survivors has no influence on it.\<close>

theorem combine_weighted_average:
  assumes "s_v (w_s w) = vs @ r0 # rest" and "v_p r0 = NULL" and "vs \<noteq> []" and "length vs \<le> 25"
    and "\<forall>r \<in> set vs. survivor w M r" and "1 / 2 ^ 100 \<le> M" and "M \<le> 2 ^ 31"
  shows "\<exists>a j. clock_combine e w = Inr (upd_s (\<lambda>s. s\<lparr>s_offset := Fin a, s_jitter := j\<rparr>) w) \<and>
    \<bar>a - (\<Sum>r\<leftarrow>vs. ofs w r / dist w r) / (\<Sum>r\<leftarrow>vs. 1 / dist w r)\<bar> \<le> M / 2 ^ 44 \<and>
    (\<forall>T. (\<forall>r \<in> set vs. \<bar>ofs w r - T\<bar> \<le> dist w r) \<longrightarrow>
      \<bar>a - T\<bar> \<le> real (length vs) / (\<Sum>r\<leftarrow>vs. 1 / dist w r) + M / 2 ^ 44)"
proof -
  obtain v1 l where v1: "vs = v1 # l" using assms(3) by (cases vs) auto
  have sv: "\<forall>r \<in> set vs. survivor w (2 ^ 31) r" using assms(5,7) by (auto simp: survivor_def)
  then have s1: "survivor w (2 ^ 31) v1" by (simp add: v1)
  let ?y = "fsum (map (\<lambda>r. 1 / dist w r) vs) 0" and ?z = "fsum (map (\<lambda>r. ofs w r / dist w r) vs) 0"
    and ?v = "fsum (map (\<lambda>r. sqd (ofs w r) (ofs w v1) / dist w r) vs) 0"
  have "combine_loop e w (vs @ r0 # rest) (Fin 0) (Fin 0) (Fin 0) = Inr (Fin ?y, Fin ?z, Fin ?v)"
    by (rule combine_loop_sums [OF sv assms(2) _ s1, of _ 0 0]) (use assms(1,4) v1 in simp_all)
  then have loop: "combine_loop e w (s_v (w_s w)) (Fin 0) (Fin 0) (Fin 0) = Inr (Fin ?y, Fin ?z, Fin ?v)"
    by (simp only: assms(1))
  have x: "\<forall>r \<in> set vs. 1 / 2 ^ 60 \<le> dist w r \<and> dist w r \<le> 2 ^ 60" using sv by (simp add: survivor_def)
  have o: "\<forall>r \<in> set vs. \<bar>ofs w r\<bar> \<le> M" using assms(5) by (simp add: survivor_def)
  have q: "\<forall>r \<in> set vs. \<bar>sqd (ofs w r) (ofs w v1)\<bar> \<le> 2 ^ 64"
    using sv s1 sqd(2) by (auto simp: survivor_def)
  have small: "(1 :: real) / 2 ^ 100 \<le> 2 ^ 64" by simp
  note z = weighted_average [OF assms(3,4) x o assms(6)] and v = weighted_average [OF assms(3,4) x q small]
  have vb: "\<bar>rnd (?v / ?y)\<bar> \<le> 2 ^ 65" by (rule order_trans [OF abs_near [OF v(2,3)]]) simp
  then have "\<bar>rnd (?v / ?y)\<bar> \<le> 2 ^ 100" by (rule order_trans) simp
  then have vq: "Fin ?v / Fin ?y = Fin (rnd (?v / ?y))" using z(1) flt_rnd [of "?v / ?y"] by simp
  have wv: "wfd (Fin ?v / Fin ?y)" by (rule wfd_divide)
  have "bd 65 (Fin ?v / Fin ?y)" using vb vq by simp
  from sqrt_returns [OF this wv] obtain j where j: "c_sqrt (Fin ?v / Fin ?y) = Inr j" by auto
  have "\<bar>rnd (?z / ?y)\<bar> \<le> 2 ^ 100"
    by (rule order_trans [OF abs_near [OF z(2,3)]]) (use assms(6,7) in simp)
  then have "Fin ?z / Fin ?y = Fin (rnd (?z / ?y))" using z(1) flt_rnd [of "?z / ?y"] by simp
  then have "clock_combine e w = Inr (upd_s (\<lambda>s. s\<lparr>s_offset := Fin (rnd (?z / ?y)), s_jitter := j\<rparr>) w)"
    using loop j by (simp add: clock_combine_def del: dbl_fin_ops)
  moreover have "\<bar>rnd (?z / ?y) - T\<bar> \<le> real (length vs) / (\<Sum>r\<leftarrow>vs. 1 / dist w r) + M / 2 ^ 44"
    if T: "\<forall>r \<in> set vs. \<bar>ofs w r - T\<bar> \<le> dist w r" for T
  proof -
    have "\<forall>r \<in> set vs. 0 < dist w r" using x by (auto intro: less_le_trans [rotated])
    from harmonic_mean_bound [OF assms(3) this T] show ?thesis using z(2) by linarith
  qed
  ultimately show ?thesis using z(2) by blast
qed

section \<open>Witness\<close>

text \<open>Two survivors half a second away, with the offsets 2 and 3, and the true offset 5 / 2.\<close>

definition two_survivors :: world where
  "two_survivors = boot_world\<lparr>
     w_heap := [0 \<mapsto> zero_p\<lparr>p_rootdelay := Fin 1, p_offset := Fin 2\<rparr>,
                1 \<mapsto> zero_p\<lparr>p_rootdelay := Fin 1, p_offset := Fin 3\<rparr>],
     w_s := zero_s\<lparr>s_v := [\<lparr>v_p = Addr 0, v_metric = 0\<rparr>, \<lparr>v_p = Addr 1, v_metric = 0\<rparr>, \<lparr>v_p = NULL, v_metric = 0\<rparr>]\<rparr>\<rparr>"

lemma MINDISP_less_1: "MINDISP < Fin 1"
proof -
  have "flt (1 / 64) = Fin (1 / 64)" using flt_dyadic [of 1 "- 6"] by (simp add: power_int_def power_divide)
  moreover have "flt (1 / 100) \<le> flt (1 / 64)" by (rule flt_mono) simp
  ultimately have "MINDISP \<le> Fin (1 / 64)" by (simp add: MINDISP_def)
  then show ?thesis by (rule dbl_le_less_trans) simp
qed

lemma two_survivors_dist:
  assumes "a < 2"
  shows "root_dist two_survivors (peer two_survivors (Addr a)) = Fin (1 / 2)" and "valid two_survivors (Addr a)"
    and "p_offset (peer two_survivors (Addr a)) = Fin (if a = 0 then 2 else 3)"
proof -
  have half: "flt (1 / 2) = Fin (1 / 2)" using flt_dyadic [of 1 "- 1"] by (simp add: power_int_def power_divide)
  have "a = 0 \<or> a = 1" using assms by linarith
  moreover have "repr (1 / 2)" using half by (auto simp: repr_def flt_def Let_def split: if_splits)
  ultimately show "root_dist two_survivors (peer two_survivors (Addr a)) = Fin (1 / 2)"
    and "valid two_survivors (Addr a)" and "p_offset (peer two_survivors (Addr a)) = Fin (if a = 0 then 2 else 3)"
    using half MINDISP_less_1 PHI_elapsed_zero
    by (auto simp: root_dist_def two_survivors_def peer_def zero_p_def boot_world_def zero_c_def cmax_def
        subtract_uint64_t_eq repr_def)
qed

theorem combine_weighted_average_witness:
  "\<exists>a j. clock_combine demo_env two_survivors = Inr (upd_s (\<lambda>s. s\<lparr>s_offset := Fin a, s_jitter := j\<rparr>) two_survivors) \<and>
     \<bar>a - 5 / 2\<bar> \<le> 4 / 2 ^ 44 \<and> \<bar>a - 5 / 2\<bar> \<le> 1 / 2 + 4 / 2 ^ 44"
proof -
  let ?vs = "[\<lparr>v_p = Addr 0, v_metric = 0\<rparr>, \<lparr>v_p = Addr 1, v_metric = 0\<rparr>]" and ?r0 = "\<lparr>v_p = NULL, v_metric = 0\<rparr>"
  note d = two_survivors_dist [of 0, simplified] two_survivors_dist [of 1, simplified]
  have l: "s_v (w_s two_survivors) = ?vs @ ?r0 # []" by (simp add: two_survivors_def)
  have s: "\<forall>r \<in> set ?vs. survivor two_survivors 4 r" using d by (simp add: survivor_def)
  have T: "\<forall>r \<in> set ?vs. \<bar>ofs two_survivors r - 5 / 2\<bar> \<le> dist two_survivors r" using d by simp
  have "v_p ?r0 = NULL" "?vs \<noteq> []" "length ?vs \<le> 25" "(1 :: real) / 2 ^ 100 \<le> 4" "(4 :: real) \<le> 2 ^ 31" by simp_all
  note r = combine_weighted_average [OF l this(1-3) s this(4,5), of demo_env]
  show ?thesis
  proof (rule ex_forward [OF r], rule ex_forward, assumption)
    fix a j
    assume "clock_combine demo_env two_survivors = Inr (upd_s (\<lambda>s. s\<lparr>s_offset := Fin a, s_jitter := j\<rparr>) two_survivors) \<and>
      \<bar>a - (\<Sum>r\<leftarrow>?vs. ofs two_survivors r / dist two_survivors r) / (\<Sum>r\<leftarrow>?vs. 1 / dist two_survivors r)\<bar> \<le> 4 / 2 ^ 44 \<and>
      (\<forall>T. (\<forall>r \<in> set ?vs. \<bar>ofs two_survivors r - T\<bar> \<le> dist two_survivors r) \<longrightarrow>
        \<bar>a - T\<bar> \<le> real (length ?vs) / (\<Sum>r\<leftarrow>?vs. 1 / dist two_survivors r) + 4 / 2 ^ 44)"
    note a = this [THEN conjunct1] this [THEN conjunct2, THEN conjunct1]
      mp [OF spec [OF this [THEN conjunct2, THEN conjunct2]] T]
    show "clock_combine demo_env two_survivors = Inr (upd_s (\<lambda>s. s\<lparr>s_offset := Fin a, s_jitter := j\<rparr>) two_survivors) \<and>
      \<bar>a - 5 / 2\<bar> \<le> 4 / 2 ^ 44 \<and> \<bar>a - 5 / 2\<bar> \<le> 1 / 2 + 4 / 2 ^ 44"
      using a(1) a(2,3) [simplified, unfolded d, simplified] by simp
  qed
qed

end
