(* ===== verification/Phase.thy ===== *)
theory Phase
  imports Poll Rounding_Error
begin

text \<open>
  The phase correction of clock_adjust(): every second a fixed fraction of the remaining clock
  offset is amortised. The remaining offset never changes sign, never grows, and decays
  geometrically, whatever the rounding of its two operations.
\<close>

section \<open>One second\<close>

text \<open>The gain factor at the system poll exponent.\<close>

definition pll_gain :: "u8 \<Rightarrow> real" where
  "pll_gain p = 65536 * min (2 ^ unat p) 1500"

definition pll_step :: "real \<Rightarrow> real \<Rightarrow> real" where
  "pll_step K x = rnd (x - rnd (x / K))"

lemma pll_step_minus: "pll_step K (- x) = - pll_step K x"
proof -
  have "- x - rnd (- x / K) = - (x - rnd (x / K))" using rnd_minus [of "x / K"] by simp
  then show ?thesis unfolding pll_step_def by (simp only: rnd_minus)
qed

lemma pll_step_shrinks:
  assumes "0 \<le> x" and "repr x" and "1 \<le> K"
  shows "0 \<le> pll_step K x" and "pll_step K x \<le> x" and "0 \<le> rnd (x / K)" and "rnd (x / K) \<le> x"
proof -
  have "x / K \<le> x" using assms(1,3) by (simp add: divide_le_eq mult_le_cancel_left1)
  then show a: "rnd (x / K) \<le> x" using rnd_mono [of "x / K" x] assms(2) by (simp add: repr_def)
  show b: "0 \<le> rnd (x / K)" using assms(1,3) by (simp add: rnd_nonneg)
  show "0 \<le> pll_step K x" unfolding pll_step_def using a by (simp add: rnd_nonneg)
  show "pll_step K x \<le> x" unfolding pll_step_def
    using rnd_mono [of "x - rnd (x / K)" x] b assms(2) by (simp add: repr_def)
qed

lemma pll_step_bounds:
  assumes x: "1 / 2 ^ 900 \<le> x" and r: "repr x" and K: "1 \<le> K" "K \<le> 2 ^ 27"
  shows "x * (1 - 2 / K) \<le> pll_step K x" and "pll_step K x \<le> x * (1 - 1 / (2 * K))"
proof -
  have x0: "0 < x" using x by (rule less_le_trans [rotated]) simp
  note s = pll_step_shrinks [OF less_imp_le [OF x0] r K(1)]
  have "1 / 2 ^ 900 / 2 ^ 27 \<le> x / K" using x K x0 by (intro frac_le) simp_all
  then have "1 / 2 ^ 927 \<le> x / K" by (rule order_trans [rotated]) simp
  then have t: "tiny \<le> x / K" by (rule order_trans [OF tiny_le, rotated]) simp
  have e1: "\<bar>rnd (x / K) - x / K\<bar> \<le> x / K * u53" by (rule rnd_error_below [OF _ t]) (use x0 K in simp)
  have "tiny \<le> x" using x by (rule order_trans [OF tiny_le, rotated]) simp
  then have e2: "\<bar>pll_step K x - (x - rnd (x / K))\<bar> \<le> x * u53"
    unfolding pll_step_def by (intro rnd_error_below) (use s(3,4) in simp_all)
  have m: "x * u53 \<le> x / K / 2 ^ 26"
  proof -
    have "x * K \<le> x * 2 ^ 27" using K(2) x0 by (intro mult_left_mono) simp_all
    then show ?thesis using K(1) x0 by (simp add: field_simps)
  qed
  obtain q where q: "x / K = q" by simp
  have q0: "0 \<le> q" using x0 K by (simp flip: q)
  have a: "rnd q - q \<le> q * u53" "q - rnd q \<le> q * u53" using e1 unfolding q by linarith+
  have c: "pll_step K x - (x - rnd q) \<le> x * u53" "(x - rnd q) - pll_step K x \<le> x * u53"
    using e2 unfolding q by linarith+
  have d: "x * u53 \<le> q / 2 ^ 26" using m unfolding q .
  have "pll_step K x \<le> x - q / 2" "x - 2 * q \<le> pll_step K x" using a c d q0 by simp_all
  then show "pll_step K x \<le> x * (1 - 1 / (2 * K))" "x * (1 - 2 / K) \<le> pll_step K x"
    unfolding q [symmetric] by (simp_all add: algebra_simps)
qed

section \<open>n seconds\<close>

text \<open>The remaining offset never changes sign, never grows, and decays down to 2^-900.\<close>

lemma pll_steps:
  assumes "0 \<le> x" and "repr x" and "1 \<le> K" "K \<le> 2 ^ 27"
  shows "0 \<le> (pll_step K ^^ n) x \<and> repr ((pll_step K ^^ n) x) \<and>
    (pll_step K ^^ n) x \<le> x \<and> (pll_step K ^^ n) x \<le> max (x * (1 - 1 / (2 * K)) ^ n) (1 / 2 ^ 900)"
proof (induction n)
  case (Suc n)
  let ?y = "(pll_step K ^^ n) x" and ?g = "1 - 1 / (2 * K)"
  have y: "0 \<le> ?y" "repr ?y" and yx: "?y \<le> x" and le: "?y \<le> max (x * ?g ^ n) (1 / 2 ^ 900)" using Suc by blast+
  note s = pll_step_shrinks [OF y assms(3)]
  have g: "0 \<le> ?g" using assms(3) by simp
  have "pll_step K ?y \<le> max (x * ?g ^ Suc n) (1 / 2 ^ 900)"
  proof (cases "1 / 2 ^ 900 \<le> ?y \<and> ?y \<le> x * ?g ^ n")
    case True
    then have "pll_step K ?y \<le> ?y * ?g" using pll_step_bounds(2) [OF _ y(2) assms(3,4)] by blast
    also have "\<dots> \<le> x * ?g ^ n * ?g" using True g by (intro mult_right_mono) simp_all
    also have "\<dots> = x * ?g ^ Suc n" by simp
    finally show ?thesis by (rule max.coboundedI1)
  next
    case False
    then have "?y \<le> 1 / 2 ^ 900" using le by linarith
    then show ?thesis using s(2) by (meson max.coboundedI2 order_trans)
  qed
  moreover have "repr (pll_step K ?y)" by (simp add: pll_step_def)
  ultimately show ?case using s(1) order_trans [OF s(2) yx] by simp
qed (use assms in \<open>simp add: max.coboundedI1\<close>)

lemma pll_steps_lower:
  assumes "1 / 2 ^ 800 \<le> x" and "repr x" and "1 \<le> K" "K \<le> 2 ^ 27" and "4 * real n \<le> K"
  shows "x * (1 - 2 * real n / K) \<le> (pll_step K ^^ n) x"
  using assms(5)
proof (induction n)
  case (Suc n)
  let ?y = "(pll_step K ^^ n) x"
  have x0: "0 < x" using assms(1) by (rule less_le_trans [rotated]) simp
  have ih: "x * (1 - 2 * real n / K) \<le> ?y" using Suc by simp
  have "2 * real n / K \<le> 1 / 2" using Suc.prems assms(3) by (simp add: pos_divide_le_eq)
  then have "x * (1 / 2) \<le> x * (1 - 2 * real n / K)" using x0 by (intro mult_left_mono) simp_all
  moreover have "1 / 2 ^ 900 \<le> x * (1 / 2)" using order_trans [OF _ assms(1), of "1 / 2 ^ 899"] by simp
  ultimately have "1 / 2 ^ 900 \<le> ?y" using ih by linarith
  note b = pll_step_bounds(1) [OF this _ assms(3,4)]
  note p = pll_steps [OF less_imp_le [OF x0] assms(2-4), of n]
  have "x * (1 - 2 * real (Suc n) / K) = x * (1 - 2 * real n / K) - x * (2 / K)" by (simp add: algebra_simps add_divide_distrib)
  also have "\<dots> \<le> ?y - ?y * (2 / K)"
  proof -
    have "?y * (2 / K) \<le> x * (2 / K)" using p assms(3) by (intro mult_right_mono) simp_all
    then show ?thesis using ih by linarith
  qed
  also have "\<dots> \<le> pll_step K ?y" using b p by (simp add: algebra_simps)
  finally show ?case by simp
qed simp

lemma pll_steps_minus: "(pll_step K ^^ n) (- x) = - (pll_step K ^^ n) x"
  by (induction n) (simp_all add: pll_step_minus)

section \<open>clock_adjust()\<close>

lemma pll_gain_bounds: "1 \<le> pll_gain p" "pll_gain p \<le> 2 ^ 27"
proof -
  have "(1 :: real) \<le> 2 ^ unat p" by (rule one_le_power) simp
  then have "1 \<le> min (2 ^ unat p) (1500 :: real)" "min (2 ^ unat p) (1500 :: real) \<le> 1500" "(2 :: real) ^ 27 = 134217728" by simp_all
  then show "1 \<le> pll_gain p" "pll_gain p \<le> 2 ^ 27" unfolding pll_gain_def by linarith+
qed

lemma pll_gain_computed:
  assumes "uint p \<le> 17"
  shows "dbl_of_int PLL * cmin (LOG2D other (uint p)) (dbl_of_int ALLAN) = Fin (pll_gain p)"
proof -
  have l: "LOG2D other (uint p) = Fin (2 ^ unat p)"
    using LOG2D_nonneg_exp [of "uint p" other] assms by (simp flip: unat_eq_nat_uint)
  have m: "cmin (Fin (2 ^ unat p)) (Fin 1500) = Fin (min (2 ^ unat p) 1500)" by (simp add: cmin_def min_def)
  define k :: int where "k = 65536 * min (2 ^ unat p) 1500"
  have k: "0 \<le> k" "k < 2 ^ 53" unfolding k_def by (simp_all add: min_def)
  have "flt (of_int k) = Fin (of_int k)" by (rule flt_int) (use k in simp)
  moreover have "of_int k = pll_gain p" by (simp add: k_def pll_gain_def min_def flip: of_int_le_iff [where 'a = real])
  ultimately have "flt (65536 * min (2 ^ unat p) 1500) = Fin (pll_gain p)" by (simp add: pll_gain_def)
  then show ?thesis by (simp add: l m dbl_of_int_exact)
qed

lemma adjust_phase_offset:
  assumes x: "c_offset (w_c w) = Fin x" "repr x" "\<bar>x\<bar> \<le> 2 ^ 40" and p: "uint (s_poll (w_s w)) \<le> 17"
  shows "c_offset (w_c (adjust_phase e w)) = Fin (pll_step (pll_gain (s_poll (w_s w))) x)"
    and "s_poll (w_s (adjust_phase e w)) = s_poll (w_s w)"
proof -
  let ?K = "pll_gain (s_poll (w_s w))"
  note K = pll_gain_bounds [of "s_poll (w_s w)"]
  have flt: "flt y = Fin (rnd y)" if "\<bar>rnd y\<bar> \<le> 2 ^ 40" for y
    using that small_lt_ovf [of "rnd y"] by (auto simp: flt_def Let_def abs_less_iff)
  have q: "\<bar>rnd (x / ?K)\<bar> \<le> 2 ^ 40" and s: "\<bar>pll_step ?K x\<bar> \<le> 2 ^ 40"
  proof -
    have nn: "0 \<le> \<bar>x\<bar>" "repr \<bar>x\<bar>" using x(2) b64.R_abs [of x] by (simp_all add: repr_def)
    note b = pll_step_shrinks [OF nn K(1)]
    have "\<bar>rnd (x / ?K)\<bar> = rnd (\<bar>x\<bar> / ?K)" using b64.R_abs [of "x / ?K"] K(1) by (simp add: abs_divide)
    then show "\<bar>rnd (x / ?K)\<bar> \<le> 2 ^ 40" using b(3,4) x(3) by linarith
    have "\<bar>pll_step ?K x\<bar> = pll_step ?K \<bar>x\<bar>"
      using b(1) pll_step_minus [of ?K x] by (cases "0 \<le> x") simp_all
    then show "\<bar>pll_step ?K x\<bar> \<le> 2 ^ 40" using b(1,2) x(3) by linarith
  qed
  have "Fin x / Fin ?K = Fin (rnd (x / ?K))" using K(1) flt [OF q] by auto
  moreover have "Fin x - Fin (rnd (x / ?K)) = Fin (pll_step ?K x)"
    using flt [OF s [unfolded pll_step_def]] by (simp add: pll_step_def)
  ultimately show "c_offset (w_c (adjust_phase e w)) = Fin (pll_step ?K x)"
    using x(1) pll_gain_computed [OF p, of "e_shl e"] by (simp add: adjust_phase_def adjust_time_def Let_def del: dbl_fin_ops)
  show "s_poll (w_s (adjust_phase e w)) = s_poll (w_s w)" by (simp add: adjust_phase_def adjust_time_def Let_def)
qed

lemma adjust_phases_offset:
  assumes "c_offset (w_c w) = Fin x" "repr x" "\<bar>x\<bar> \<le> 2 ^ 40" and "uint (s_poll (w_s w)) \<le> 17"
  shows "c_offset (w_c ((adjust_phase e ^^ n) w)) = Fin ((pll_step (pll_gain (s_poll (w_s w))) ^^ n) x) \<and>
    s_poll (w_s ((adjust_phase e ^^ n) w)) = s_poll (w_s w)"
proof (induction n)
  case (Suc n)
  let ?K = "pll_gain (s_poll (w_s w))" and ?w = "(adjust_phase e ^^ n) w"
  have nn: "0 \<le> \<bar>x\<bar>" "repr \<bar>x\<bar>" using assms(2) b64.R_abs [of x] by (simp_all add: repr_def)
  note p = pll_steps [OF nn pll_gain_bounds, of n "s_poll (w_s w)"]
  have a: "\<bar>(pll_step ?K ^^ n) x\<bar> = (pll_step ?K ^^ n) \<bar>x\<bar>" and r: "repr ((pll_step ?K ^^ n) x)"
    using p pll_steps_minus [of n ?K x] by (cases "0 \<le> x"; simp add: repr_minus)+
  have "\<bar>(pll_step ?K ^^ n) x\<bar> \<le> 2 ^ 40" using a p assms(3) by linarith
  with adjust_phase_offset [of ?w "(pll_step ?K ^^ n) x" e] Suc r assms(4) show ?case by simp
qed (use assms in simp)

text \<open>C18: the phase correction converges. From a clock offset x of magnitude at most 2^40, with a
  system poll exponent of at most 17, n runs of the adjustment part of clock_adjust() (adjust_phase:
  the statements before the loop over the associations) leave an offset y of the same sign (or zero)
  that is at most x in magnitude and at most |x| (1 - 1 / 2K)^n, down to 2^-900, where K is the
  gain PLL * min(2^poll, ALLAN); so the correction never overshoots. It is also slow: as long as n
  is at most K / 4, y is still at least |x| (1 - 2n / K), with K over four million at the poll
  exponent 6.\<close>

theorem phase_correction_decays:
  assumes x: "c_offset (w_c w) = Fin x" "repr x" "\<bar>x\<bar> \<le> 2 ^ 40" and p: "uint (s_poll (w_s w)) \<le> 17"
    and K: "K = pll_gain (s_poll (w_s w))"
  shows "\<exists>y. c_offset (w_c ((adjust_phase e ^^ n) w)) = Fin y \<and> 0 \<le> x * y \<and> \<bar>y\<bar> \<le> \<bar>x\<bar> \<and>
    \<bar>y\<bar> \<le> max (\<bar>x\<bar> * (1 - 1 / (2 * K)) ^ n) (1 / 2 ^ 900) \<and>
    (1 / 2 ^ 800 \<le> \<bar>x\<bar> \<and> 4 * real n \<le> K \<longrightarrow> \<bar>x\<bar> * (1 - 2 * real n / K) \<le> \<bar>y\<bar>)"
proof -
  let ?y = "(pll_step K ^^ n) x"
  have nn: "0 \<le> \<bar>x\<bar>" "repr \<bar>x\<bar>" using x(2) b64.R_abs [of x] by (simp_all add: repr_def)
  have b: "1 \<le> K" "K \<le> 2 ^ 27" unfolding K by (rule pll_gain_bounds)+
  note s = pll_steps [OF nn b, of n] and l = pll_steps_lower [OF _ nn(2) b, of n]
  have a: "\<bar>?y\<bar> = (pll_step K ^^ n) \<bar>x\<bar>" and sgn: "0 \<le> x * ?y"
    using s pll_steps_minus [of n K x] by (cases "0 \<le> x"; simp add: zero_le_mult_iff)+
  have "c_offset (w_c ((adjust_phase e ^^ n) w)) = Fin ?y" using adjust_phases_offset [OF x p] K by blast
  then show ?thesis using s l a sgn by (intro exI [of _ ?y]) simp
qed

section \<open>Witness\<close>

theorem phase_correction_decays_witness:
  "\<exists>y. c_offset (w_c ((adjust_phase demo_env ^^ 86400)
      (boot_world\<lparr>w_c := zero_c\<lparr>c_offset := Fin 2\<rparr>, w_s := zero_s\<lparr>s_poll := 6\<rparr>\<rparr>))) = Fin y \<and> 1 \<le> y \<and> y \<le> 2"
proof -
  let ?w = "boot_world\<lparr>w_c := zero_c\<lparr>c_offset := Fin 2\<rparr>, w_s := zero_s\<lparr>s_poll := 6\<rparr>\<rparr>"
  have "repr 2" using repr_int [of 2] by simp
  moreover have "4194304 = pll_gain (s_poll (w_s ?w))" by (simp add: pll_gain_def)
  moreover have "(1 :: real) / 2 ^ 800 \<le> 2" using tiny_le [of 800] by (simp add: le_divide_eq divide_le_eq)
  ultimately show ?thesis
    using phase_correction_decays [where w = ?w and x = 2 and K = 4194304 and e = demo_env and n = 86400] by auto
qed

end
