(* ===== verification/Truechimers.thy ===== *)
theory Truechimers
  imports Select_Props
begin

text \<open>
  The selection when the servers agree: the correctness intervals of the fit associations have a
  common part that holds all their midpoints. Then every fit association is a survivor, and the
  system peer is the old one or the survivor with the greatest lower edge.
\<close>

section \<open>Agreement\<close>

definition truechimers :: "env \<Rightarrow> world \<Rightarrow> ptr set" where
  "truechimers e w = {p \<in> set (w_peers w). fit e w (peer w p)}"

text \<open>The midpoint of every fit association lies inside the interval of every other.\<close>

definition agreeing :: "env \<Rightarrow> world \<Rightarrow> bool" where
  "agreeing e w \<longleftrightarrow> (\<forall>p \<in> truechimers e w. \<forall>q \<in> truechimers e w.
     m_edge (lower_edge w p (peer w p)) < p_offset (peer w q) \<and>
     p_offset (peer w q) < m_edge (upper_edge w p (peer w p)))"

lemma truechimers_fit_peers:
  assumes "table_full w"
  shows "set (fit_peers e w NMAX) = truechimers e w"
  using assms by (auto simp: fit_peers_def truechimers_def table_full_def)

text \<open>An entry of the chime list is one of the three of a fit association.\<close>

lemma chime_cases:
  assumes "qsort_ok e" and "table_full w" and "poll_ok w" and "m \<in> set (chime_list e w)"
  obtains p where "p \<in> truechimers e w" and "m = lower_edge w p (peer w p)"
    | p where "p \<in> truechimers e w" and "m = mid_point p (peer w p)"
    | p where "p \<in> truechimers e w" and "m = upper_edge w p (peer w p)"
  using assms(4) unfolding chime_list_props(4) [OF assms(1-3)] truechimers_fit_peers [OF assms(2)]
  by (auto simp: chimes_def)

lemma chime_members:
  assumes "qsort_ok e" and "table_full w" and "poll_ok w" and "p \<in> truechimers e w"
  shows "lower_edge w p (peer w p) \<in> set (chime_list e w)" and "mid_point p (peer w p) \<in> set (chime_list e w)"
    and "upper_edge w p (peer w p) \<in> set (chime_list e w)"
  using assms(4) unfolding chime_list_props(4) [OF assms(1-3)] truechimers_fit_peers [OF assms(2)]
  by (auto simp: chimes_def)

lemma edge_types [simp]:
  "m_type (lower_edge w p q) = - 1" "m_type (mid_point p q) = 0" "m_type (upper_edge w p q) = 1"
  "m_p (lower_edge w p q) = p" "m_p (mid_point p q) = p" "m_p (upper_edge w p q) = p"
  "m_edge (mid_point p q) = p_offset q"
  by (simp_all add: lower_edge_def mid_point_def upper_edge_def)

text \<open>In the chime list of agreeing servers the lower edges come first, then the midpoints.\<close>

lemma edges_ordered:
  assumes q: "qsort_ok e" and t: "table_full w" and p: "poll_ok w" and agree: "agreeing e w"
    and m: "a \<in> set (chime_list e w)" "b \<in> set (chime_list e w)" and ty: "m_type a < m_type b"
    and mid: "m_type a = 0 \<or> m_type b = 0"
  shows "m_edge a < m_edge b"
  by (cases rule: chime_cases [OF q t p m(1)]; cases rule: chime_cases [OF q t p m(2)])
    (use ty mid agree in \<open>auto simp: agreeing_def\<close>)

text \<open>Three groups: the index k of the first midpoint separates the lower edges from the rest.\<close>

lemma chime_groups:
  assumes q: "qsort_ok e" and t: "table_full w" and p: "poll_ok w" and agree: "agreeing e w"
    and ne: "truechimers e w \<noteq> {}"
  obtains k where "0 < k" and "k < length (chime_list e w)" and "m_type (chime_list e w ! k) = 0"
    and "\<forall>i < length (chime_list e w). m_type (chime_list e w ! i) = - 1 \<longleftrightarrow> i < k"
proof -
  let ?C = "chime_list e w"
  obtain c where c: "c \<in> truechimers e w" using ne by blast
  note mem = chime_members [OF q t p c]
  obtain b where b: "b < length ?C" "?C ! b = mid_point c (peer w c)" using mem(2) by (auto simp: in_set_conv_nth)
  define k where "k = (LEAST k. k < length ?C \<and> m_type (?C ! k) = 0)"
  have k: "k < length ?C \<and> m_type (?C ! k) = 0" unfolding k_def by (rule LeastI [of _ b]) (simp add: b)
  have before: "m_type (?C ! i) \<noteq> 0" if "i < k" for i
    using not_less_Least [OF that [unfolded k_def]] that k by auto
  have less: "\<not> m_edge (?C ! j) < m_edge (?C ! i)" if "i < j" "j < length ?C" for i j
    using sorted_wrt_nth_less [OF chime_list_props(2) [OF q t p] that] dbl_le_less_trans dbl_less_irrefl by blast
  have ordered: "m_edge (?C ! i) < m_edge (?C ! j)"
    if "i < length ?C" "j < length ?C" "m_type (?C ! i) < m_type (?C ! j)" "m_type (?C ! i) = 0 \<or> m_type (?C ! j) = 0" for i j
    using that by (intro edges_ordered [OF q t p agree]) simp_all
  have types: "m_type (?C ! i) \<in> {- 1, 0, 1}" if "i < length ?C" for i
    using chime_list_props(5) [OF q t p] that by (simp add: chime_types_def)
  have iff: "m_type (?C ! i) = - 1 \<longleftrightarrow> i < k" if i: "i < length ?C" for i
  proof
    assume ty: "m_type (?C ! i) = - 1"
    then have "m_edge (?C ! i) < m_edge (?C ! k)" using k i by (intro ordered) simp_all
    then have "\<not> k < i" using less [of k i] i by blast
    moreover have "i \<noteq> k" using ty k by auto
    ultimately show "i < k" by simp
  next
    assume lt: "i < k"
    have "m_type (?C ! i) \<noteq> 1"
    proof
      assume "m_type (?C ! i) = 1"
      then have "m_edge (?C ! k) < m_edge (?C ! i)" using k i by (intro ordered) simp_all
      then show False using less [OF lt] k by blast
    qed
    then show "m_type (?C ! i) = - 1" using types [OF i] before [OF lt] by auto
  qed
  obtain a where a: "a < length ?C" "?C ! a = lower_edge w c (peer w c)" using mem(1) by (auto simp: in_set_conv_nth)
  then have "a < k" using iff [OF a(1)] by simp
  then show thesis using that [of k] k iff by auto
qed

section \<open>The survivors\<close>

text \<open>The interval is the common part, and it holds every midpoint.\<close>

lemma common_interval:
  assumes q: "qsort_ok e" and t: "table_full w" and p: "poll_ok w" and agree: "agreeing e w"
    and ne: "truechimers e w \<noteq> {}" and v: "s_m (w_s v) = chime_list e w @ rest"
    and run: "intersection e (int (length (chime_list e w))) v = Inr (low, high)"
  shows "\<And>c. c \<in> truechimers e w \<Longrightarrow> m_edge (lower_edge w c (peer w c)) \<le> low"
    and "\<exists>c \<in> truechimers e w. low = m_edge (lower_edge w c (peer w c))"
    and "\<And>c. c \<in> truechimers e w \<Longrightarrow> high \<le> m_edge (upper_edge w c (peer w c))"
    and "\<exists>c \<in> truechimers e w. high = m_edge (upper_edge w c (peer w c))"
proof -
  let ?C = "chime_list e w" and ?n = "length (chime_list e w)"
  obtain k where k: "0 < k" "k < ?n" "m_type (?C ! k) = 0" "\<forall>i < ?n. m_type (?C ! i) = - 1 \<longleftrightarrow> i < k"
    using chime_groups [OF q t p agree ne] .
  obtain c where c: "c \<in> truechimers e w" using ne by blast
  obtain j where j: "j < ?n" "?C ! j = upper_edge w c (peer w c)"
    using chime_members(3) [OF q t p c] by (auto simp: in_set_conv_nth)
  have nth: "s_m (w_s v) ! i = ?C ! i" if "i < ?n" for i using that by (simp add: v nth_append)
  have types: "\<forall>i < ?n. m_type (?C ! i) \<in> {- 1, 0, 1}"
    using chime_list_props(5) [OF q t p] by (simp add: chime_types_def)
  have len: "?n < 1000000" using length_chime_list [OF q t p] by simp
  have "\<exists>l h. intersection e (int ?n) v = Inr (l, h) \<and>
    (\<forall>i < ?n. m_type (s_m (w_s v) ! i) = - 1 \<longrightarrow> m_edge (s_m (w_s v) ! i) \<le> l) \<and>
    (\<exists>i < ?n. m_type (s_m (w_s v) ! i) = - 1 \<and> m_edge (s_m (w_s v) ! i) = l) \<and>
    (\<forall>i < ?n. m_type (s_m (w_s v) ! i) = 1 \<longrightarrow> h \<le> m_edge (s_m (w_s v) ! i)) \<and>
    (\<exists>i < ?n. m_type (s_m (w_s v) ! i) = 1 \<and> m_edge (s_m (w_s v) ! i) = h)"
  proof (rule intersection_common_part [of ?n v k j])
    show "\<forall>i < ?n. m_type (s_m (w_s v) ! i) \<in> {- 1, 0, 1}" using types nth by simp
    show "\<forall>i < ?n. m_type (s_m (w_s v) ! i) = - 1 \<longleftrightarrow> i < k" using k(4) nth by simp
  qed (use k j len nth chime_list_props(2) [OF q t p] in \<open>simp_all add: v\<close>)
  then have lo: "\<forall>i < ?n. m_type (?C ! i) = - 1 \<longrightarrow> m_edge (?C ! i) \<le> low"
      "\<exists>i < ?n. m_type (?C ! i) = - 1 \<and> m_edge (?C ! i) = low"
    and hi: "\<forall>i < ?n. m_type (?C ! i) = 1 \<longrightarrow> high \<le> m_edge (?C ! i)"
      "\<exists>i < ?n. m_type (?C ! i) = 1 \<and> m_edge (?C ! i) = high"
    using run nth by auto
  show "m_edge (lower_edge w c (peer w c)) \<le> low" if c: "c \<in> truechimers e w" for c
    using chime_members(1) [OF q t p c] lo(1) by (metis edge_types(1) in_set_conv_nth)
  show "high \<le> m_edge (upper_edge w c (peer w c))" if c: "c \<in> truechimers e w" for c
    using chime_members(3) [OF q t p c] hi(1) by (metis edge_types(3) in_set_conv_nth)
  from lo(2) obtain i where i: "i < ?n" "m_type (?C ! i) = - 1" "m_edge (?C ! i) = low" by blast
  have "?C ! i \<in> set ?C" using i(1) by simp
  from this i(2,3) show "\<exists>c \<in> truechimers e w. low = m_edge (lower_edge w c (peer w c))"
    by (cases rule: chime_cases [OF q t p]) auto
  from hi(2) obtain i where i: "i < ?n" "m_type (?C ! i) = 1" "m_edge (?C ! i) = high" by blast
  have "?C ! i \<in> set ?C" using i(1) by simp
  from this i(2,3) show "\<exists>c \<in> truechimers e w. high = m_edge (upper_edge w c (peer w c))"
    by (cases rule: chime_cases [OF q t p]) auto
qed

text \<open>The survivors are the entries of all fit associations; the first is the greatest lower edge.\<close>

lemma survivors_of_agreeing:
  assumes q: "qsort_ok e" and t: "table_full w" and p: "poll_ok w" and agree: "agreeing e w"
    and ne: "truechimers e w \<noteq> {}" and v: "s_m (w_s v) = chime_list e w @ rest"
    and run: "intersection e (int (length (chime_list e w))) v = Inr (low, high)"
  defines "S \<equiv> filter (in_interval low high) (chime_list e w)"
  shows "m_p ` set S = truechimers e w" and "S \<noteq> []" and "m_p (S ! 0) \<in> truechimers e w"
    and "c \<in> truechimers e w \<Longrightarrow>
      m_edge (lower_edge w c (peer w c)) \<le> m_edge (lower_edge w (m_p (S ! 0)) (peer w (m_p (S ! 0))))"
proof -
  let ?C = "chime_list e w"
  note I = common_interval [OF q t p agree ne v run]
  have mid: "mid_point c (peer w c) \<in> set S" if c: "c \<in> truechimers e w" for c
  proof -
    have "low < p_offset (peer w c)" "p_offset (peer w c) < high"
      using I(2,4) agree c by (auto simp: agreeing_def)
    then have "in_interval low high (mid_point c (peer w c))"
      using dbl_less_not_sym by (auto simp: in_interval_def)
    then show ?thesis using chime_members(2) [OF q t p c] by (simp add: S_def)
  qed
  have sub: "m_p m \<in> truechimers e w" if "m \<in> set ?C" for m
    using that by (cases rule: chime_cases [OF q t p]) auto
  show "m_p ` set S = truechimers e w"
  proof
    show "m_p ` set S \<subseteq> truechimers e w" using sub by (auto simp: S_def)
    show "truechimers e w \<subseteq> m_p ` set S" using mid by (force simp: image_iff)
  qed
  show "S \<noteq> []" using ne mid by fastforce
  obtain k where k: "0 < k" "k < length ?C" "\<forall>i < length ?C. m_type (?C ! i) = - 1 \<longleftrightarrow> i < k"
    using chime_groups [OF q t p agree ne] by metis
  have split: "S = filter (in_interval low high) (take k ?C) @ filter (in_interval low high) (drop k ?C)"
    unfolding S_def by (metis append_take_drop_id filter_append)
  obtain a where a: "a \<in> truechimers e w" "low = m_edge (lower_edge w a (peer w a))" using I(2) by blast
  obtain i where i: "i < length ?C" "?C ! i = lower_edge w a (peer w a)"
    using chime_members(1) [OF q t p a(1)] by (auto simp: in_set_conv_nth)
  then have "i < k" using k(3) by (metis edge_types(1))
  then have tk: "lower_edge w a (peer w a) \<in> set (take k ?C)" using i k(2) by (auto simp: in_set_conv_nth)
  have "low < p_offset (peer w a)" "p_offset (peer w a) < high" using agree a I(4) by (auto simp: agreeing_def)
  then have "\<not> high < low" by (meson dbl_less_not_sym dbl_less_imp_le dbl_less_le_trans)
  then have "in_interval low high (lower_edge w a (peer w a))" by (simp add: in_interval_def flip: a(2))
  then have ne': "filter (in_interval low high) (take k ?C) \<noteq> []" using tk by (auto simp: filter_empty_conv)
  then have S0: "S ! 0 \<in> set (filter (in_interval low high) (take k ?C))"
    unfolding split nth_append by (metis length_greater_0_conv nth_mem)
  then have in_C: "S ! 0 \<in> set ?C" and inside: "\<not> m_edge (S ! 0) < low"
    by (auto simp: in_interval_def dest: in_set_takeD)
  show first: "m_p (S ! 0) \<in> truechimers e w" using sub [OF in_C] .
  have "S ! 0 \<in> set (take k ?C)" using S0 by simp
  then obtain j where "j < k" "j < length ?C" "?C ! j = S ! 0" using k(2) by (auto simp: in_set_conv_nth)
  then have "m_type (S ! 0) = - 1" using k(3) by metis
  with in_C have low0: "S ! 0 = lower_edge w (m_p (S ! 0)) (peer w (m_p (S ! 0)))"
    by (cases rule: chime_cases [OF q t p]) auto
  assume c: "c \<in> truechimers e w"
  have "m_edge (S ! 0) \<le> low" using I(1) [OF first] low0 by simp
  then have "low \<le> m_edge (S ! 0)" using inside by (subst dbl_not_less [symmetric]) auto
  then show "m_edge (lower_edge w c (peer w c)) \<le> m_edge (lower_edge w (m_p (S ! 0)) (peer w (m_p (S ! 0))))"
    using I(1) [OF c] low0 dbl_le_trans by metis
qed

section \<open>The choice\<close>

lemma cluster_frame:
  assumes "cluster e n v = Inr y" and "s_n (w_s v) \<le> 15"
  shows "\<exists>j. y = upd_s (\<lambda>s. s\<lparr>s_n := j\<rparr>) v"
proof -
  have "nat (s_n (w_s v)) \<le> 15" using assms(2) by simp
  from cluster_loop_ends [OF _ this, of e n] show ?thesis using assms(1) by (auto simp: cluster_def)
qed

text \<open>The peer the tail of clock_select() leaves in s.p.\<close>

lemma tail_choice:
  assumes run: "bind_r (cluster e n v) (\<lambda>w. bind_r (pick_peer e osys w) (\<lambda>w. clock_update e (s_p (w_s w)) w)) = Inr w'"
    and ok: "sys_ok v" and os: "ptr_ok v osys" and n: "s_n (w_s v) \<le> 15" and s0: "s_v (w_s v) ! 0 = r" and r: "valid v (v_p r)"
    and o_p: "load e v osys = Inr q"
  shows "s_p (w_s w') = (if p_stratum q = p_stratum (peer v (v_p r)) then osys else v_p r)"
proof -
  obtain y z where y: "cluster e n v = Inr y" and z: "pick_peer e osys y = Inr z"
    and up: "clock_update e (s_p (w_s z)) z = Inr w'"
    using run by (auto elim!: bind_r_E)
  obtain j where j: "y = upd_s (\<lambda>s. s\<lparr>s_n := j\<rparr>) v" using cluster_frame [OF y n] by blast
  have oky: "sys_ok y" "ptr_ok y osys" using ok os by (simp_all add: j)
  have len: "0 < length (s_v (w_s y))" using oky by (simp add: sys_ok_def)
  have ly: "load e y osys = Inr q" using o_p by (cases osys) (simp_all add: j)
  have vy: "valid y (v_p r)" "peer y (v_p r) = peer v (v_p r)" "s_v (w_s y) ! 0 = r" using r s0 by (simp_all add: j)
  have eq: "z = upd_s (\<lambda>s. s\<lparr>s_p := (if p_stratum q = p_stratum (peer v (v_p r)) then osys else v_p r)\<rparr>) y"
    using z len by (simp add: pick_peer_def ly vy)
  obtain p where p: "z = upd_s (\<lambda>s. s\<lparr>s_p := p\<rparr>) y" "ptr_ok y p" using pick_peer_run [OF z oky] by blast
  have "sys_ok z" "ptr_ok z (s_p (w_s z))" using p sys_ok_p [OF oky(1)] by simp_all
  from clock_update_run [OF up this] show ?thesis by (simp add: eq)
qed

section \<open>Property\<close>

text \<open>C8: agreeing servers are selected. On a full table of sane associations and a sound system
  structure, let at least one association be fit and every fit midpoint lie strictly inside every
  fit interval. Then the interval found is the common part of the intervals: its lower end is the
  greatest lower edge and its upper end the least upper edge of the fit associations, each attained
  by one of them. The survivors are entries of exactly the fit associations, all of them, and the
  first survivor is an association whose lower edge is greatest: the survivors come in the order
  of their edges, and the metric they carry is not used. When clock_select() returns, the system
  peer is the old one if it has the stratum of the first survivor (the stratum read at address 0 if
  there was none), and the first survivor if not.\<close>

theorem agreeing_servers_selected:
  assumes "qsort_ok e" and "table_full w" and "sys_ok w" and "agreeing e w" and "truechimers e w \<noteq> {}"
    and "load e w (s_p (w_s w)) = Inr o_p"
  shows "\<exists>n v low high u p0.
    cull e (upd_s (\<lambda>s. s\<lparr>s_p := NULL\<rparr>) w) = Inr (n, v) \<and> intersection e (int n) v = Inr (low, high) \<and>
    survivors e n low high v = Inr u \<and>
    (\<forall>c \<in> truechimers e w. m_edge (lower_edge w c (peer w c)) \<le> low \<and> high \<le> m_edge (upper_edge w c (peer w c))) \<and>
    (\<exists>c \<in> truechimers e w. low = m_edge (lower_edge w c (peer w c))) \<and>
    (\<exists>c \<in> truechimers e w. high = m_edge (upper_edge w c (peer w c))) \<and>
    v_p ` set (take (nat (s_n (w_s u))) (s_v (w_s u))) = truechimers e w \<and>
    p0 \<in> truechimers e w \<and> p0 = v_p (s_v (w_s u) ! 0) \<and>
    (\<forall>c \<in> truechimers e w. m_edge (lower_edge w c (peer w c)) \<le> m_edge (lower_edge w p0 (peer w p0))) \<and>
    (\<forall>w'. clock_select e w = Inr w' \<longrightarrow>
      s_p (w_s w') = (if p_stratum o_p = p_stratum (peer w p0) then s_p (w_s w) else p0))"
proof -
  let ?C = "chime_list e w"
  obtain v low high S where cull: "cull e (upd_s (\<lambda>s. s\<lparr>s_p := NULL\<rparr>) w) = Inr (length ?C, v)"
    and int: "intersection e (int (length ?C)) v = Inr (low, high)"
    and S: "S = filter (in_interval low high) ?C"
    and surv: "survivors e (length ?C) low high v =
      Inr (upd_s (\<lambda>s. s\<lparr>s_p := NULL, s_m := ?C @ drop (length ?C) (s_m s),
             s_v := map (survivor w) S @ drop (length S) (s_v s), s_n := int (length S)\<rparr>) w)"
    (is "_ = Inr ?u")
    and v: "v = upd_s (\<lambda>s. s\<lparr>s_p := NULL, s_m := ?C @ drop (length ?C) (s_m s)\<rparr>) w"
    by (rule select_prefix [OF assms(1-3)])
  have poll: "poll_ok w" using assms(3) by (simp add: sys_ok_def)
  have sm: "s_m (w_s v) = ?C @ drop (length ?C) (s_m (w_s w))" by (simp add: v)
  note I = common_interval [OF assms(1,2) poll assms(4,5) sm int]
  note T = survivors_of_agreeing [OF assms(1,2) poll assms(4,5) sm int, folded S]
  let ?p0 = "m_p (S ! 0)"
  have len: "length ?C \<le> 15" using length_chime_list [OF assms(1,2) poll] .
  then have lS: "length S \<le> 15" unfolding S using le_trans length_filter_le by blast
  have su: "sys_ok ?u"
    by (rule survivors_sys_ok [OF assms(3)]) (use S chime_list_valid [OF assms(1,2) poll] lS len in auto)
  have first: "s_v (w_s ?u) ! 0 = survivor w (S ! 0)" using T(2) by (simp add: nth_append)
  have "length (s_v (w_s w)) = 25" using assms(3) by (simp add: sys_ok_def)
  then have front: "take (nat (s_n (w_s ?u))) (s_v (w_s ?u)) = map (survivor w) S" by simp
  have vp: "v_p (survivor w m) = m_p m" for m by (simp add: survivor_def)
  have val: "valid ?u ?p0" using T(3) assms(2) by (simp add: truechimers_def table_full_def table_ok_def list_all_iff)
  have osys: "ptr_ok ?u (s_p (w_s w))" using assms(3) by (simp add: sys_ok_def)
  have o_u: "load e ?u (s_p (w_s w)) = Inr o_p" using assms(6) by (cases "s_p (w_s w)") simp_all
  have choice: "s_p (w_s w') = (if p_stratum o_p = p_stratum (peer w ?p0) then s_p (w_s w) else ?p0)"
    if run: "clock_select e w = Inr w'" for w'
  proof -
    have "\<not> int (length S) < NSANE" using T(2) by (simp add: not_less Suc_le_eq)
    then have "bind_r (cluster e (length ?C) ?u) (\<lambda>x. bind_r (pick_peer e (s_p (w_s w)) x)
        (\<lambda>x. clock_update e (s_p (w_s x)) x)) = Inr w'"
      using run by (simp add: clock_select_def Let_def cull int surv)
    from tail_choice [OF this su osys _ first _ o_u] val lS show ?thesis by (simp add: vp)
  qed
  have all: "v_p ` set (take (nat (s_n (w_s ?u))) (s_v (w_s ?u))) = truechimers e w"
    unfolding front using T(1) by (simp add: image_image vp)
  have p0: "?p0 = v_p (s_v (w_s ?u) ! 0)" unfolding first vp ..
  show ?thesis
    by (intro exI conjI ballI allI impI) (rule cull, rule int, rule surv, erule I(1), erule I(3), rule I(2),
      rule I(4), rule all, rule T(3), rule p0, erule T(4), erule choice)
qed

lemma good_truechimers: "truechimers demo_env (demo_world good_peer) = {Addr 0, Addr 1, Addr 2, Addr 3, Addr 4}"
  using good_fit by (auto simp: truechimers_def)

lemma good_agreeing: "agreeing demo_env (demo_world good_peer)"
proof -
  have o: "p_offset good_peer = Fin 0" by (simp add: good_peer_def zero_p_def)
  obtain r where r: "root_dist (demo_world good_peer) good_peer = Fin r" "1 / 256 \<le> r"
    using fit_root_dist [OF good_fit demo_poll_ok good_sane] .
  have "flt (1 / 256) = Fin (1 / 256)" using flt_dyadic [of 1 "- 8"] pow2_neg [of 8] by simp
  moreover have "flt (1 / 256) \<le> flt r" using r(2) by (rule flt_mono)
  ultimately have "Fin 0 < flt r" using dbl_less_le_trans [of "Fin 0" "Fin (1 / 256)"] by simp
  moreover have "Fin 0 - Fin r < Fin 0" using fit_edges(4) [OF good_fit demo_poll_ok good_sane] by (simp add: o r(1))
  ultimately show ?thesis
    unfolding agreeing_def good_truechimers by (simp add: lower_edge_def upper_edge_def o r(1))
qed

theorem agreeing_servers_selected_witness:
  "\<exists>n v low high u. survivors demo_env n low high v = Inr u \<and>
    v_p ` set (take (nat (s_n (w_s u))) (s_v (w_s u))) = {Addr 0, Addr 1, Addr 2, Addr 3, Addr 4}"
proof -
  have "load demo_env (demo_world good_peer) (s_p (w_s (demo_world good_peer))) = Inr zero_p"
    by (simp add: zero_s_def demo_env_def)
  from agreeing_servers_selected [OF demo_qsort_ok demo_table_full [OF good_sane] demo_sys_ok good_agreeing _ this,
      unfolded good_truechimers, OF insert_not_empty]
  show ?thesis by (elim exE conjE) (intro exI conjI)
qed

end
