(* ===== verification/Skeleton.thy ===== *)
theory Skeleton
  imports Client
begin

text \<open>
  Parts of the reference code that the port was made from, src/src/skeleton/system_process.c with
  the constants of src/src/skeleton/ntp4.h: the intersection algorithm and the collection of the
  survivors in clock_select(), root_dist() and accept(). They are compared with the port's
  functions of the same names. The loop of the reference that builds the chime list iterates over
  an uninitialised pointer and is not modelled: the list is an argument. The structures of ntp4.h
  are those of the port with three differences that matter here: p->t is a double, refid is a char,
  so the refids of a reference state are below 256, and MAXDIST is 1.
\<close>

section \<open>The square root of the C library\<close>

text \<open>
  The SQRT of ntp4.h is sqrt() of math.h: the correctly rounded root, as IEEE 754 requires it,
  infinity of infinity and not-a-number of a negative number and of not-a-number. (The port has a
  bisection of its own, \<open>c_sqrt\<close>.)
\<close>

fun libm_sqrt :: "dbl \<Rightarrow> dbl" where
  "libm_sqrt (Fin r) = (if r < 0 then NaN else flt (sqrt r))"
| "libm_sqrt PInf = PInf"
| "libm_sqrt NInf = NaN"
| "libm_sqrt NaN = NaN"

lemma libm_sqrt_nonneg: "0 \<le> x \<Longrightarrow> 0 \<le> libm_sqrt x"
  by (cases x) (auto simp: zero_dbl_def less_eq_dbl_def flt_nonneg [unfolded zero_dbl_def less_eq_dbl_def])

lemma libm_sqrt_NaN: "\<not> 0 \<le> x \<Longrightarrow> libm_sqrt x = NaN"
  by (cases x) (auto simp: zero_dbl_def less_eq_dbl_def)

section \<open>The intersection\<close>

text \<open>
  The two scans. \<open>found\<close> counts midpoints; the second scan goes on from the count of the first.
  Each gives the endpoint, unchanged when no edge qualifies, and the count.
\<close>

fun ref_scan_low :: "ntp_m list \<Rightarrow> int \<Rightarrow> nat list \<Rightarrow> int \<Rightarrow> int \<Rightarrow> dbl \<Rightarrow> (dbl \<times> int) outcome" where
  "ref_scan_low ms n [] found chime low = Inr (low, found)"
| "ref_scan_low ms n (i # is) found chime low =
     bind_r (idx Chime_List ms i) (\<lambda>m.
       let chime = i32 (chime - m_type m)
       in if i32 (n - found) \<le> chime then Inr (m_edge m, found)
          else ref_scan_low ms n is (if m_type m = 0 then i32 (found + 1) else found) chime low)"

fun ref_scan_high :: "ntp_m list \<Rightarrow> int \<Rightarrow> nat list \<Rightarrow> int \<Rightarrow> int \<Rightarrow> dbl \<Rightarrow> (dbl \<times> int) outcome" where
  "ref_scan_high ms n [] found chime high = Inr (high, found)"
| "ref_scan_high ms n (i # is) found chime high =
     bind_r (idx Chime_List ms i) (\<lambda>m.
       let chime = i32 (chime + m_type m)
       in if i32 (n - found) \<le> chime then Inr (m_edge m, found)
          else ref_scan_high ms n is (if m_type m = 0 then i32 (found + 1) else found) chime high)"

function ref_allow_loop :: "ntp_m list \<Rightarrow> int \<Rightarrow> int \<Rightarrow> dbl \<Rightarrow> dbl \<Rightarrow> (dbl \<times> dbl) outcome" where
  "ref_allow_loop ms n allow low high =
     (if 2 * allow < n
      then bind_r (ref_scan_low ms n [0..<nat n] 0 0 low) (\<lambda>(low, found).
           bind_r (ref_scan_high ms n (rev [0..<nat n]) found 0 high) (\<lambda>(high, found).
             if allow < found then ref_allow_loop ms n (allow + 1) low high
             else if low < high then Inr (low, high)
             else ref_allow_loop ms n (allow + 1) low high))
      else Inr (low, high))"
  by pat_completeness auto
termination
  by (relation "measure (\<lambda>(ms, n, allow, low, high). nat (n - 2 * allow))") auto

declare ref_allow_loop.simps [simp del]

definition ref_intersection :: "ntp_m list \<Rightarrow> int \<Rightarrow> (dbl \<times> dbl) outcome" where
  "ref_intersection ms n = ref_allow_loop ms n 0 (flt 2000000000) (flt (- 2000000000))"

section \<open>Root distance and acceptance\<close>

text \<open>
  p->t is a double in ntp4.h, so c.t - p->t is a difference of doubles, and a number of seconds.
\<close>

definition ref_root_dist :: "world \<Rightarrow> ntp_p \<Rightarrow> dbl" where
  "ref_root_dist w p =
     cmax MINDISP (p_rootdelay p + p_delay p) / flt 2 + p_rootdisp p + p_disp p +
     PHI * (dbl_of_int (uint (c_t (w_c w))) - dbl_of_int (uint (p_t p))) + p_jitter p"

text \<open>MAXDIST is 1 in ntp4.h.\<close>

definition ref_accept :: "env \<Rightarrow> world \<Rightarrow> ntp_p \<Rightarrow> bool" where
  "ref_accept e w p =
     (if p_leap p = word_of_int NOSYNC \<or> word_of_int MAXSTRAT \<le> p_stratum p then False
      else if dbl_of_int 1 + PHI * LOG2D (e_shl e) (uint (s_poll (w_s w))) < ref_root_dist w p
      then False
      else if p_refid p = p_dstaddr p \<or> p_refid p = s_refid (w_s w) then False
      else if p_reach p = 0 then False
      else True)"

section \<open>The survivors\<close>

text \<open>
  Every survivor is written to the entry n of the survivor list, n being the length of the chime
  list, and counted.
\<close>

definition ref_add_survivor ::
    "env \<Rightarrow> world \<Rightarrow> ntp_m list \<Rightarrow> nat \<Rightarrow> dbl \<Rightarrow> dbl \<Rightarrow> nat \<Rightarrow> ntp_v list \<times> int \<Rightarrow> (ntp_v list \<times> int) outcome" where
  "ref_add_survivor e w ms n low high i vn =
     (case vn of (vs, sn) \<Rightarrow>
        bind_r (idx Chime_List ms i) (\<lambda>m.
          if m_edge m < low \<or> high < m_edge m then Inr (vs, sn)
          else bind_r (load e w (m_p m)) (\<lambda>q.
               bind_r (put_idx Survivor_List vs n
                   \<lparr>v_p = m_p m, v_metric = dbl_of_int (uint (p_stratum q)) + ref_root_dist w q\<rparr>) (\<lambda>vs.
               Inr (vs, i32 (sn + 1))))))"

text \<open>The intersection and the survivors: the list and the number s.n that clock_select() tests.\<close>

definition ref_survivors :: "env \<Rightarrow> world \<Rightarrow> ntp_m list \<Rightarrow> nat \<Rightarrow> ntp_v list \<Rightarrow> (ntp_v list \<times> int) outcome" where
  "ref_survivors e w ms n vs =
     bind_r (ref_intersection ms (int n)) (\<lambda>(low, high).
       foldr_r (ref_add_survivor e w ms n low high) [0..<n] (vs, 0))"

section \<open>The reference never finds an interval\<close>

text \<open>The entries of one type among the first i.\<close>

definition count_of :: "int \<Rightarrow> ntp_m list \<Rightarrow> nat \<Rightarrow> nat" where
  "count_of t ms i = length (filter (\<lambda>m. m_type m = t) (take i ms))"

lemma count_of_mono: "i \<le> j \<Longrightarrow> count_of t ms i \<le> count_of t ms j"
proof -
  assume "i \<le> j"
  then have "take j ms = take i ms @ take (j - i) (drop i ms)"
    by (metis le_add_diff_inverse take_add)
  then show ?thesis by (simp add: count_of_def)
qed

lemma count_of_Suc: "i < length ms \<Longrightarrow> count_of t ms (Suc i) = count_of t ms i + (if m_type (ms ! i) = t then 1 else 0)"
  by (simp add: count_of_def take_Suc_conv_app_nth)

text \<open>A chime list of k intervals: k entries of each type.\<close>

definition intervals :: "nat \<Rightarrow> ntp_m list \<Rightarrow> bool" where
  "intervals k ms \<longleftrightarrow> 0 < k \<and> k < 1000 \<and> 3 * k \<le> length ms \<and>
     (\<forall>i < 3 * k. m_type (ms ! i) \<in> {- 1, 0, 1}) \<and>
     count_of (- 1) ms (3 * k) = k \<and> count_of 0 ms (3 * k) = k \<and> count_of 1 ms (3 * k) = k"

lemma ref_scan_low_misses:
  assumes iv: "intervals k ms" and i: "i + j = 3 * k"
  shows "ref_scan_low ms (3 * int k) [i..<3 * k] (int (count_of 0 ms i))
    (int (count_of (- 1) ms i) - int (count_of 1 ms i)) low = Inr (low, int k)"
  using i
proof (induction j arbitrary: i)
  case 0
  then show ?case using iv by (simp add: intervals_def)
next
  case (Suc j)
  then have lt: "i < 3 * k" "i < length ms" using iv by (simp_all add: intervals_def)
  have t: "m_type (ms ! i) \<in> {- 1, 0, 1}" and k: "0 < k" "k < 1000" using iv lt by (auto simp: intervals_def)
  have le: "count_of t ms (Suc i) \<le> count_of t ms (3 * k)" for t using lt by (intro count_of_mono) simp
  have b: "count_of (- 1) ms (Suc i) \<le> k" "count_of 0 ms (Suc i) \<le> k" "count_of 1 ms (Suc i) \<le> k" "count_of 0 ms i \<le> k"
    using le [of "- 1"] le [of 0] le [of 1] count_of_mono [of i "3 * k" 0 ms] lt iv by (simp_all add: intervals_def)
  have c: "int (count_of (- 1) ms i) - int (count_of 1 ms i) - m_type (ms ! i) =
      int (count_of (- 1) ms (Suc i)) - int (count_of 1 ms (Suc i))"
    using t lt by (auto simp: count_of_Suc)
  have f: "(if m_type (ms ! i) = 0 then int (count_of 0 ms i) + 1 else int (count_of 0 ms i)) = int (count_of 0 ms (Suc i))"
    using lt by (simp add: count_of_Suc)
  have i1: "i32 (int (count_of (- 1) ms (Suc i)) - int (count_of 1 ms (Suc i))) =
      int (count_of (- 1) ms (Suc i)) - int (count_of 1 ms (Suc i))"
    and i2: "i32 (3 * int k - int (count_of 0 ms i)) = 3 * int k - int (count_of 0 ms i)"
    and i3: "i32 (int (count_of 0 ms i) + 1) = int (count_of 0 ms i) + 1"
    using b k by (simp_all add: i32_id)
  have "\<not> 3 * int k - int (count_of 0 ms i) \<le> int (count_of (- 1) ms (Suc i)) - int (count_of 1 ms (Suc i))"
    using b k by linarith
  moreover have "[i..<3 * k] = i # [Suc i..<3 * k]" using lt by (simp add: upt_rec)
  moreover have "Suc i + j = 3 * k" using Suc.prems by simp
  ultimately show ?case using Suc.IH [of "Suc i"] lt
    by (simp add: c i1 i2 i3 f Let_def cong: if_cong)
qed

lemma ref_scan_high_returns:
  "\<forall>i \<in> set is. i < length ms \<Longrightarrow> \<exists>high' found'. ref_scan_high ms n is found chime high = Inr (high', found')"
  by (induction ms n "is" found chime high rule: ref_scan_high.induct) (auto simp: Let_def)

lemma ref_allow_loop_low:
  assumes "intervals k ms"
  shows "\<exists>high'. ref_allow_loop ms (3 * int k) allow low high = Inr (low, high')"
proof (induction "nat (3 * int k - 2 * allow)" arbitrary: allow high rule: less_induct)
  case less
  show ?case
  proof (cases "2 * allow < 3 * int k")
    case False
    then show ?thesis by (subst ref_allow_loop.simps) simp
  next
    case True
    have n: "nat (3 * int k) = 3 * k" by simp
    have lo: "ref_scan_low ms (3 * int k) [0..<3 * k] 0 0 low = Inr (low, int k)"
      using ref_scan_low_misses [OF assms, of 0 "3 * k" low] by (simp add: count_of_def)
    have "\<forall>i \<in> set (rev [0..<3 * k]). i < length ms" using assms by (auto simp: intervals_def)
    from ref_scan_high_returns [OF this]
    obtain h f where hi: "ref_scan_high ms (3 * int k) (rev [0..<3 * k]) (int k) 0 high = Inr (h, f)" by blast
    have "\<exists>high'. ref_allow_loop ms (3 * int k) (allow + 1) low h = Inr (low, high')"
      using True by (intro less) simp
    then show ?thesis using True by (subst ref_allow_loop.simps) (auto simp: n lo hi)
  qed
qed


lemma ref_no_survivor:
  assumes "\<forall>i \<in> set is. i < length ms \<and> m_edge (ms ! i) < low"
  shows "foldr_r (ref_add_survivor e w ms n low high) is (vs, sn) = Inr (vs, sn)"
  using assms by (induction "is") (auto simp: ref_add_survivor_def)

section \<open>Distances\<close>

lemma flt_le_PInf: "flt x \<le> PInf"
  by (simp add: flt_def Let_def less_eq_dbl_def)

lemma dadd_mono:
  assumes "0 \<le> a" and "a \<le> b" and "0 \<le> c" and "c \<le> d"
  shows "a + c \<le> b + (d :: dbl)"
proof -
  have b: "0 \<le> b" and d: "0 \<le> d" using assms dbl_le_trans by blast+
  show ?thesis
    using assms(2,4) by (cases rule: dbl_nonneg_cases [OF assms(1)]; cases rule: dbl_nonneg_cases [OF assms(3)];
        cases rule: dbl_nonneg_cases [OF b]; cases rule: dbl_nonneg_cases [OF d])
      (auto simp: plus_dbl_def less_eq_dbl_def intro: flt_mono [unfolded less_eq_dbl_def] flt_le_PInf [unfolded less_eq_dbl_def])
qed

lemma half_mindisp_nonneg: "x \<noteq> NaN \<Longrightarrow> 0 \<le> cmax MINDISP x / flt 2"
  using half_mindisp [of x] dbl_le_trans [of 0 "Fin (1 / 256)"] by (simp add: zero_dbl_def)


lemma PHI_Fin: "\<exists>f. PHI = Fin f \<and> 0 \<le> f \<and> f \<le> 1 / 65536"
proof -
  have h: "flt (1 / 65536) = Fin (1 / 65536)" using flt_dyadic [of 1 "- 16"]
    by (simp add: power_int_def power_divide)
  obtain f where f: "PHI = Fin f" "0 \<le> f" using PHI_fin by blast
  have "flt (15 / 1000000) \<le> flt (1 / 65536)" by (rule flt_mono) simp
  then have "f \<le> 1 / 65536" using f(1) h by (simp add: ntp_consts)
  with f show ?thesis by blast
qed

lemma PHI_mono:
  assumes "0 \<le> x" and "x \<le> y" and "bd k y"
  shows "PHI * x \<le> PHI * y"
proof -
  obtain f where f: "PHI = Fin f" "0 \<le> f" using PHI_Fin by blast
  obtain b where b: "y = Fin b" using assms(3) by (auto simp: bd_def)
  with assms(1,2) obtain a where a: "x = Fin a"
    by (cases rule: dbl_nonneg_cases [OF assms(1)]) (auto simp: less_eq_dbl_def)
  have "f * a \<le> f * b" using assms(2) f(2) by (intro mult_left_mono) (simp_all add: a b)
  then show ?thesis by (simp add: f a b flt_mono)
qed

lemma LFP2D_le:
  assumes "0 \<le> n" and "n \<le> 2 ^ 64"
  shows "LFP2D (dbl_of_int n) \<le> dbl_of_int n"
proof -
  have "0 \<le> (of_int n :: real)" using assms(1) by simp
  moreover have "(of_int n :: real) \<le> of_int (2 ^ 64)" using assms(2) by (simp only: of_int_le_iff)
  ultimately have "\<bar>of_int n :: real\<bar> \<le> 2 ^ 64" by (simp only: abs_of_nonneg of_int_power of_int_numeral)
  then have "bd 64 (dbl_of_int n)" unfolding dbl_of_int_def by (rule bd_flt) simp
  then obtain r where r: "dbl_of_int n = Fin r" by (auto simp: bd_def)
  have "0 \<le> dbl_of_int n" using assms(1) by (rule dbl_of_int_nonneg)
  then have "0 \<le> r" by (simp add: r zero_dbl_def)
  then have "flt (r / 4294967296) \<le> flt r" by (intro flt_mono) simp
  moreover have "flt r = Fin r" using wfd_dbl_of_int [of n] by (simp add: r flt_Fin repr_def)
  ultimately show ?thesis by (simp add: LFP2D_def r)
qed


text \<open>A difference of times below 2 ^ 53 is exact.\<close>

lemma time_difference:
  assumes "uint (x :: tstamp) < 2 ^ 53" and "uint (y :: tstamp) < 2 ^ 53"
  shows "dbl_of_int (uint x) - dbl_of_int (uint y) = dbl_of_int (uint x - uint y)"
  using assms by (simp add: dbl_of_int_exact) (simp add: dbl_of_int_def)

text \<open>The terms of the two root distances that grow with the age of the last sample.\<close>

lemma ages:
  assumes "uint (p_t q) \<le> uint (c_t (w_c w))"
    and "uint (c_t (w_c w)) - uint (p_t q) < 9223372036854775808"
  defines "n \<equiv> uint (c_t (w_c w)) - uint (p_t q)"
  shows "subtract_uint64_t (c_t (w_c w)) (p_t q) = n" and "0 \<le> n"
proof -
  show "0 \<le> n" using assms by simp
  show "subtract_uint64_t (c_t (w_c w)) (p_t q) = n" using assms by (simp add: subtract_nonneg)
qed

lemma age_le:
  assumes "uint (p_t q) \<le> uint (c_t (w_c w))"
    and "uint (c_t (w_c w)) - uint (p_t q) < 9223372036854775808"
  shows "0 \<le> PHI * LFP2D (dbl_of_int (subtract_uint64_t (c_t (w_c w)) (p_t q)))"
    and "PHI * LFP2D (dbl_of_int (subtract_uint64_t (c_t (w_c w)) (p_t q))) \<le>
      PHI * dbl_of_int (uint (c_t (w_c w)) - uint (p_t q))"
proof -
  let ?n = "uint (c_t (w_c w)) - uint (p_t q)"
  note a = ages [OF assms]
  have L: "0 \<le> LFP2D (dbl_of_int ?n)" using a(2) by (intro LFP2D_nonneg dbl_of_int_nonneg)
  have "bd 63 (dbl_of_int ?n)" using bd_difference [of "c_t (w_c w)" "p_t q"] a(1) by simp
  moreover have "LFP2D (dbl_of_int ?n) \<le> dbl_of_int ?n" using a(2) assms(2) by (intro LFP2D_le) simp_all
  ultimately have "PHI * LFP2D (dbl_of_int ?n) \<le> PHI * dbl_of_int ?n" by (intro PHI_mono [OF L])
  then show "PHI * LFP2D (dbl_of_int (subtract_uint64_t (c_t (w_c w)) (p_t q))) \<le> PHI * dbl_of_int ?n"
    using a by simp
  have "bd 31 (LFP2D (dbl_of_int ?n))" using bd_elapsed [of "c_t (w_c w)" "p_t q"] a(1) by simp
  then show "0 \<le> PHI * LFP2D (dbl_of_int (subtract_uint64_t (c_t (w_c w)) (p_t q)))"
    using PHI_elapsed_nonneg [OF L] a(1) by simp
qed

lemma root_dist_le_ref:
  assumes "peer_sane w q" and "uint (p_t q) \<le> uint (c_t (w_c w))" and "uint (c_t (w_c w)) < 2 ^ 53"
  shows "root_dist w q \<le> ref_root_dist w q"
proof -
  have lt: "uint (c_t (w_c w)) - uint (p_t q) < 9223372036854775808"
    using assms by (simp add: peer_sane_def)
  note p = assms(1) [unfolded peer_sane_def]
  have base: "0 \<le> cmax MINDISP (p_rootdelay q + p_delay q) / flt 2 + p_rootdisp q + p_disp q"
    using p half_mindisp_nonneg by (intro dadd_nonneg) simp_all
  then have refl: "cmax MINDISP (p_rootdelay q + p_delay q) / flt 2 + p_rootdisp q + p_disp q \<le>
      cmax MINDISP (p_rootdelay q + p_delay q) / flt 2 + p_rootdisp q + p_disp q"
    by auto
  have j: "0 \<le> p_jitter q" "p_jitter q \<le> p_jitter q" using p by auto
  show ?thesis
    unfolding root_dist_def ref_root_dist_def time_difference [OF assms(3) le_less_trans [OF assms(2,3)]]
    using dadd_nonneg [OF base age_le(1) [OF assms(2) lt]]
    by (intro dadd_mono base refl age_le [OF assms(2) lt] j)
qed

lemma threshold_nonneg:
  assumes "poll_ok w"
  shows "0 \<le> PHI * LOG2D s (uint (s_poll (w_s w)))"
proof -
  obtain f where f: "PHI = Fin f" "0 \<le> f" using PHI_Fin by blast
  have L: "LOG2D s (uint (s_poll (w_s w))) = Fin (2 ^ nat (uint (s_poll (w_s w))))"
    using assms by (intro LOG2D_poll_range) (simp_all add: poll_ok_def)
  show ?thesis unfolding f(1) L using f(2) by (intro dmul_nonneg_fin) simp_all
qed

section \<open>Properties\<close>

text \<open>C26: the port accepts whatever the reference accepts. For a sane association whose last sample
  is not in the future (and a process time below 2^53), the port's root distance is at most the reference's, its threshold is the
  larger one (MAXDIST 5 for 1), and its loop test exempts stratum 1; so accept() of the skeleton
  implies accept() of the port.\<close>

theorem accept_extends_reference:
  assumes "ref_accept e w q" and "peer_sane w q" and "poll_ok w" and "uint (p_t q) \<le> uint (c_t (w_c w))"
    and "uint (c_t (w_c w)) < 2 ^ 53"
  shows "accept e w q \<and> root_dist w q \<le> ref_root_dist w q"
proof -
  let ?t = "PHI * LOG2D (e_shl e) (uint (s_poll (w_s w)))"
  have le: "root_dist w q \<le> ref_root_dist w q" by (rule root_dist_le_ref [OF assms(2,4,5)])
  then have nn: "ref_root_dist w q \<noteq> NaN" by auto
  have t: "0 \<le> ?t" using threshold_nonneg [OF assms(3)] .
  have th: "Fin 1 + ?t \<le> Fin 5 + ?t" using t by (intro dadd_mono) (auto simp: zero_dbl_def)
  then have "Fin 1 + ?t \<noteq> NaN" by auto
  then have "ref_root_dist w q \<le> Fin 1 + ?t"
    using assms(1) nn by (auto simp: ref_accept_def dbl_of_int_exact dbl_not_less split: if_splits)
  with le th have "\<not> Fin 5 + ?t < root_dist w q"
    by (meson dbl_le_trans dbl_le_less_trans dbl_less_irrefl)
  with assms(1) le show ?thesis
    by (auto simp: accept_def ref_accept_def dbl_of_int_exact split: if_splits)
qed

text \<open>C29: the root distance does not age. The process time counts seconds, but root_dist() reads
  the seconds since the last sample as a 64-bit timestamp: over 2^31 seconds, 68 years, the
  dispersion grows by less than 2^-17 seconds, where 15 ppm of the elapsed time, the reference's
  term, is more than eight hours.\<close>

theorem root_dist_does_not_age:
  assumes "uint (p_t q) \<le> uint (c_t (w_c w))" and "uint (c_t (w_c w)) - uint (p_t q) \<le> 2147483648"
  shows "\<exists>age. root_dist w q = cmax MINDISP (p_rootdelay q + p_delay q) / flt 2 + p_rootdisp q + p_disp q +
      age + p_jitter q \<and> 0 \<le> age \<and> age \<le> Fin (1 / 131072)"
proof -
  let ?n = "uint (c_t (w_c w)) - uint (p_t q)"
  let ?age = "PHI * LFP2D (dbl_of_int (subtract_uint64_t (c_t (w_c w)) (p_t q)))"
  have lt: "?n < 9223372036854775808" using assms(2) by simp
  note a = ages [OF assms(1) lt]
  have "dbl_of_int ?n = Fin (of_int ?n)" using a(2) assms(2) by (intro dbl_of_int_exact) simp
  then have L: "LFP2D (dbl_of_int ?n) = flt (of_int ?n / 4294967296)" by (simp add: LFP2D_def)
  have "(of_int ?n :: real) \<le> of_int 2147483648" using assms(2) by (simp only: of_int_le_iff)
  then have "flt (of_int ?n / 4294967296) \<le> flt (1 / 2)" by (intro flt_mono) simp
  then have half: "LFP2D (dbl_of_int ?n) \<le> flt (1 / 2)" by (simp add: L)
  have "0 \<le> LFP2D (dbl_of_int ?n)" using a(2) by (intro LFP2D_nonneg dbl_of_int_nonneg)
  then have "PHI * LFP2D (dbl_of_int ?n) \<le> PHI * flt (1 / 2)"
    using half bd_flt [of "1 / 2" 0] by (intro PHI_mono) simp_all
  moreover have "PHI * flt (1 / 2) \<le> Fin (1 / 131072)"
  proof -
    obtain f where f: "PHI = Fin f" "f \<le> 1 / 65536" using PHI_Fin by blast
    have d: "flt (1 / 2) = Fin (1 / 2)" "flt (1 / 131072) = Fin (1 / 131072)"
      using flt_dyadic [of 1 "- 1"] flt_dyadic [of 1 "- 17"] by (simp_all add: power_int_def power_divide)
    have "flt (f * (1 / 2)) \<le> flt (1 / 131072)" using f(2) by (intro flt_mono) simp
    then show ?thesis by (simp add: f(1) d)
  qed
  ultimately have "PHI * LFP2D (dbl_of_int ?n) \<le> Fin (1 / 131072)" by (rule dbl_le_trans)
  with age_le(1) [OF assms(1) lt] show ?thesis
    by (intro exI [of _ ?age]) (simp add: root_dist_def a)
qed


section \<open>Witnesses\<close>

text \<open>A synchronised server of stratum 2, reached, with no delay or dispersion of its own.\<close>

definition near_peer :: ntp_p where
  "near_peer = zero_p\<lparr>p_stratum := 2, p_refid := 5, p_reach := 1\<rparr>"

definition near_world :: world where
  "near_world = (one_peer near_peer)\<lparr>w_s := zero_s\<lparr>s_poll := 6\<rparr>\<rparr>"

lemma near_distance: "ref_root_dist near_world near_peer \<le> Fin 1"
proof -
  have "flt (1 / 100) \<le> flt 1" by (rule flt_mono) simp
  then have m: "0 \<le> cmax MINDISP (Fin 0)" "cmax MINDISP (Fin 0) \<le> Fin 1"
    by (auto simp: cmax_def ntp_consts flt_nonneg [unfolded zero_dbl_def] zero_dbl_def)
  then obtain r where r: "cmax MINDISP (Fin 0) = Fin r" "0 \<le> r" "r \<le> 1"
    by (cases rule: dbl_nonneg_cases [OF m(1)]) (auto simp: less_eq_dbl_def)
  have "flt (r / 2) \<le> flt 1" using r(3) by (intro flt_mono) simp
  then have h: "0 \<le> flt (r / 2)" "flt (r / 2) \<le> Fin 1" using r(2) by (simp_all add: flt_nonneg)
  have add0: "0 \<le> x + Fin 0 \<and> x + Fin 0 \<le> Fin 1" if "0 \<le> x" "x \<le> Fin 1" for x
    using dadd_nonneg [OF that(1), of 0] dadd_mono [OF that, of 0 0] by (simp add: zero_dbl_def)
  obtain f where f: "PHI = Fin f" using PHI_Fin by blast
  have "PHI * Fin 0 = Fin 0" unfolding f by simp
  moreover have "ref_root_dist near_world near_peer = flt (r / 2) + Fin 0 + Fin 0 + PHI * Fin 0 + Fin 0"
    by (simp add: ref_root_dist_def near_world_def near_peer_def zero_p_def zero_c_def r(1) dbl_of_int_exact)
  ultimately show ?thesis using add0 h by simp
qed

lemma near_ok: "peer_sane near_world near_peer" "poll_ok near_world"
  by (simp_all add: peer_sane_def near_world_def near_peer_def zero_p_def zero_c_def zero_s_def zero_dbl_def
      poll_ok_def repr_def)

theorem accept_extends_reference_witness:
  "accept demo_env near_world near_peer \<and> root_dist near_world near_peer \<le> Fin 1"
proof -
  let ?t = "PHI * LOG2D (e_shl demo_env) (uint (s_poll (w_s near_world)))"
  have "Fin 1 \<le> Fin 1 + ?t"
    using threshold_nonneg [OF near_ok(2)] repr_int [of 1] small_lt_ovf [of 1] by (intro dadd_ge) simp_all
  with near_distance have "\<not> Fin 1 + ?t < ref_root_dist near_world near_peer"
    by (meson dbl_le_trans dbl_le_less_trans dbl_less_irrefl)
  moreover have "p_leap near_peer = 0" "p_stratum near_peer = 2" "p_refid near_peer = 5" "p_dstaddr near_peer = 0"
    "p_reach near_peer = 1" "s_refid (w_s near_world) = 0"
    by (simp_all add: near_peer_def near_world_def zero_p_def zero_s_def)
  ultimately have "ref_accept demo_env near_world near_peer" by (simp add: ref_accept_def dbl_of_int_exact)
  from accept_extends_reference [OF this near_ok] near_distance show ?thesis
    by (auto simp: near_peer_def near_world_def zero_p_def zero_c_def intro: dbl_le_trans)
qed

theorem root_dist_does_not_age_witness:
  "\<exists>age. root_dist (boot_world\<lparr>w_c := zero_c\<lparr>c_t := 2147483648\<rparr>\<rparr>) zero_p =
      cmax MINDISP (Fin 0 + Fin 0) / flt 2 + Fin 0 + Fin 0 + age + Fin 0 \<and> age \<le> Fin (1 / 131072)"
  using root_dist_does_not_age [of zero_p "boot_world\<lparr>w_c := zero_c\<lparr>c_t := 2147483648\<rparr>\<rparr>"]
  by (auto simp: zero_p_def)

end
