(* ===== verification/Skeleton_Clock.thy ===== *)
theory Skeleton_Clock
  imports Skeleton
begin

text \<open>
  The kernel clock of the reference, src/src/skeleton/main_and_utility.c: get_time(), step_time()
  and adjust_time() with the macros of src/src/skeleton/ntp4.h. The Unix calls gettimeofday(),
  settimeofday() and adjtime() read and write a pair of 32-bit numbers, the model's
  \<open>timeval\<close>; the arguments \<open>other\<close> are what the conversions of out-of-range doubles give.
\<close>

section \<open>The kernel clock\<close>

record timeval =
  tv_sec :: int
  tv_usec :: int

definition JAN_1970 :: u32 where
  "JAN_1970 = 2208988800"

definition U2LFP :: "(dbl \<Rightarrow> int) \<Rightarrow> timeval \<Rightarrow> tstamp" where
  "U2LFP other a =
     push_bit 32 (ucast (word_of_int (tv_sec a) + JAN_1970)) +
     dbl_to_u64 other (dbl_of_int (tv_usec a) / flt 1000000 * FRAC)"

definition ref_get_time :: "(dbl \<Rightarrow> int) \<Rightarrow> timeval \<Rightarrow> tstamp" where
  "ref_get_time other unix_time = U2LFP other unix_time"

text \<open>
  The conversion back: the seconds are those of the NTP timestamp, since 1900; in the fraction the
  seconds are subtracted from the whole timestamp before its low half is taken.
\<close>

definition ref_timeval :: "(dbl \<Rightarrow> int) \<Rightarrow> tstamp \<Rightarrow> timeval" where
  "ref_timeval other ntp_time =
     (let sec = i32 (uint (drop_bit 32 ntp_time))
      in \<lparr>tv_sec = sec,
          tv_usec = dbl_to_i32 other
            (dbl_of_int (uint (push_bit 32 (ntp_time - word_of_int sec))) / FRAC * flt 1000000)\<rparr>)"

definition ref_step_time :: "(dbl \<Rightarrow> int) \<Rightarrow> (dbl \<Rightarrow> int) \<Rightarrow> dbl \<Rightarrow> timeval \<Rightarrow> timeval" where
  "ref_step_time other64 other32 offset unix_time =
     ref_timeval other32 (D2LFP other64 offset + U2LFP other64 unix_time)"

text \<open>What is passed to adjtime().\<close>

definition ref_adjust_time :: "(dbl \<Rightarrow> int) \<Rightarrow> (dbl \<Rightarrow> int) \<Rightarrow> dbl \<Rightarrow> timeval" where
  "ref_adjust_time other64 other32 offset = ref_timeval other32 (D2LFP other64 offset)"

section \<open>Property\<close>

text \<open>
  A step by nothing sets the clock of the reference seventy years ahead: the seconds since 1900 go
  where the seconds since 1970 belong. Here at a whole second.
\<close>

theorem reference_step_epoch:
  "tv_sec (ref_step_time other64 other32 (Fin 0) \<lparr>tv_sec = n, tv_usec = 0\<rparr>) =
     i32 (uint (word_of_int n + JAN_1970 :: u32))"
proof -
  have z: "dbl_to_u64 other64 (Fin 0) = 0"
    using rtrunc_int [of 0] dbl_to_int_Fin [of 0 0 18446744073709551615 other64] by (simp add: dbl_to_u64_def)
  have "D2LFP other64 (Fin 0) = 0" "dbl_of_int 0 / flt 1000000 * FRAC = Fin 0"
    by (simp_all add: D2LFP_def z dbl_of_int_exact)
  then have "D2LFP other64 (Fin 0) + U2LFP other64 \<lparr>tv_sec = n, tv_usec = 0\<rparr> =
      push_bit 32 (ucast (word_of_int n + JAN_1970))"
    by (simp add: U2LFP_def z)
  moreover have "uint (drop_bit 32 (push_bit 32 (ucast x :: tstamp))) = uint x" for x :: u32
  proof -
    have "drop_bit 32 (push_bit 32 (ucast x :: tstamp)) = (ucast x :: tstamp)"
      by (rule bit_word_eqI) (auto simp: bit_simps dest: bit_imp_le_length)
    moreover have "uint (ucast x :: tstamp) = uint x" by (rule uint_up_ucast) (simp add: is_up)
    ultimately show ?thesis by simp
  qed
  ultimately show ?thesis by (simp add: ref_step_time_def ref_timeval_def Let_def)
qed

end
