(* ===== verification/Skeleton_Vfo.thy ===== *)
theory Skeleton_Vfo
  imports Skeleton_Clock
begin

text \<open>
  The clock discipline of the reference, src/src/skeleton/vfo.c, on the model's world and a kernel
  clock, which step_time() sets. Its PLL and FLL terms and its poll adjustment are the port's, so
  \<open>pll_fll\<close> and \<open>adjust_poll\<close> of Vfo.thy are reused; its rstclock(), whose last two parameters
  are exchanged with respect to every call, its jitter, its step of the clock and its roots, which
  are those of the C library, are its own. The clock adjustment process is in Skeleton_System.thy.
\<close>

section \<open>The operations\<close>

text \<open>
  rstclock(state, offset, t) is called as rstclock(state, time, offset): the parameter offset gets
  the update time converted to double, the parameter t the offset, which is stored as a timestamp.
  In ntp4.h p->t is a double, so mu is a difference of doubles.
\<close>

definition ref_rstclock :: "env \<Rightarrow> int \<Rightarrow> dbl \<Rightarrow> dbl \<Rightarrow> world \<Rightarrow> world" where
  "ref_rstclock e state offset t w =
     upd_c (\<lambda>c. c\<lparr>c_state := state, c_last := offset, c_offset := offset\<rparr>)
       (upd_s (\<lambda>s. s\<lparr>s_t := dbl_to_u64 (e_d2u64 e) t\<rparr>) w)"

text \<open>The branches of the outlier regime: how local_clock() goes on, the state, the kernel clock.\<close>

definition ref_outlier_step ::
    "env \<Rightarrow> ntp_p \<Rightarrow> dbl \<Rightarrow> dbl \<Rightarrow> world \<Rightarrow> timeval \<Rightarrow> vfo_exit \<times> world \<times> timeval" where
  "ref_outlier_step e q offset freq w k =
     (let k = ref_step_time (e_d2u64 e) (e_d2i32 e) offset k;
          w = upd_c (\<lambda>c. c\<lparr>c_count := 0\<rparr>) w;
          w = upd_s (\<lambda>s. s\<lparr>s_poll := word_of_int MINPOLL\<rparr>) w
      in if e_state e w = NSET
         then (Return STEP, ref_rstclock e FREQ (dbl_of_int (uint (p_t q))) (Fin 0) w, k)
         else (Discipline STEP freq, ref_rstclock e SYNC (dbl_of_int (uint (p_t q))) (Fin 0) w, k))"

definition ref_outlier ::
    "env \<Rightarrow> ntp_p \<Rightarrow> dbl \<Rightarrow> dbl \<Rightarrow> world \<Rightarrow> timeval \<Rightarrow> vfo_exit \<times> world \<times> timeval" where
  "ref_outlier e q offset mu w k =
     (if c_state (w_c w) = SYNC then (Return SLEW, w, k)
      else if c_state (w_c w) = FREQ
      then (if mu < dbl_of_int WATCH then (Return IGNORE, w, k)
            else let freq = (offset - c_offset (w_c w)) / mu
                 in if mu < dbl_of_int WATCH then (Return IGNORE, w, k)
                    else ref_outlier_step e q offset freq w k)
      else if c_state (w_c w) = SPIK
      then (if mu < dbl_of_int WATCH then (Return IGNORE, w, k)
            else ref_outlier_step e q offset (Fin 0) w k)
      else ref_outlier_step e q offset (Fin 0) w k)"

text \<open>The jitter: only the difference is divided by AVG.\<close>

definition ref_inlier_jitter :: "env \<Rightarrow> dbl \<Rightarrow> world \<Rightarrow> world" where
  "ref_inlier_jitter e offset w =
     (let etemp = SQUARE (c_jitter (w_c w));
          dtemp = SQUARE (cmax (fabs (offset - c_last (w_c w)))
                    (LOG2D (e_shl e) (sint (s_precision (w_s w)))))
      in upd_c (\<lambda>c. c\<lparr>c_jitter := libm_sqrt (etemp + (dtemp - etemp) / dbl_of_int AVG)\<rparr>) w)"

definition ref_inlier :: "env \<Rightarrow> ntp_p \<Rightarrow> dbl \<Rightarrow> dbl \<Rightarrow> world \<Rightarrow> vfo_exit \<times> world" where
  "ref_inlier e q offset mu w =
     (let w = ref_inlier_jitter e offset w;
          t = dbl_of_int (uint (p_t q))
      in if c_state (w_c w) = NSET
         then (Return IGNORE, ref_rstclock e FREQ t offset w)
         else if c_state (w_c w) = FSET
         then (Discipline SLEW (Fin 0), ref_rstclock e SYNC t offset w)
         else if c_state (w_c w) = FREQ
         then (if c_t (w_c w) - s_t (w_s w) < word_of_int WATCH then (Return IGNORE, w)
               else (Discipline SLEW ((offset - c_offset (w_c w)) / mu), w))
         else (Discipline SLEW (pll_fll e offset mu w), ref_rstclock e SYNC t offset w))"

text \<open>The common tail.\<close>

definition ref_update_freq :: "dbl \<Rightarrow> world \<Rightarrow> world" where
  "ref_update_freq freq w =
     (let freq = freq + c_freq (w_c w);
          w = upd_c (\<lambda>c. c\<lparr>c_freq := cmax (cmin MAXFREQ freq) (- MAXFREQ)\<rparr>) w;
          etemp = SQUARE (c_wander (w_c w));
          dtemp = SQUARE freq
      in upd_c (\<lambda>c. c\<lparr>c_wander := libm_sqrt (etemp + (dtemp - etemp) / dbl_of_int AVG)\<rparr>) w)"

fun ref_vfo_tail :: "vfo_exit \<Rightarrow> world \<Rightarrow> clock_code \<times> world" where
  "ref_vfo_tail (Return rval) w = (rval, w)"
| "ref_vfo_tail (Discipline rval freq) w = (rval, adjust_poll (ref_update_freq freq w))"

definition ref_local_clock ::
    "env \<Rightarrow> ptr \<Rightarrow> dbl \<Rightarrow> world \<Rightarrow> timeval \<Rightarrow> (clock_code \<times> world \<times> timeval) outcome" where
  "ref_local_clock e p offset w k =
     (if dbl_of_int PANICT < fabs offset then Inr (PANIC, w, k)
      else bind_r (load e w p) (\<lambda>q.
           let mu = dbl_of_int (uint (p_t q)) - dbl_of_int (uint (s_t (w_s w)));
               (r, w, k) = (if STEPT < fabs offset then ref_outlier e q offset mu w k
                            else case ref_inlier e q offset mu w of (r, w) \<Rightarrow> (r, w, k));
               (code, w) = ref_vfo_tail r w
           in Inr (code, w, k)))"

section \<open>The same machine\<close>

text \<open>What the two disciplines agree on: the exit, the state, the frequency and, up to the root, the wander.\<close>

definition agree :: "world \<Rightarrow> world \<Rightarrow> bool" where
  "agree w w' \<longleftrightarrow> c_state (w_c w) = c_state (w_c w') \<and> c_freq (w_c w) = c_freq (w_c w') \<and>
     c_wander (w_c w) = c_wander (w_c w')"

lemma agree_rstclock: "agree (rstclock st t x w) (ref_rstclock e st y z w)"
  by (simp add: agree_def ref_rstclock_def)

lemma agree_refl: "agree w w"
  by (simp add: agree_def)

lemma agree_outlier:
  assumes "outlier e q offset mu w = (r, w1)" and "ref_outlier e q offset mu w k = (r', w2, k')"
    and "\<And>u v. e_state e u = e_state e v"
  shows "r' = r \<and> agree w1 w2"
  using assms(1,2) assms(3) [of "upd_s (\<lambda>s. s\<lparr>s_poll := word_of_int MINPOLL\<rparr>)
      (upd_c (\<lambda>c. c\<lparr>c_count := 0\<rparr>) (step_time e offset w))"
      "upd_s (\<lambda>s. s\<lparr>s_poll := word_of_int MINPOLL\<rparr>) (upd_c (\<lambda>c. c\<lparr>c_count := 0\<rparr>) w)"]
  by (auto simp: outlier_def ref_outlier_def outlier_step_def ref_outlier_step_def Let_def
      step_time_def agree_def ref_rstclock_def split: if_splits)

text \<open>The kernel clock and the port's local time are set by an outlier that returns STEP, and only by it.\<close>

fun exit_code :: "vfo_exit \<Rightarrow> clock_code" where
  "exit_code (Return c) = c"
| "exit_code (Discipline c freq) = c"

lemma ref_outlier_clock:
  "ref_outlier e q offset mu w k = (r, w', k') \<Longrightarrow>
    k' = (if exit_code r = STEP then ref_step_time (e_d2u64 e) (e_d2i32 e) offset k else k)"
  by (auto simp: ref_outlier_def ref_outlier_step_def Let_def split: if_splits)

lemma outlier_clock:
  "outlier e q offset mu w = (r, w') \<Longrightarrow>
    c_localTime (w_c w') = c_localTime (w_c (if exit_code r = STEP then step_time e offset w else w))"
  by (auto simp: outlier_def outlier_step_def Let_def split: if_splits)

lemma inlier_clock:
  assumes "inlier e q offset mu w = Inr (r, w')"
  shows "exit_code r \<noteq> STEP \<and> c_localTime (w_c w') = c_localTime (w_c w)"
  using assms by (auto simp: inlier_def bind_r_Inr_conv dest!: inlier_jitter_run split: if_splits)

lemma agree_inlier:
  assumes "inlier e q offset mu w = Inr (r, w1)" and "ref_inlier e q offset mu w = (r', w2)"
  shows "r' = r \<and> agree w1 w2"
proof -
  from assms obtain u where u: "inlier_jitter e offset w = Inr u"
    by (auto simp: inlier_def bind_r_Inr_conv)
  let ?v = "ref_inlier_jitter e offset w"
  obtain i where i: "u = upd_c (\<lambda>c. c\<lparr>c_jitter := i\<rparr>) w" using inlier_jitter_run [OF u] ..
  obtain j where j: "?v = upd_c (\<lambda>c. c\<lparr>c_jitter := j\<rparr>) w" by (simp add: ref_inlier_jitter_def Let_def)
  have p: "pll_fll e offset mu u = pll_fll e offset mu ?v" by (simp add: i j pll_fll_def Let_def)
  have c: "c_state (w_c ?v) = c_state (w_c u)" "c_t (w_c ?v) = c_t (w_c u)" "s_t (w_s ?v) = s_t (w_s u)"
    "c_offset (w_c ?v) = c_offset (w_c u)" "agree u ?v"
    by (simp_all add: i j agree_def)
  then have a: "agree (rstclock st t x u) (ref_rstclock e st y z ?v)" for st t x y z
    by (simp add: agree_def ref_rstclock_def)
  show ?thesis
    using assms c(5) unfolding inlier_def ref_inlier_def u bind_r.simps Let_def p c(1-4)
    by (auto simp: a split: if_splits)
qed

text \<open>The radicand of the wander for a frequency, and the wander of both programs after the tail.\<close>

definition wander_sum :: "world \<Rightarrow> dbl \<Rightarrow> dbl" where
  "wander_sum w freq = SQUARE (c_wander (w_c w)) + (SQUARE freq - SQUARE (c_wander (w_c w))) / dbl_of_int AVG"

definition wanders :: "world \<Rightarrow> world \<Rightarrow> world \<Rightarrow> bool" where
  "wanders w w1 w2 \<longleftrightarrow>
     c_wander (w_c w1) = c_wander (w_c w) \<and> c_wander (w_c w2) = c_wander (w_c w) \<or>
     (\<exists>freq. c_freq (w_c w1) = cmax (cmin MAXFREQ freq) (- MAXFREQ) \<and>
        c_sqrt (wander_sum w freq) = Inr (c_wander (w_c w1)) \<and>
        c_wander (w_c w2) = libm_sqrt (wander_sum w freq))"

lemma adjust_poll_localTime [simp]: "c_localTime (w_c (adjust_poll w)) = c_localTime (w_c w)"
  by (simp add: adjust_poll_def Let_def)

lemma agree_tail:
  assumes "agree v v'" and "c_wander (w_c v) = c_wander (w_c w)" and "vfo_tail x v = Inr (r, w1)"
    and "ref_vfo_tail x v' = (r', w2)"
  shows "r = exit_code x \<and> r' = exit_code x \<and> c_state (w_c w2) = c_state (w_c w1) \<and>
    c_freq (w_c w2) = c_freq (w_c w1) \<and> wanders w w1 w2 \<and> c_localTime (w_c w1) = c_localTime (w_c v)"
proof (cases x)
  case (Return c)
  then show ?thesis using assms by (auto simp: agree_def wanders_def)
next
  case (Discipline c freq)
  let ?f = "freq + c_freq (w_c v)"
  obtain u where u: "update_freq freq v = Inr u" "r = c" "w1 = adjust_poll u"
    using assms(3) Discipline by (auto simp: bind_r_Inr_conv)
  then obtain s where s: "c_sqrt (wander_sum w ?f) = Inr s"
      "u = upd_c (\<lambda>c. c\<lparr>c_freq := cmax (cmin MAXFREQ ?f) (- MAXFREQ), c_wander := s\<rparr>) v"
    using assms(2) by (auto simp: update_freq_def wander_sum_def Let_def bind_r_Inr_conv)
  have "w2 = adjust_poll (ref_update_freq freq v')" "r' = c" using assms(4) Discipline by simp_all
  then have "c_wander (w_c w2) = libm_sqrt (wander_sum w ?f)" "c_freq (w_c w2) = c_freq (w_c w1)"
    "c_state (w_c w2) = c_state (w_c w1)"
    using assms(1,2) by (simp_all add: ref_update_freq_def agree_def wander_sum_def Let_def u s)
  then show ?thesis using s(1) Discipline \<open>r' = c\<close> u(2)
    by (auto simp: wanders_def u(3) s(2) intro!: exI [of _ ?f])
qed

lemma tail_offset: "vfo_tail x v = Inr (r, w) \<Longrightarrow> c_offset (w_c w) = c_offset (w_c v)"
  by (cases x) (auto simp: bind_r_Inr_conv dest!: update_freq_run)

lemma ref_tail_offset: "ref_vfo_tail x v = (r, w) \<Longrightarrow> c_offset (w_c w) = c_offset (w_c v)"
  by (cases x) (auto simp: ref_update_freq_def Let_def)

lemma inlier_offsets:
  assumes "c_state (w_c w) \<in> {NSET, FSET}"
  shows "inlier e q offset mu w = Inr (x, v) \<Longrightarrow> c_offset (w_c v) = offset"
    and "ref_inlier e q offset mu w = (x, v) \<Longrightarrow> c_offset (w_c v) = dbl_of_int (uint (p_t q))"
  using assms
  by (auto simp: inlier_def ref_inlier_def ref_inlier_jitter_def ref_rstclock_def Let_def bind_r_Inr_conv
      dest!: inlier_jitter_run split: if_splits)

lemma outlier_wander: "outlier e q offset mu w = (x, v) \<Longrightarrow> c_wander (w_c v) = c_wander (w_c w)"
  by (auto simp: outlier_def outlier_step_def step_time_def Let_def split: if_splits)

lemma inlier_wander: "inlier e q offset mu w = Inr (x, v) \<Longrightarrow> c_wander (w_c v) = c_wander (w_c w)"
  by (auto simp: inlier_def bind_r_Inr_conv dest!: inlier_jitter_run split: if_splits)

section \<open>Property\<close>

text \<open>C24: the port keeps the reference's state machine. When local_clock() of the port and of the
  skeleton both return on the same input, with an update time of the association that is not before
  that of the system and below 2^53, and with the same value in the uninitialised variable that both
  test, they return the same code and leave the same clock state and the same frequency. The wander
  is unchanged in both, or in both a root of the same number, of the port's bisection in the one and
  of the C library in the other. Each steps its clock exactly when the code is STEP, the skeleton
  the clock of the kernel, the port its local time. They differ in the jitter, where the port
  divides the whole sum by AVG, and in what rstclock() stores: in the skeleton, which exchanges the
  time and the offset, the offset the clock adjustment works on is the update time after an inlier
  in the states NSET and FSET.\<close>

theorem local_clock_same_machine:
  assumes "local_clock e p offset w = Inr (r, w1)" and "ref_local_clock e p offset w k = Inr (r', w2, k')"
    and "\<And>q. load e w p = Inr q \<Longrightarrow> uint (s_t (w_s w)) \<le> uint (p_t q) \<and> uint (p_t q) < 2 ^ 53"
    and "\<And>u v. e_state e u = e_state e v"
  shows "r' = r \<and> c_state (w_c w2) = c_state (w_c w1) \<and> c_freq (w_c w2) = c_freq (w_c w1) \<and> wanders w w1 w2 \<and>
    k' = (if r = STEP then ref_step_time (e_d2u64 e) (e_d2i32 e) offset k else k) \<and>
    c_localTime (w_c w1) = c_localTime (w_c (if r = STEP then step_time e offset w else w)) \<and>
    (r \<noteq> PANIC \<and> \<not> STEPT < fabs offset \<and> c_state (w_c w) \<in> {NSET, FSET} \<longrightarrow>
      c_offset (w_c w1) = offset \<and>
      (\<exists>q. load e w p = Inr q \<and> c_offset (w_c w2) = dbl_of_int (uint (p_t q))))"
proof (cases "dbl_of_int PANICT < fabs offset")
  case True
  then show ?thesis using assms(1,2) by (auto simp: local_clock_def ref_local_clock_def wanders_def)
next
  case False
  with assms(1) obtain q where q: "load e w p = Inr q" by (auto simp: local_clock_def bind_r_Inr_conv)
  let ?mu = "dbl_of_int (uint (p_t q - s_t (w_s w)))"
  have mu: "dbl_of_int (uint (p_t q)) - dbl_of_int (uint (s_t (w_s w))) = ?mu"
    using assms(3) [OF q] time_difference [of "p_t q" "s_t (w_s w)"] by (simp add: uint_sub_if')
  show ?thesis
  proof (cases "STEPT < fabs offset")
    case True
    obtain x v where o: "outlier e q offset ?mu w = (x, v)" by fastforce
    obtain y v' l where o': "ref_outlier e q offset ?mu w k = (y, v', l)" using prod_cases3 by blast
    note a = agree_outlier [OF o o' assms(4)]
    from assms(1,2) have t: "vfo_tail x v = Inr (r, w1)" "ref_vfo_tail x v' = (r', w2)" "k' = l"
      using False True q o o' a by (auto simp: local_clock_def ref_local_clock_def Let_def mu split: prod.splits)
    from a agree_tail [OF _ outlier_wander [OF o] t(1,2)] ref_outlier_clock [OF o'] outlier_clock [OF o] t(3) True
    show ?thesis by auto
  next
    case inl: False
    with assms(1) obtain x v where o: "inlier e q offset ?mu w = Inr (x, v)" "vfo_tail x v = Inr (r, w1)"
      using False q by (auto simp: local_clock_def Let_def bind_r_Inr_conv)
    obtain y v' where o': "ref_inlier e q offset ?mu w = (y, v')" by fastforce
    note a = agree_inlier [OF o(1) o']
    from assms(2) have t: "ref_vfo_tail x v' = (r', w2)" "k' = k"
      using False inl q o' a by (auto simp: ref_local_clock_def Let_def mu split: prod.splits)
    have "c_offset (w_c w1) = offset" "c_offset (w_c w2) = dbl_of_int (uint (p_t q))"
      if "c_state (w_c w) \<in> {NSET, FSET}"
      using inlier_offsets(1) [OF that o(1)] inlier_offsets(2) [OF that o'] tail_offset [OF o(2)]
        ref_tail_offset [OF t(1)] by simp_all
    with a q agree_tail [OF _ inlier_wander [OF o(1)] o(2) t(1)] inlier_clock [OF o(1)] t(2) show ?thesis by auto
  qed
qed

theorem local_clock_same_machine_witness:
  "\<exists>w1 w2 k'. local_clock demo_env (Addr 0) (Fin 1) (clock_world FSET 0) = Inr (STEP, w1) \<and>
    ref_local_clock demo_env (Addr 0) (Fin 1) (clock_world FSET 0) \<lparr>tv_sec = 0, tv_usec = 0\<rparr> = Inr (STEP, w2, k') \<and>
    c_state (w_c w2) = c_state (w_c w1) \<and> c_freq (w_c w2) = c_freq (w_c w1)"
proof -
  let ?w = "clock_world FSET 0" and ?k = "\<lparr>tv_sec = 0, tv_usec = 0\<rparr>"
  have st: "e_state demo_env w = NSET" for w by (simp add: demo_env_def)
  have "\<exists>w1. local_clock demo_env (Addr 0) (Fin 1) ?w = Inr (STEP, w1)"
    using STEPT_less_1 by (simp add: local_clock_def outlier_def outlier_step_def dbl_of_int_exact st Let_def)
  then obtain w1 where w1: "local_clock demo_env (Addr 0) (Fin 1) ?w = Inr (STEP, w1)" ..
  have "\<exists>w2 k'. ref_local_clock demo_env (Addr 0) (Fin 1) ?w ?k = Inr (STEP, w2, k')"
    using STEPT_less_1
    by (simp add: ref_local_clock_def ref_outlier_def ref_outlier_step_def dbl_of_int_exact st Let_def)
  then obtain w2 k' where w2: "ref_local_clock demo_env (Addr 0) (Fin 1) ?w ?k = Inr (STEP, w2, k')" by blast
  have t: "load demo_env ?w (Addr 0) = Inr q \<Longrightarrow> uint (s_t (w_s ?w)) \<le> uint (p_t q) \<and> uint (p_t q) < 2 ^ 53" for q
    by (auto simp: clock_world_def one_peer_def zero_p_def zero_s_def boot_world_def)
  have "e_state demo_env u = e_state demo_env v" for u v by (simp add: st)
  from local_clock_same_machine [OF w1 w2 t this] w1 w2 show ?thesis by blast
qed

end
