(* ===== verification/Skeleton_Peer.thy ===== *)
theory Skeleton_Peer
  imports Skeleton Peer_Props
begin

text \<open>
  The peer process of the reference, src/src/skeleton/peer.c, and poll_update() of
  src/src/skeleton/poll.c, compared with the port: the dispatch, the timestamp checks of receive(),
  the sample, the clock filter, the fitness test and the next poll time. One function is an
  argument: \<open>select\<close>, what the clock_select() of the skeleton, whose first loop walks an
  uninitialised pointer, does to the world. Timestamps of the
  packet are unsigned 64-bit integers and are subtracted as such; p->t is a double.
\<close>

section \<open>The operations\<close>

definition ref_access :: "ntp_r \<Rightarrow> int" where
  "ref_access r = 0"

text \<open>table[p->hmode][r->mode]: the table starts with the mode 1, and nothing is subtracted.\<close>

definition ref_dispatch_code :: "u8 \<Rightarrow> u8 \<Rightarrow> dispatch outcome" where
  "ref_dispatch_code hmode mode = bind_r (idx Dispatch_Table dispatch_table (unat hmode)) (\<lambda>row. idx Dispatch_Table row (unat mode))"

definition ref_synch :: "ntp_r \<Rightarrow> ntp_p \<Rightarrow> bool" where
  "ref_synch r q =
     (if r_mode r \<noteq> word_of_int M_BCST
      then if r_org r = 0 then False else if r_org r \<noteq> p_xmt q then False else True
      else True)"

definition ref_sample :: "env \<Rightarrow> world \<Rightarrow> ntp_p \<Rightarrow> ntp_r \<Rightarrow> dbl \<times> dbl \<times> dbl" where
  "ref_sample e w q r =
     (let lr = LOG2D (e_shl e) (sint (r_precision r));
          ls = LOG2D (e_shl e) (sint (s_precision (w_s w)));
          diff = (\<lambda>x y :: tstamp. LFP2D (dbl_of_int (uint (x - y))))
      in if p_pmode q = word_of_int M_BCST
         then (diff (r_xmt r) (r_dst r), BDELAY, lr + ls + PHI * flt 2 * BDELAY)
         else ((diff (r_rec r) (r_org r) + diff (r_dst r) (r_xmt r)) / flt 2,
               cmax (diff (r_dst r) (r_org r) - diff (r_rec r) (r_xmt r)) ls,
               lr + ls + PHI * diff (r_dst r) (r_org r)))"

text \<open>
  The divisor is 2 ^ (i + 1), in C the exclusive or; the argument of SQUARE is a difference, so the
  macro expands to f[i].offset - f[0].offset * f[i].offset - f[0].offset.
\<close>

definition ref_stage_sums :: "ntp_f list \<Rightarrow> dbl \<times> dbl \<Rightarrow> dbl \<times> dbl" where
  "ref_stage_sums f dj =
     fold (\<lambda>i (disp, jitter).
         (disp + f_disp (f ! i) / dbl_of_int (2 XOR (int i + 1)),
          jitter + (f_offset (f ! i) - f_offset (f ! 0) * f_offset (f ! i) - f_offset (f ! 0))))
       [0..<NSTAGE] dj"

text \<open>The seconds since the last sample, a difference of doubles.\<close>

definition ref_age :: "world \<Rightarrow> ntp_p \<Rightarrow> dbl" where
  "ref_age w q = dbl_of_int (uint (c_t (w_c w))) - dbl_of_int (uint (p_t q))"

definition ref_filter_sample :: "env \<Rightarrow> world \<Rightarrow> ntp_p \<Rightarrow> dbl \<Rightarrow> dbl \<Rightarrow> dbl \<Rightarrow> ntp_p" where
  "ref_filter_sample e w q offset delay disp =
     (let f = (shift_stages (PHI * ref_age w q) (p_f q))
                [0 := \<lparr>f_t = c_t (w_c w), f_offset = offset, f_delay = delay, f_disp = disp\<rparr>];
          (d, j) = ref_stage_sums f (p_disp q, p_jitter q)
      in q\<lparr>p_f := f, p_offset := offset, p_delay := delay, p_disp := d,
           p_jitter := cmax (libm_sqrt j) (LOG2D (e_shl e) (sint (s_precision (w_s w))))\<rparr>)"

definition ref_clock_filter ::
    "(world \<Rightarrow> world outcome) \<Rightarrow> env \<Rightarrow> ptr \<Rightarrow> dbl \<Rightarrow> dbl \<Rightarrow> dbl \<Rightarrow> world \<Rightarrow> world outcome" where
  "ref_clock_filter select e p offset delay disp w =
     bind_r (load e w p) (\<lambda>q0.
     let q = ref_filter_sample e w q0 offset delay disp
     in bind_r (store p q w) (\<lambda>w.
       if ref_age w q \<le> Fin 0 \<and> s_leap (w_s w) \<noteq> word_of_int NOSYNC then Inr w
       else if SGATE * p_jitter q < fabs (p_offset q - p_offset q0) \<and>
               ref_age w q < dbl_of_int (2 * uint (s_poll (w_s w))) then Inr w
       else bind_r (modify e p (\<lambda>q. q\<lparr>p_t := c_t (w_c w)\<rparr>) w) (\<lambda>w.
            if p_burst q = 0 then select w else Inr w)))"


text \<open>The next poll time; c.t + 1 is converted to int.\<close>

definition ref_poll_update :: "env \<Rightarrow> ptr \<Rightarrow> int \<Rightarrow> world \<Rightarrow> world outcome" where
  "ref_poll_update e p h w =
     bind_r (modify e p (\<lambda>q. q\<lparr>p_hpoll := word_of_int (cmax (cmin MAXPOLL h) MINPOLL)\<rparr>) w) (\<lambda>w.
     bind_r (load e w p) (\<lambda>q.
       if 0 < p_burst q \<and> int_to_u64 (p_nextdate q) \<noteq> c_t (w_c w) then Inr w
       else let nextdate =
                  (if 0 < p_burst q then i32 (p_nextdate q + BTIME)
                   else i32 (p_outdate q +
                     2 ^ nat (cmax (cmin (uint (p_ppoll q)) (uint (p_hpoll q))) MINPOLL)));
                nextdate =
                  (if int_to_u64 nextdate \<le> c_t (w_c w) then i32 (uint (c_t (w_c w) + 1)) else nextdate)
            in modify e p (\<lambda>q. q\<lparr>p_nextdate := nextdate\<rparr>) w))"

definition ref_packet ::
    "(world \<Rightarrow> world outcome) \<Rightarrow> env \<Rightarrow> ptr \<Rightarrow> ntp_r \<Rightarrow> world \<Rightarrow> world outcome" where
  "ref_packet select e p r w =
     bind_r (modify e p (take_header r) w) (\<lambda>w.
     bind_r (load e w p) (\<lambda>q.
       if p_leap q = word_of_int NOSYNC \<or> word_of_int MAXSTRAT \<le> p_stratum q then Inr w
       else if word_of_int MAXDISP \<le> r_rootdelay r div 2 + r_rootdisp r \<or> r_xmt r < p_reftime q
       then Inr w
       else bind_r (ref_poll_update e p (uint (p_hpoll q)) w) (\<lambda>w.
            bind_r (modify e p (\<lambda>q. q\<lparr>p_reach := p_reach q OR 1\<rparr>) w) (\<lambda>w.
            bind_r (load e w p) (\<lambda>q.
              case ref_sample e w q r of (offset, delay, disp) \<Rightarrow>
                ref_clock_filter select e p offset delay disp w)))))"

text \<open>
  clear(): the port's, with MAXDISP for the dispersions, and the last poll time through the double
  p->t.
\<close>

definition ref_cleared :: "env \<Rightarrow> world \<Rightarrow> int \<Rightarrow> int \<Rightarrow> ntp_p \<Rightarrow> ntp_p" where
  "ref_cleared e w kiss rand p =
     (let outdate = dbl_to_i32 (e_d2i32 e) (dbl_of_int (uint (c_t (w_c w)))) in
      p\<lparr>p_leap := word_of_int NOSYNC,
        p_stratum := word_of_int MAXSTRAT,
        p_ppoll := word_of_int MAXPOLL,
        p_hpoll := word_of_int MINPOLL,
        p_disp := dbl_of_int MAXDISP,
        p_jitter := LOG2D (e_shl e) (sint (s_precision (w_s w))),
        p_refid := word_of_int kiss,
        p_f := map (\<lambda>f. f\<lparr>f_disp := dbl_of_int MAXDISP\<rparr>) (p_f p),
        p_t := c_t (w_c w),
        p_outdate := outdate,
        p_nextdate := i32 (outdate + (rand AND (2 ^ nat MINPOLL - 1)))\<rparr>)"

definition ref_clear :: "env \<Rightarrow> ptr \<Rightarrow> int \<Rightarrow> world \<Rightarrow> world outcome" where
  "ref_clear e p kiss w =
     (let w = (if s_p (w_s w) = p then upd_s (\<lambda>s. s\<lparr>s_p := NULL\<rparr>) w else w)
      in bind_r (load e w p) (\<lambda>q.
           if kiss \<noteq> X_INIT \<and> p_flags q AND P_EPHEM \<noteq> 0 then free p w
           else let (rand, w) = read_random e w
                in modify e p (ref_cleared e w kiss rand) w))"

text \<open>receive() from the timestamp checks on.\<close>

definition ref_check_packet ::
    "(world \<Rightarrow> world outcome) \<Rightarrow> env \<Rightarrow> ptr \<Rightarrow> ntp_r \<Rightarrow> auth_code \<Rightarrow> world \<Rightarrow> world outcome" where
  "ref_check_packet select e p r auth w =
     (if r_xmt r = 0 then Inr w
      else bind_r (load e w p) (\<lambda>q.
        if r_xmt r = p_xmt q then Inr w
        else bind_r (modify e p (\<lambda>q. q\<lparr>p_org := r_xmt r, p_rec := r_dst r\<rparr>) w) (\<lambda>w.
             if \<not> ref_synch r q then Inr w
             else if auth = A_CRYPTO then ref_clear e p X_CRYPTO w
             else if \<not> AUTH (p_keyid q \<noteq> 0 \<or> p_flags q AND P_NOTRUST \<noteq> 0) auth then Inr w
             else ref_packet select e p r w)))"

section \<open>The next poll time\<close>

lemma poll_update_spread_done:
  assumes "valid w p" and "dbl_of_int 25 < w_last_nextdate w" and "uint (c_t (w_c w)) < 2147483647"
  shows "poll_update e p hpoll w = ref_poll_update e p hpoll w"
proof -
  have le: "\<not> w_last_nextdate w \<le> dbl_of_int 25" using assms(2) dbl_le_less_trans dbl_less_irrefl by blast
  have "0 \<le> uint (c_t (w_c w))" by simp
  then have s: "sint (c_t (w_c w)) = uint (c_t (w_c w))"
    using assms(3) unfolding sint_i64 by (intro i64_id) linarith+
  have a: "add_int64_t (sint (c_t (w_c w))) 1 = Inr (uint (c_t (w_c w)) + 1)"
    unfolding s by (rule add_int64_t_small) (use assms(3) in simp_all)
  have u: "uint (c_t (w_c w) + 1) = uint (c_t (w_c w)) + 1" using assms(3) by (simp add: uint_plus_if')
  show ?thesis using assms(1) le
    by (auto simp: poll_update_def ref_poll_update_def spread_nextdate_def a u Let_def)
qed

section \<open>The sample\<close>

lemma add_int64_t_fractions:
  assumes "0 \<le> x" and "0 \<le> y" and "x + y < 2147483648"
  shows "add_int64_t x y = Inr (x + y)"
proof -
  have "x div 4294967296 = 0" "y div 4294967296 = 0" using assms by simp_all
  moreover have "i32 (x mod 4294967296) = x" "i32 (y mod 4294967296) = y" using assms by (simp_all add: i32_id)
  ultimately show ?thesis
    using assms by (simp add: add_int64_t_def Let_def add32_def and_mask32 drop_bit_eq_div or_low_nonneg)
qed

lemma offsets_equal:
  assumes "0 \<le> a" and "0 \<le> b" and "a + b < 2147483648"
  shows "(LFP2D (dbl_of_int a) + LFP2D (dbl_of_int b)) / flt 2 = LFP2D (dbl_of_int (a + b)) / flt 2"
proof -
  have h: "\<bar>a\<bar> < 2 ^ 53" "\<bar>b\<bar> < 2 ^ 53" "\<bar>a + b\<bar> < 2 ^ 53" using assms by simp_all
  have s: "LFP2D (dbl_of_int a) + LFP2D (dbl_of_int b) = flt (of_int (a + b) / 4294967296)"
    by (simp add: LFP2D_exact [OF h(1)] LFP2D_exact [OF h(2)] add_divide_distrib)
  have "LFP2D (dbl_of_int (a + b)) = flt (of_int (a + b) / 4294967296)"
    using h(3) by (simp add: LFP2D_def dbl_of_int_exact)
  then show ?thesis by (simp only: s)
qed

text \<open>A served time that is subtracted as an unsigned number makes the delay negative.\<close>

lemma ref_delay_negative:
  assumes "0 \<le> el" and "el < 2 ^ 53" and "0 < sv" and "sv < 2 ^ 53"
  shows "LFP2D (dbl_of_int el) - LFP2D (dbl_of_int (18446744073709551616 - sv)) < 0"
proof -
  let ?m = "18446744073709551616 - sv"
  have "\<bar>of_int ?m :: real\<bar> \<le> 2 ^ 64" using assms(3,4) by (simp add: abs_if)
  then have "bd 64 (dbl_of_int ?m)" unfolding dbl_of_int_def by (rule bd_flt) simp
  then obtain c where c: "dbl_of_int ?m = Fin c" by (auto simp: bd_def)
  have "bd 64 (LFP2D (dbl_of_int ?m))" unfolding LFP2D_def using \<open>bd 64 (dbl_of_int ?m)\<close> by (rule bd_divide) simp_all
  then obtain d where d: "LFP2D (dbl_of_int ?m) = Fin d" by (auto simp: bd_def)
  have "dbl_of_int 9223372036854775808 \<le> Fin c" unfolding c [symmetric] using assms(4) by (intro dbl_of_int_mono) simp
  moreover have "dbl_of_int 9223372036854775808 = Fin 9223372036854775808"
    using repr_pow2 [of 63] pow2_lt_ovf [of 63] by (simp add: dbl_of_int_def flt_Fin repr_def)
  ultimately have "flt 2147483648 \<le> flt (c / 4294967296)" by (intro flt_mono) simp
  then have lb: "2147483648 \<le> d" using d by (simp add: LFP2D_def c)
  have e: "LFP2D (dbl_of_int el) = Fin (of_int el / 4294967296)" using assms(1,2) by (intro LFP2D_exact) simp
  have "(of_int el :: real) < of_int (2 ^ 53)" using assms(2) by (simp only: of_int_less_iff)
  then have "of_int el / 4294967296 - d \<le> - 1" using lb by simp
  then have "flt (of_int el / 4294967296 - d) \<le> flt (- 1)" by (rule flt_mono)
  then show ?thesis unfolding e d
    using flt_minus [of 1] dbl_le_less_trans [of _ "Fin (- 1)" 0] by (simp add: zero_dbl_def)
qed

text \<open>The samples of the two programs for timestamps in the order of a round trip.\<close>

lemma sample_values:
  fixes e :: env and w :: world and q :: ntp_p and r :: ntp_r
  assumes "p_pmode q \<noteq> 5" and "uint (r_org r) \<le> uint (r_rec r)" and "uint (r_rec r) \<le> uint (r_xmt r)"
    and "uint (r_xmt r) \<le> uint (r_dst r)"
    and "uint (r_rec r) - uint (r_org r) + (uint (r_dst r) - uint (r_xmt r)) < 2147483648"
    and "uint (r_dst r) - uint (r_org r) < 2 ^ 53"
  defines "ls \<equiv> LOG2D (e_shl e) (sint (s_precision (w_s w)))"
  defines "trip \<equiv> uint (r_rec r) - uint (r_org r) + (uint (r_dst r) - uint (r_xmt r))"
  shows "\<exists>disp. sample e w q r = Inr (LFP2D (dbl_of_int trip) / flt 2, cmax (LFP2D (dbl_of_int trip)) ls, disp)"
    and "fst (ref_sample e w q r) = LFP2D (dbl_of_int trip) / flt 2"
    and "r_rec r \<noteq> r_xmt r \<Longrightarrow> 0 < ls \<Longrightarrow> fst (snd (ref_sample e w q r)) = ls"
proof -
  let ?a = "uint (r_rec r) - uint (r_org r)" and ?b = "uint (r_dst r) - uint (r_xmt r)"
    and ?el = "uint (r_dst r) - uint (r_org r)" and ?sv = "uint (r_xmt r) - uint (r_rec r)"
  have p: "(2 :: int) ^ 53 = 9007199254740992" by simp
  note order = assms(2-5) assms(6) [unfolded p]
  have sub: "subtract_uint64_t x y = \<bar>uint x - uint y\<bar>" if "\<bar>uint x - uint y\<bar> < 9007199254740992" for x y
    using that by (intro subtract_nonneg) linarith+
  have d: "subtract_uint64_t (r_rec r) (r_org r) = ?a" "subtract_uint64_t (r_dst r) (r_xmt r) = ?b"
    "subtract_uint64_t (r_dst r) (r_org r) = ?el" "subtract_uint64_t (r_rec r) (r_xmt r) = ?sv"
    using order by (simp_all add: sub)
  have w: "uint (word_of_int k :: tstamp) = k" if "0 \<le> k" "k < 9007199254740992" for k
    using that by (simp add: uint_word_of_int)
  have e: "subtract_uint64_t (word_of_int ?el) (word_of_int ?sv) = trip"
  proof -
    have we: "uint (word_of_int ?el :: tstamp) = ?el" "uint (word_of_int ?sv :: tstamp) = ?sv"
      using order by (intro w; linarith)+
    have "\<bar>?el - ?sv\<bar> < 9007199254740992" "\<bar>?el - ?sv\<bar> = trip" using order unfolding trip_def by linarith+
    then show ?thesis using sub [of "word_of_int ?el" "word_of_int ?sv"] unfolding we by simp
  qed
  have z: "add_int64_t ?a ?b = Inr trip" unfolding trip_def using order by (intro add_int64_t_fractions) simp_all
  show "\<exists>disp. sample e w q r = Inr (LFP2D (dbl_of_int trip) / flt 2, cmax (LFP2D (dbl_of_int trip)) ls, disp)"
    using assms(1) by (simp add: sample_def Let_def d z e [simplified] ls_def)
  have u: "uint (r_rec r - r_org r) = ?a" "uint (r_dst r - r_xmt r) = ?b" "uint (r_dst r - r_org r) = ?el"
    using order by (simp_all add: uint_sub_if')
  have "0 \<le> ?a" "0 \<le> ?b" "?a + ?b < 2147483648" using order by simp_all
  then show "fst (ref_sample e w q r) = LFP2D (dbl_of_int trip) / flt 2"
    using assms(1) offsets_equal by (simp add: ref_sample_def u trip_def Let_def)
  assume ne: "r_rec r \<noteq> r_xmt r" and pos: "0 < ls"
  have "uint (r_rec r) \<noteq> uint (r_xmt r)" using ne unfolding word_uint_eq_iff .
  then have lt: "uint (r_rec r) < uint (r_xmt r)" using order by linarith
  then have v: "uint (r_rec r - r_xmt r) = 18446744073709551616 - ?sv" by (simp add: uint_sub_if')
  have "LFP2D (dbl_of_int ?el) - LFP2D (dbl_of_int (18446744073709551616 - ?sv)) < 0"
    using order lt by (intro ref_delay_negative) (simp_all add: p)
  then have "LFP2D (dbl_of_int ?el) - LFP2D (dbl_of_int (18446744073709551616 - ?sv)) < ls"
    using pos by (meson dbl_less_imp_le dbl_less_le_trans)
  then show "fst (snd (ref_sample e w q r)) = ls"
    using assms(1) by (simp add: ref_sample_def u v ls_def cmax_def Let_def)
qed

section \<open>The filter\<close>




text \<open>The divisors of the eight stages.\<close>

lemma xor_divisors:
  "map (\<lambda>i. (2 :: int) XOR (int i + 1)) [0..<NSTAGE] = [3, 0, 1, 6, 7, 4, 5, 10]"
  by (simp add: upt_rec)








section \<open>Properties\<close>

text \<open>C27: what passes the gates of the reference passes those of the port, but for two timestamps. A
  packet that passes the checks of the reference (a transmit timestamp that is not zero and not the
  association's, an origin that is the transmit timestamp of the association, no key) passes
  those of the port and reaches packet(), with the same timestamps stored, unless its transmit or
  origin timestamp is 1 January 1970, which the port takes for zero. The dispatch differs: the port
  processes the answer of a server to a client, which the reference, indexing the table with the
  mode itself, discards; the reference processes client packets there.\<close>

theorem gates_extend_reference:
  assumes "valid w p" and "r_xmt r \<noteq> 0" and "r_xmt r \<noteq> p_xmt (peer w p)" and "ref_synch r (peer w p)"
    and "p_keyid (peer w p) = 0" and "p_flags (peer w p) AND P_NOTRUST = 0"
    and "r_xmt r \<noteq> unix_epoch" and "r_org r \<noteq> unix_epoch"
  defines "v \<equiv> set_peer p ((peer w p)\<lparr>p_org := r_xmt r, p_rec := r_dst r\<rparr>) w"
  shows "check_packet e p r A_NONE w = packet e p r v \<and>
    ref_check_packet select e p r A_NONE w = ref_packet select e p r v \<and>
    dispatch_code (word_of_int M_CLNT) (word_of_int M_SERV) = Inr PROC \<and>
    ref_dispatch_code (word_of_int M_CLNT) (word_of_int M_SERV) = Inr DSCRD \<and>
    ref_dispatch_code (word_of_int M_CLNT) (word_of_int M_CLNT) = Inr PROC"
proof -
  have "r_mode r = 5 \<or> hi32 (r_org r) = hi32 (p_xmt (peer w p)) \<and> lo32 (r_org r) = lo32 (p_xmt (peer w p))"
    using assms(4) by (auto simp: ref_synch_def split: if_splits)
  then have "check_packet e p r A_NONE w = packet e p r v"
    unfolding check_packet_gates [OF assms(1)] Let_def v_def using assms(3,5-8) by auto
  moreover have "ref_check_packet select e p r A_NONE w = ref_packet select e p r v"
    using assms(1-6) by (simp add: ref_check_packet_def v_def AUTH_def)
  ultimately show ?thesis by (simp add: dispatch_code_def ref_dispatch_code_def dispatch_table_def idx_def)
qed

text \<open>C39: the sample against the reference. For a round trip with its timestamps in order and less
  than half a second on the way, both programs compute the same offset, half the time on the way;
  the delay of the port is the time on the way, or the precision if that is larger, as intended
  (all timestamps of the exchange within 2^53 units of 2^-32 s, over three weeks; not in broadcast
  mode; a positive precision). The reference subtracts the server's time with the wrong sign, which wraps, and its delay is the
  precision whenever the server took any time.\<close>

theorem sample_against_reference:
  assumes "p_pmode q \<noteq> 5" and "uint (r_org r) \<le> uint (r_rec r)" and "uint (r_rec r) < uint (r_xmt r)"
    and "uint (r_xmt r) \<le> uint (r_dst r)"
    and "uint (r_rec r) - uint (r_org r) + (uint (r_dst r) - uint (r_xmt r)) < 2147483648"
    and "uint (r_dst r) - uint (r_org r) < 2 ^ 53" and "0 < LOG2D (e_shl e) (sint (s_precision (w_s w)))"
  shows "let ls = LOG2D (e_shl e) (sint (s_precision (w_s w)));
      way = LFP2D (dbl_of_int (uint (r_rec r) - uint (r_org r) + (uint (r_dst r) - uint (r_xmt r)))) in
    \<exists>disp disp'. sample e w q r = Inr (way / flt 2, cmax way ls, disp) \<and>
      ref_sample e w q r = (way / flt 2, ls, disp')"
proof -
  have le: "uint (r_rec r) \<le> uint (r_xmt r)" and ne: "r_rec r \<noteq> r_xmt r" using assms(3) by auto
  note v = sample_values [OF assms(1,2) le assms(4-6)]
  show ?thesis using v(1) [of e w] v(2) [of e w] v(3) [of e w, OF ne assms(7)]
    by (auto simp: Let_def prod_eq_iff)
qed


section \<open>Witnesses\<close>

theorem gates_extend_reference_witness:
  "check_packet demo_env (Addr 0) (zero_r\<lparr>r_mode := 4, r_org := 7, r_xmt := 9\<rparr>) A_NONE (one_peer (zero_p\<lparr>p_xmt := 7\<rparr>)) =
    packet demo_env (Addr 0) (zero_r\<lparr>r_mode := 4, r_org := 7, r_xmt := 9\<rparr>) (one_peer (zero_p\<lparr>p_xmt := 7, p_org := 9\<rparr>))"
proof -
  have epoch: "9 \<noteq> unix_epoch" "7 \<noteq> unix_epoch" by (simp_all add: join32_def push_bit_eq_mult)
  have "set_peer (Addr 0) (zero_p\<lparr>p_xmt := 7, p_org := 9, p_rec := 0\<rparr>) (one_peer (zero_p\<lparr>p_xmt := 7\<rparr>)) =
      one_peer (zero_p\<lparr>p_xmt := 7, p_org := 9\<rparr>)"
    by (simp add: set_peer_def one_peer_def boot_world_def zero_p_def)
  then show ?thesis
    using gates_extend_reference [of "one_peer (zero_p\<lparr>p_xmt := 7\<rparr>)" "Addr 0" "zero_r\<lparr>r_mode := 4, r_org := 7, r_xmt := 9\<rparr>"
        demo_env Inr] epoch
    by (simp add: ref_synch_def zero_p_def zero_r_def)
qed

theorem sample_against_reference_witness:
  "\<exists>disp disp'.
    sample demo_env (boot_world\<lparr>w_s := zero_s\<lparr>s_precision := word_of_int PRECISION\<rparr>\<rparr>) zero_p (zero_r\<lparr>r_org := 10, r_rec := 14, r_xmt := 15, r_dst := 23\<rparr>) =
      Inr (LFP2D (dbl_of_int 12) / flt 2, cmax (LFP2D (dbl_of_int 12)) (Fin (1 / 262144)), disp) \<and>
    ref_sample demo_env (boot_world\<lparr>w_s := zero_s\<lparr>s_precision := word_of_int PRECISION\<rparr>\<rparr>) zero_p (zero_r\<lparr>r_org := 10, r_rec := 14, r_xmt := 15, r_dst := 23\<rparr>) =
      (LFP2D (dbl_of_int 12) / flt 2, Fin (1 / 262144), disp')"
  using sample_against_reference [of zero_p "zero_r\<lparr>r_org := 10, r_rec := 14, r_xmt := 15, r_dst := 23\<rparr>" demo_env
      "boot_world\<lparr>w_s := zero_s\<lparr>s_precision := word_of_int PRECISION\<rparr>\<rparr>"]
  by (simp add: zero_p_def zero_dbl_def Let_def)





end
