(* ===== verification/Skeleton_System.thy ===== *)
theory Skeleton_System
  imports Skeleton_Vfo Skeleton_Peer
begin

text \<open>
  The rest of the reference's system and poll processes: clock_update() and clock_combine() of
  src/src/skeleton/system_process.c, clock_adjust() of src/src/skeleton/vfo.c, poll() and
  peer_xmit() of src/src/skeleton/poll.c. What the skeleton takes from the platform or from code
  that does not run is an argument: \<open>select\<close> is what the clock_select() of the skeleton, whose first
  loop walks an uninitialised pointer, does to the world, \<open>now\<close> its get_time(), \<open>adj\<close> its
  adjust_time() and \<open>send\<close> its xmit_packet(). The kernel clock is a second component of the state
  where it can be stepped.
\<close>

section \<open>The system process\<close>

text \<open>SQUARE (x - y), the macro's argument being a difference.\<close>

definition ref_square :: "dbl \<Rightarrow> dbl \<Rightarrow> dbl" where
  "ref_square x y = x - y * x - y"

fun ref_combine_loop ::
    "env \<Rightarrow> world \<Rightarrow> ntp_v list \<Rightarrow> dbl \<Rightarrow> dbl \<Rightarrow> dbl \<Rightarrow> (dbl \<times> dbl \<times> dbl) outcome" where
  "ref_combine_loop e w [] y z v = Inl (Index_OOB Survivor_List)"
| "ref_combine_loop e w (r # rs) y z v =
     (if v_p r = NULL then Inr (y, z, v)
      else bind_r (load e w (v_p r)) (\<lambda>p.
           bind_r (idx Survivor_List (s_v (w_s w)) 0) (\<lambda>first. bind_r (load e w (v_p first)) (\<lambda>p0.
             let x = ref_root_dist w p
             in ref_combine_loop e w rs (y + dbl_of_int 1 / x) (z + p_offset p / x)
                  (v + ref_square (p_offset p) (p_offset p0) / x)))))"

definition ref_clock_combine :: "env \<Rightarrow> world \<Rightarrow> world outcome" where
  "ref_clock_combine e w =
     bind_r (ref_combine_loop e w (s_v (w_s w)) (Fin 0) (Fin 0) (Fin 0)) (\<lambda>(y, z, v).
       Inr (upd_s (\<lambda>s. s\<lparr>s_offset := z / y, s_jitter := libm_sqrt (v / y)\<rparr>) w))"

definition ref_system_slew :: "env \<Rightarrow> ptr \<Rightarrow> world \<Rightarrow> world outcome" where
  "ref_system_slew e p w =
     bind_r (load e w p) (\<lambda>q.
       let dtemp = libm_sqrt (SQUARE (p_jitter q) + SQUARE (s_jitter (w_s w)));
           dtemp = dtemp + cmax (p_disp q + PHI * ref_age w q + fabs (p_offset q)) MINDISP
       in Inr (upd_s (\<lambda>s. s\<lparr>s_leap := p_leap q, s_stratum := p_stratum q + 1, s_refid := p_refid q,
               s_reftime := p_reftime q, s_rootdelay := p_rootdelay q + p_delay q,
               s_rootdisp := p_rootdisp q + dtemp\<rparr>) w))"

text \<open>The loop over all associations of the case STEP has the condition 0: nothing is cleared.\<close>

fun ref_clock_verdict ::
    "env \<Rightarrow> ptr \<Rightarrow> clock_code \<times> world \<times> timeval \<Rightarrow> (world \<times> timeval) outcome" where
  "ref_clock_verdict e p (PANIC, w, k) = Inl (Exit 0)"
| "ref_clock_verdict e p (STEP, w, k) =
     Inr (upd_s (\<lambda>s. s\<lparr>s_stratum := word_of_int MAXSTRAT, s_poll := word_of_int MINPOLL\<rparr>) w, k)"
| "ref_clock_verdict e p (SLEW, w, k) = bind_r (ref_system_slew e p w) (\<lambda>w. Inr (w, k))"
| "ref_clock_verdict e p (IGNORE, w, k) = Inr (w, k)"

text \<open>The comparison s.t >= p->t is one of doubles; s.t takes the value of p->t back as a timestamp.\<close>

definition ref_clock_update :: "env \<Rightarrow> ptr \<Rightarrow> world \<Rightarrow> timeval \<Rightarrow> (world \<times> timeval) outcome" where
  "ref_clock_update e p w k =
     bind_r (load e w p) (\<lambda>q.
       if dbl_of_int (uint (p_t q)) \<le> dbl_of_int (uint (s_t (w_s w))) then Inr (w, k)
       else bind_r (ref_clock_combine e
                 (upd_s (\<lambda>s. s\<lparr>s_t := dbl_to_u64 (e_d2u64 e) (dbl_of_int (uint (p_t q)))\<rparr>) w)) (\<lambda>w.
            bind_r (ref_local_clock e p (s_offset (w_s w)) w k) (ref_clock_verdict e p)))"

section \<open>The clock adjust process\<close>

text \<open>The loop over the associations has the condition 0.\<close>

definition ref_clock_adjust :: "(dbl \<Rightarrow> world \<Rightarrow> world) \<Rightarrow> env \<Rightarrow> world \<Rightarrow> world" where
  "ref_clock_adjust adj e w =
     (let w = upd_c (\<lambda>c. c\<lparr>c_t := c_t c + 1\<rparr>) w;
          w = upd_s (\<lambda>s. s\<lparr>s_rootdisp := s_rootdisp s + PHI\<rparr>) w;
          dtemp = c_offset (w_c w) /
            (dbl_of_int PLL * cmin (LOG2D (e_shl e) (uint (s_poll (w_s w)))) (dbl_of_int ALLAN));
          w = upd_c (\<lambda>c. c\<lparr>c_offset := c_offset c - dtemp\<rparr>) w
      in adj (c_freq (w_c w) + dtemp) w)"

section \<open>The poll process\<close>

text \<open>
  The addresses are exchanged with respect to the port. The test of the key is the constant 0, and
  md5() returns 0.
\<close>

definition ref_peer_xmit ::
    "(world \<Rightarrow> tstamp \<times> world) \<Rightarrow> (ntp_x \<Rightarrow> world \<Rightarrow> world outcome) \<Rightarrow> env \<Rightarrow> ptr \<Rightarrow> world \<Rightarrow> world outcome" where
  "ref_peer_xmit now send e p w =
     bind_r (load e w p) (\<lambda>q.
       let s = w_s w;
           x = (e_x e w)\<lparr>x_srcaddr := p_dstaddr q, x_dstaddr := p_srcaddr q, x_leap := s_leap s,
                 x_version := p_version q, x_mode := p_hmode q,
                 x_stratum := (if s_stratum s = word_of_int MAXSTRAT then 0 else s_stratum s),
                 x_poll := p_hpoll q, x_precision := s_precision s,
                 x_rootdelay := D2FP (e_d2u32 e) (s_rootdelay s),
                 x_rootdisp := D2FP (e_d2u32 e) (s_rootdisp s),
                 x_refid := s_refid s, x_reftime := s_reftime s,
                 x_org := p_org q, x_rec := p_rec q\<rparr>;
           (t, w) = now w
       in bind_r (modify e p (\<lambda>q. q\<lparr>p_xmt := t\<rparr>) w) (\<lambda>w.
            send (x\<lparr>x_xmt := t, x_dgst := md5 (p_keyid q)\<rparr>) w))"






section \<open>Lemmas\<close>

text \<open>Of one survivor the reference squares o - o * o - o, which is never positive.\<close>

lemma minus_nonneg_le: "wfd (Fin a) \<Longrightarrow> 0 \<le> y \<Longrightarrow> Fin a - y \<le> Fin a"
proof (cases y)
  case (Fin b)
  assume "wfd (Fin a)" and "0 \<le> y"
  then have "flt (a - b) \<le> flt a" using Fin by (intro flt_mono) (simp add: zero_dbl_def)
  moreover have "flt a = Fin a" using \<open>wfd (Fin a)\<close> by (simp add: flt_Fin repr_def)
  ultimately show ?thesis using Fin by simp
qed (auto simp: dbl_defs)

lemma minus_le_0: "x \<le> Fin a \<Longrightarrow> x - Fin a \<le> Fin 0"
proof (cases x)
  case (Fin b)
  assume "x \<le> Fin a"
  then have "flt (b - a) \<le> flt 0" using Fin by (intro flt_mono) simp
  then show ?thesis using Fin by simp
qed (auto simp: dbl_defs)

lemma ref_square_first:
  assumes "wfd (Fin a)"
  shows "ref_square (Fin a) (Fin a) \<le> Fin 0"
proof -
  have "Fin a - Fin a * Fin a \<le> Fin a"
    by (rule minus_nonneg_le [OF assms]) (simp add: flt_nonneg)
  then show ?thesis unfolding ref_square_def by (rule minus_le_0)
qed

lemma divide_le_0: "x \<le> Fin 0 \<Longrightarrow> 0 < k \<Longrightarrow> x / Fin k \<le> Fin 0"
proof (cases x)
  case (Fin b)
  assume "x \<le> Fin 0" and k: "0 < k"
  then have "flt (b / k) \<le> flt 0" using Fin by (intro flt_mono) (simp add: divide_le_0_iff)
  then show ?thesis using Fin k by simp
qed (auto simp: dbl_defs)

lemma zero_plus_le_0: "x \<le> Fin 0 \<Longrightarrow> Fin 0 + x \<le> Fin 0"
proof (cases x)
  case (Fin b)
  assume "x \<le> Fin 0"
  then have "flt b \<le> flt 0" using Fin by (intro flt_mono) simp
  then show ?thesis using Fin by simp
qed (auto simp: dbl_defs)

lemma reciprocal:
  assumes "1 / 2 ^ 60 \<le> x" and "x \<le> 2 ^ 60"
  obtains k where "flt (1 / x) = Fin k" and "0 < k" and "flt k = Fin k"
proof -
  have x: "0 < x" using assms(1) by (smt (verit) zero_less_divide_1_iff zero_less_power)
  have lo: "flt (1 / 2 ^ 60) = Fin (1 / 2 ^ 60)"
    using flt_dyadic [of 1 "- 60"] by (simp add: power_int_def power_divide)
  have hi: "flt (2 ^ 60) = Fin (2 ^ 60)" using flt_dyadic [of 1048576 40] by (simp add: power_int_def)
  have "1 / 2 ^ 60 \<le> 1 / x" using assms(2) x by (intro divide_left_mono) auto
  then have l: "Fin (1 / 2 ^ 60) \<le> flt (1 / x)" using flt_mono [of "1 / 2 ^ 60" "1 / x"] lo by simp
  have "1 / x \<le> 2 ^ 60" using assms(1) x by (simp add: field_simps)
  then have h: "flt (1 / x) \<le> Fin (2 ^ 60)" using flt_mono [of "1 / x" "2 ^ 60"] hi by simp
  obtain k where k: "flt (1 / x) = Fin k" using l h by (cases "flt (1 / x)") (auto simp: dbl_defs)
  have "0 < k" using l k by (simp add: less_le_trans [of 0 "1 / 2 ^ 60" k])
  moreover have "flt k = Fin k" using k wfd_flt [of "1 / x"] by (intro flt_Fin) (simp_all add: repr_def)
  ultimately show ?thesis using that k by blast
qed

text \<open>What a request leaves alone: the process time, the spread of the poll times, the live associations.\<close>

definition spares :: "ptr \<Rightarrow> world \<Rightarrow> world \<Rightarrow> bool" where
  "spares p w w' \<longleftrightarrow> c_t (w_c w') = c_t (w_c w) \<and> w_last_nextdate w' = w_last_nextdate w \<and>
     (valid w p \<longrightarrow> valid w' p)"

lemma spares_refl [simp]: "spares p w w"
  by (simp add: spares_def)







section \<open>Properties\<close>

text \<open>
  With a single survivor of positive root distance, the reference takes the square root of a number
  that is never positive, where the port takes that of zero; the offset is formed in the same way.
\<close>

theorem combine_one_survivor:
  assumes "s_v (w_s w) = r # r1 # rest" and "v_p r1 = NULL" and "valid w (v_p r)"
    and "p_offset (peer w (v_p r)) = Fin a" and "wfd (Fin a)"
    and "ref_root_dist w (peer w (v_p r)) = Fin x" and "1 / 2 ^ 60 \<le> x" and "x \<le> 2 ^ 60"
  shows "\<exists>o' u. ref_clock_combine e w = Inr (upd_s (\<lambda>s. s\<lparr>s_offset := o', s_jitter := libm_sqrt u\<rparr>) w) \<and>
    u \<le> Fin 0"
proof -
  let ?q = "peer w (v_p r)" and ?u = "Fin 0 + ref_square (Fin a) (Fin a) / Fin x"
  have x: "0 < x" using assms(7) by (smt (verit) zero_less_divide_1_iff zero_less_power)
  obtain k where k: "flt (1 / x) = Fin k" "0 < k" "flt k = Fin k" using reciprocal [OF assms(7,8)] .
  have "ref_square (Fin a) (Fin a) / Fin x \<le> Fin 0"
    by (rule divide_le_0 [OF ref_square_first [OF assms(5)] x])
  then have u: "?u \<le> Fin 0" by (rule zero_plus_le_0)
  have n: "v_p r \<noteq> NULL" using assms(3) by auto
  have "ref_combine_loop e w (s_v (w_s w)) (Fin 0) (Fin 0) (Fin 0) =
      Inr (Fin k, Fin 0 + Fin a / Fin x, ?u)"
    using assms(1-6) n x k by (simp add: Let_def dbl_of_int_def)
  then show ?thesis
    using divide_le_0 [OF u k(2)] by (auto simp: ref_clock_combine_def)
qed


section \<open>Witness\<close>



end
