(* ===== verification/Skeleton_Main.thy ===== *)
theory Skeleton_Main
  imports Skeleton_System
begin

text \<open>
  The rest of the reference: the main program and the associations of
  src/src/skeleton/main_and_utility.c, receive() with its switch and fast_xmit() of
  src/src/skeleton/peer.c, and clock_select() with its clustering loop of
  src/src/skeleton/system_process.c, where the chime list is an argument: the loop that builds it
  walks an uninitialised pointer. The contents malloc() leaves in an association are an argument.
\<close>

section \<open>Associations and the main program\<close>

text \<open>malloc() is not tested, and clear() is called before the flags are set.\<close>

definition ref_mobilize ::
    "ntp_p \<Rightarrow> env \<Rightarrow> u32 \<Rightarrow> u32 \<Rightarrow> int \<Rightarrow> int \<Rightarrow> int \<Rightarrow> int \<Rightarrow> world \<Rightarrow> (ptr \<times> world) outcome" where
  "ref_mobilize junk e srcaddr dstaddr version mode keyid flags w =
     (let (p, w) = calloc e w
      in bind_r (store p (junk\<lparr>p_srcaddr := srcaddr, p_dstaddr := dstaddr,
             p_version := word_of_int version, p_hmode := word_of_int mode, p_keyid := keyid,
             p_hpoll := word_of_int MINPOLL\<rparr>) w) (\<lambda>w.
         bind_r (ref_clear e p X_INIT w) (\<lambda>w.
         bind_r (modify e p (\<lambda>q. q\<lparr>p_flags := flags\<rparr>) w) (\<lambda>w.
           Inr (p, w)))))"

text \<open>The loop over the associations has the condition 0.\<close>

definition ref_find_assoc :: "ntp_r \<Rightarrow> ptr" where
  "ref_find_assoc r = NULL"

definition ref_md5 :: "int \<Rightarrow> digest" where
  "ref_md5 keyid = 0"

definition ref_recv_packet :: "ntp_r option" where
  "ref_recv_packet = None"

definition ref_xmit_packet :: "ntp_x \<Rightarrow> world \<Rightarrow> world outcome" where
  "ref_xmit_packet x w = Inr w"

text \<open>
  main(): both memset() calls have the length 0, and the loops that mobilise the associations and
  receive the packets have the condition 0.
\<close>

definition ref_main :: "env \<Rightarrow> world \<Rightarrow> int \<times> world" where
  "ref_main e w =
     (let w = upd_s (\<lambda>s. s\<lparr>s_leap := word_of_int NOSYNC, s_stratum := word_of_int MAXSTRAT,
            s_poll := word_of_int MINPOLL, s_precision := - 18, s_p := NULL\<rparr>) w;
          w = ref_rstclock e NSET (Fin 0) (Fin 0) w;
          w = upd_c (\<lambda>c. c\<lparr>c_jitter := LOG2D (e_shl e) (sint (s_precision (w_s w)))\<rparr>) w
      in (0, w))"

section \<open>receive()\<close>

definition ref_fast_xmit ::
    "(world \<Rightarrow> tstamp \<times> world) \<Rightarrow> (ntp_x \<Rightarrow> world \<Rightarrow> world outcome) \<Rightarrow> env \<Rightarrow> ntp_r \<Rightarrow> int \<Rightarrow> auth_code \<Rightarrow>
      world \<Rightarrow> world outcome" where
  "ref_fast_xmit now send e r mode auth w =
     (let s = w_s w;
          x = (e_x e w)\<lparr>x_version := r_version r, x_srcaddr := r_dstaddr r, x_dstaddr := r_srcaddr r,
                x_leap := s_leap s, x_mode := word_of_int mode,
                x_stratum := (if s_stratum s = word_of_int MAXSTRAT then 0 else s_stratum s),
                x_poll := r_poll r, x_precision := s_precision s,
                x_rootdelay := D2FP (e_d2u32 e) (s_rootdelay s),
                x_rootdisp := D2FP (e_d2u32 e) (s_rootdisp s),
                x_refid := s_refid s, x_reftime := s_reftime s,
                x_org := r_xmt r, x_rec := r_dst r\<rparr>;
          (t, w) = now w;
          x = x\<lparr>x_xmt := t\<rparr>;
          x = (if auth \<noteq> A_NONE
               then if auth = A_CRYPTO then x\<lparr>x_keyid := 0\<rparr>
                    else x\<lparr>x_keyid := r_keyid r, x_dgst := ref_md5 (r_keyid r)\<rparr>
               else x)
      in send x w)"

definition ref_mobilize_for :: "ntp_p \<Rightarrow> env \<Rightarrow> ntp_r \<Rightarrow> int \<Rightarrow> world \<Rightarrow> (ptr option \<times> world) outcome" where
  "ref_mobilize_for junk e r mode w =
     bind_r (ref_mobilize junk e (r_srcaddr r) (r_dstaddr r) (uint (r_version r)) mode (r_keyid r) P_EPHEM w)
       (\<lambda>(p, w). Inr (Some p, w))"

text \<open>
  The switch, with the reply \<open>xmit\<close>. It is the port's, on the reference's mobilize() and clear(); the
  unicast branch of the case FXMIT is guarded by the constant 0 here too.
\<close>

definition ref_dispatch_packet ::
    "ntp_p \<Rightarrow> (ntp_r \<Rightarrow> int \<Rightarrow> auth_code \<Rightarrow> world \<Rightarrow> world outcome) \<Rightarrow> env \<Rightarrow> ptr \<Rightarrow> ntp_r \<Rightarrow> auth_code \<Rightarrow>
      dispatch \<Rightarrow> world \<Rightarrow> (ptr option \<times> world) outcome" where
  "ref_dispatch_packet junk xmit e p r auth code w =
     (let stop = (\<lambda>w. (None :: ptr option, w))
      in case code of
        FXMIT \<Rightarrow>
          if s_leap (w_s w) = word_of_int NOSYNC \<or> r_stratum r < s_stratum (w_s w) then Inr (stop w)
          else bind_r (load e w p) (\<lambda>q.
               if AUTH (p_flags q AND P_NOTRUST \<noteq> 0) auth
               then bind_r (xmit r M_SERV auth w) (\<lambda>w. Inr (stop w))
               else Inr (stop w))
      | MANY \<Rightarrow>
          bind_r (load e w p) (\<lambda>q.
            if \<not> AUTH (p_flags q AND (P_NOTRUST OR P_NOPEER) \<noteq> 0) auth then Inr (stop w)
            else ref_mobilize_for junk e r M_CLNT w)
      | NEWPS \<Rightarrow>
          bind_r (load e w p) (\<lambda>q.
            if \<not> AUTH (p_flags q AND P_NOTRUST \<noteq> 0) auth
            then if auth = A_ERROR
                 then bind_r (xmit r M_SACT A_CRYPTO w) (\<lambda>w. Inr (stop w))
                 else Inr (stop w)
            else if \<not> AUTH (p_flags q AND P_NOPEER \<noteq> 0) auth
            then bind_r (xmit r M_SACT auth w) (\<lambda>w. Inr (stop w))
            else ref_mobilize_for junk e r M_PASV w)
      | NEWBC \<Rightarrow>
          bind_r (load e w p) (\<lambda>q.
            if \<not> AUTH (p_flags q AND (P_NOTRUST OR P_NOPEER) \<noteq> 0) auth then Inr (stop w)
            else if s_flags (w_s w) AND S_BCSTENAB = 0 then Inr (stop w)
            else ref_mobilize_for junk e r M_BCLN w)
      | PROC \<Rightarrow> Inr (Some p, w)
      | ERR \<Rightarrow> bind_r (ref_clear e p X_ERROR w) (\<lambda>w. Inr (stop w))
      | DSCRD \<Rightarrow> Inr (stop w))"

definition ref_authenticate :: "ntp_r \<Rightarrow> auth_code" where
  "ref_authenticate r =
     (let has_mac = (0 :: int)
      in if has_mac = 0 then A_NONE
         else if has_mac = 4 then A_CRYPTO
         else if r_mac r \<noteq> ref_md5 (r_keyid r) then A_ERROR
         else A_OK)"

definition ref_receive ::
    "ntp_p \<Rightarrow> (ntp_r \<Rightarrow> int \<Rightarrow> auth_code \<Rightarrow> world \<Rightarrow> world outcome) \<Rightarrow> (world \<Rightarrow> world outcome) \<Rightarrow>
      env \<Rightarrow> ntp_r \<Rightarrow> world \<Rightarrow> world outcome" where
  "ref_receive junk xmit select e r w =
     (if ref_access r = 0 then Inr w
      else if word_of_int VERSION < r_version r then Inr w
      else let auth = ref_authenticate r; p = ref_find_assoc r
           in bind_r (load e w p) (\<lambda>q.
              bind_r (ref_dispatch_code (p_hmode q) (r_mode r)) (\<lambda>code.
              bind_r (ref_dispatch_packet junk xmit e p r auth code w) (\<lambda>(next, w).
                case next of None \<Rightarrow> Inr w | Some p \<Rightarrow> ref_check_packet select e p r auth w))))"

section \<open>clock_select()\<close>

text \<open>The clustering loop.\<close>

definition ref_cluster_step :: "env \<Rightarrow> world \<Rightarrow> nat \<Rightarrow> nat \<Rightarrow> dbl \<times> dbl \<Rightarrow> (dbl \<times> dbl) outcome" where
  "ref_cluster_step e w n i mm =
     (case mm of (mx, mn) \<Rightarrow>
        bind_r (idx Survivor_List (s_v (w_s w)) i) (\<lambda>v. bind_r (load e w (v_p v)) (\<lambda>q.
          let mn = (if p_jitter q < mn then p_jitter q else mn)
          in bind_r (pair_sum e w n (p_offset q)) (\<lambda>dtemp.
             let dtemp = libm_sqrt dtemp
             in Inr (if mx < dtemp then dtemp else mx, mn)))))"

definition ref_cluster_stats :: "env \<Rightarrow> world \<Rightarrow> nat \<Rightarrow> (dbl \<times> dbl) outcome" where
  "ref_cluster_stats e w n =
     foldr_r (ref_cluster_step e w n) [0..<nat (s_n (w_s w))] (flt (- 2000000000), flt 2000000000)"

partial_function (option) ref_cluster_loop :: "env \<Rightarrow> nat \<Rightarrow> world \<Rightarrow> world outcome option" where
  "ref_cluster_loop e n w =
     (case ref_cluster_stats e w n of
        Inl er \<Rightarrow> Some (Inl er)
      | Inr (mx, mn) \<Rightarrow>
          if mx < mn \<or> int n \<le> NMIN then Some (Inr w)
          else ref_cluster_loop e n (upd_s (\<lambda>s. s\<lparr>s_n := i32 (s_n s - 1)\<rparr>) w))"

definition ref_cluster :: "env \<Rightarrow> nat \<Rightarrow> world \<Rightarrow> world outcome" where
  "ref_cluster e n w = (case ref_cluster_loop e n w of None \<Rightarrow> Inl (Hang Cluster_Loop) | Some r \<Rightarrow> r)"

text \<open>The whole function, from the sorted chime list ms with n entries on.\<close>

definition ref_clock_select :: "env \<Rightarrow> ntp_m list \<Rightarrow> nat \<Rightarrow> world \<Rightarrow> timeval \<Rightarrow> (world \<times> timeval) outcome" where
  "ref_clock_select e ms n w k =
     (let osys = s_p (w_s w); w = upd_s (\<lambda>s. s\<lparr>s_p := NULL, s_m := ms\<rparr>) w
      in bind_r (ref_survivors e w ms n (s_v (w_s w))) (\<lambda>(vs, sn).
           let w = upd_s (\<lambda>s. s\<lparr>s_v := vs, s_n := sn\<rparr>) w
           in if sn < NSANE then Inr (w, k)
              else bind_r (ref_cluster e n w) (\<lambda>w.
                   bind_r (pick_peer e osys w) (\<lambda>w.
                     ref_clock_update e (s_p (w_s w)) w k))))"

section \<open>Properties\<close>

text \<open>
  The reference does nothing: main() returns 0 without having sent or received a packet or allocated
  an association, receive() drops every packet, since access() denies it, and find_assoc() finds no
  association.
\<close>

theorem reference_inert:
  "fst (ref_main e w) = 0 \<and> w_sent (snd (ref_main e w)) = w_sent w \<and>
   w_recvs (snd (ref_main e w)) = w_recvs w \<and> w_heap (snd (ref_main e w)) = w_heap w \<and>
   ref_receive junk xmit select e r w = Inr w \<and> ref_find_assoc r = NULL"
  by (simp add: ref_main_def ref_rstclock_def ref_receive_def ref_access_def ref_find_assoc_def Let_def)

text \<open>C25: the reference selects nobody. In clock_select() of the skeleton n is the number of entries
  of the chime list, three for each association, and the scans ask for n - found overlapping
  intervals, which k associations never give. So for every chime list of k intervals, in any order,
  all of whose edges are numbers below the start value 2e9, the lower endpoint keeps that value, no
  entry is a survivor and the survivor list is untouched, and the call leaves the system without a
  peer, whatever peer it had, with s.n 0, and neither the clock structure nor the kernel clock is
  changed. (An edge above 2e9, or one that is not a number, is outside the statement.)\<close>

theorem reference_no_system_peer:
  assumes "intervals k ms" and "\<forall>i < 3 * k. m_edge (ms ! i) < Fin 2000000000"
  shows "(\<exists>high. ref_intersection ms (int (3 * k)) = Inr (Fin 2000000000, high)) \<and>
    ref_survivors e w ms (3 * k) vs = Inr (vs, 0) \<and>
    ref_clock_select e ms (3 * k) w t =
      Inr (upd_s (\<lambda>s. s\<lparr>s_p := NULL, s_m := ms, s_n := 0\<rparr>) w, t)"
proof -
  obtain high where "ref_intersection ms (int (3 * k)) = Inr (Fin 2000000000, high)"
    using ref_allow_loop_low [OF assms(1), of 0 "Fin 2000000000" "flt (- 2000000000)"]
    by (auto simp: ref_intersection_def)
  moreover have "\<forall>i \<in> set [0..<3 * k]. i < length ms \<and> m_edge (ms ! i) < Fin 2000000000"
    using assms by (auto simp: intervals_def)
  ultimately show ?thesis using ref_no_survivor by (simp add: ref_clock_select_def ref_survivors_def Let_def)
qed

theorem reference_no_system_peer_witness:
  "\<exists>ms. length ms = 3 \<and> (\<exists>w. ref_clock_select demo_env ms 3 boot_world \<lparr>tv_sec = 0, tv_usec = 0\<rparr> =
     Inr (w, \<lparr>tv_sec = 0, tv_usec = 0\<rparr>) \<and> s_p (w_s w) = NULL)"
proof -
  let ?ms = "[\<lparr>m_p = NULL, m_type = - 1, m_edge = Fin 1\<rparr>, \<lparr>m_p = NULL, m_type = 0, m_edge = Fin 2\<rparr>,
      \<lparr>m_p = NULL, m_type = 1, m_edge = Fin 3\<rparr>]"
  have three: "i < 3 \<longleftrightarrow> i = 0 \<or> i = 1 \<or> i = 2" for i :: nat by linarith
  have "intervals 1 ?ms" by (auto simp: intervals_def count_of_def three)
  from reference_no_system_peer [OF this, of demo_env boot_world "[]" "\<lparr>tv_sec = 0, tv_usec = 0\<rparr>"]
  show ?thesis by (intro exI [of _ ?ms]) (auto simp: three)
qed

end
